(* ===== verification/Prelude.thy ===== *)
theory Prelude
  imports Main "HOL-Library.Word" "HOL-Library.Monad_Syntax"
begin

unbundle bit_operations_syntax

section \<open>Shared types, the fault monad and generic lemmas\<close>

text \<open>
  What every component of the kernel model shares: the machine integer types of
  \<^verbatim>\<open>include/shared/stdint.h\<close> and \<^verbatim>\<open>stddef.h\<close>, the option monad in which
  \<open>None\<close> stands for a faulting access (a dereference of the null pointer or an access
  outside the object), and lemmas on words, lists and options that the component
  theories use.  The collections \<open>list_frame\<close>, \<open>word_bounds\<close> and \<open>kernel_defs\<close> gather the
  frame rules of the linked lists, the bounds on machine words and the definitions that
  are unfolded when a concrete execution is evaluated.
\<close>

named_theorems list_frame "frame rules of the linked list heap"
named_theorems word_bounds "bounds and no-overflow facts on machine words"
named_theorems kernel_defs "definitions unfolded to evaluate concrete runs"

type_synonym u8 = "8 word"
type_synonym u16 = "16 word"
type_synonym u32 = "32 word"
type_synonym u64 = "64 word"
type_synonym size_t = "64 word"

subsection \<open>Options\<close>

lemma bind_SomeI: "m = Some a \<Longrightarrow> f a = Some b \<Longrightarrow> Option.bind m f = Some b"
  by simp

lemma if_bind:
  "Option.bind (if c then a else b) f = (if c then Option.bind a f else Option.bind b f)"
  by simp

subsection \<open>Machine words as natural numbers\<close>

lemma unat_less_2p: "unat (x :: 'a::len word) < 2 ^ LENGTH('a)"
  by (rule unsigned_less)

lemma u64_unat_bound [word_bounds]: "unat (x :: u64) < 18446744073709551616"
  using unat_less_2p [of x] by simp

lemma unat_add_no_overflow:
  "unat (x :: 'a::len word) + unat y < 2 ^ LENGTH('a) \<Longrightarrow> unat (x + y) = unat x + unat y"
  by (simp add: unat_word_ariths)

lemma unat_add_le_bound:
  "unat (x :: 'a::len word) + unat y \<le> unat (z :: 'a word) \<Longrightarrow> unat (x + y) = unat x + unat y"
  using unat_less_2p [of z] by (intro unat_add_no_overflow) linarith

lemma unat_plus_one: "(x :: 'a::len word) < y \<Longrightarrow> unat (x + 1) = Suc (unat x)"
  using unat_add_le_bound [of x 1 y] by (simp add: word_less_nat_alt)

lemma word_pos_iff: "0 < (x :: 'a::len word) \<longleftrightarrow> 0 < unat x"
  by (simp add: word_less_nat_alt)

lemma unat_pred: "0 < (x :: 'a::len word) \<Longrightarrow> unat (x - 1) = unat x - 1"
  by (rule unat_minus_one) auto

lemma unat_eq_of_nat: "n < 2 ^ LENGTH('a) \<Longrightarrow> unat (of_nat n :: 'a::len word) = n"
  by (simp add: unat_of_nat)

lemma of_nat_eq_0_word:
  "n < 2 ^ LENGTH('a) \<Longrightarrow> ((of_nat n :: 'a::len word) = 0) = (n = 0)"
  by (simp add: unat_eq_zero [symmetric] unat_of_nat)

subsection \<open>Lists\<close>

lemma distinct_nth_inj:
  "distinct xs \<Longrightarrow> i < length xs \<Longrightarrow> j < length xs \<Longrightarrow> (xs ! i = xs ! j) = (i = j)"
  by (rule nth_eq_iff_index_eq)

lemma find_False [simp]: "find (\<lambda>_. False) xs = None"
  by (induction xs) simp_all

text \<open>A loop over a list whose body may fault.\<close>

primrec ofold :: "('a \<Rightarrow> 's \<Rightarrow> 's option) \<Rightarrow> 'a list \<Rightarrow> 's \<Rightarrow> 's option" where
  "ofold f [] s = Some s"
| "ofold f (x # xs) s = Option.bind (f x s) (ofold f xs)"

lemma ofold_append: "ofold f (xs @ ys) s = Option.bind (ofold f xs s) (ofold f ys)"
  by (induction xs arbitrary: s) (auto split: bind_split)

lemma ofold_inv:
  assumes "\<And>x s s'. x \<in> set xs \<Longrightarrow> P s \<Longrightarrow> f x s = Some s' \<Longrightarrow> P s'" "ofold f xs s = Some s'" "P s"
  shows "P s'"
  using assms by (induction xs arbitrary: s) (auto split: bind_splits)

lemma ofold_cong_inv:
  assumes "\<And>x s. x \<in> set xs \<Longrightarrow> P s \<Longrightarrow> f x s = g x s" "\<And>x s s'. x \<in> set xs \<Longrightarrow> P s \<Longrightarrow> f x s = Some s' \<Longrightarrow> P s'" "P s"
  shows "ofold f xs s = ofold g xs s"
  using assms
proof (induction xs arbitrary: s)
  case (Cons x xs)
  have same: "f x s = g x s" using Cons.prems(1) [of x s] Cons.prems(3) by simp
  have "ofold f xs s' = ofold g xs s'" if "f x s = Some s'" for s'
  proof (rule Cons.IH)
    show "P s'" using Cons.prems(2) [of x s s'] Cons.prems(3) that by simp
    show "f y t = g y t" if "y \<in> set xs" "P t" for y t using Cons.prems(1) [of y t] that by simp
    show "P t'" if "y \<in> set xs" "P t" "f y t = Some t'" for y t t' using Cons.prems(2) [of y t t'] that by simp
  qed
  then show ?case unfolding ofold.simps same [symmetric] by (cases "f x s") simp_all
qed simp

lemma split_last: "xs \<noteq> [] \<Longrightarrow> \<exists>ys y. xs = ys @ [y]"
  by (metis append_butlast_last_id)

end
