(* ===== verification/Klist.thy ===== *)
theory Klist
  imports Prelude
begin

section \<open>The intrusive doubly linked list (shared/list.c)\<close>

text \<open>
  Model of \<^verbatim>\<open>kern/lib/shared/list.c\<close> and \<^verbatim>\<open>include/shared/util/list.h\<close>.  A pointer to a
  \<^verbatim>\<open>struct list_elem\<close> is the null pointer, the address of the head or of the tail
  sentinel of a list object, or the address of an element embedded in some object; the
  memory holds the two link fields of every element and the size field of every list.
  Dereferencing the null pointer is the fault \<open>None\<close>.  \<open>elem_value\<close> (the
  container-of macro) is the inverse of the constructor \<open>Elem\<close>.
\<close>

subsection \<open>Memory\<close>

datatype ('l, 'e) ptr = NULL | Head 'l | Tail 'l | Elem 'e

record ('l, 'e) lheap =
  prev :: "('l, 'e) ptr \<Rightarrow> ('l, 'e) ptr"
  nxt :: "('l, 'e) ptr \<Rightarrow> ('l, 'e) ptr"
  lsize :: "'l \<Rightarrow> size_t"

definition get_prev :: "('l, 'e) lheap \<Rightarrow> ('l, 'e) ptr \<Rightarrow> ('l, 'e) ptr option" where
  "get_prev h p = (if p = NULL then None else Some (prev h p))"

definition get_nxt :: "('l, 'e) lheap \<Rightarrow> ('l, 'e) ptr \<Rightarrow> ('l, 'e) ptr option" where
  "get_nxt h p = (if p = NULL then None else Some (nxt h p))"

definition set_prev ::
  "('l, 'e) lheap \<Rightarrow> ('l, 'e) ptr \<Rightarrow> ('l, 'e) ptr \<Rightarrow> ('l, 'e) lheap option" where
  "set_prev h p q = (if p = NULL then None else Some (h\<lparr>prev := (prev h)(p := q)\<rparr>))"

definition set_nxt ::
  "('l, 'e) lheap \<Rightarrow> ('l, 'e) ptr \<Rightarrow> ('l, 'e) ptr \<Rightarrow> ('l, 'e) lheap option" where
  "set_nxt h p q = (if p = NULL then None else Some (h\<lparr>nxt := (nxt h)(p := q)\<rparr>))"

definition inc_size :: "('l, 'e) lheap \<Rightarrow> 'l \<Rightarrow> ('l, 'e) lheap" where
  "inc_size h l = h\<lparr>lsize := (lsize h)(l := lsize h l + 1)\<rparr>"

definition dec_size :: "('l, 'e) lheap \<Rightarrow> 'l \<Rightarrow> ('l, 'e) lheap" where
  "dec_size h l = h\<lparr>lsize := (lsize h)(l := lsize h l - 1)\<rparr>"

lemmas field_defs [kernel_defs] =
  get_prev_def get_nxt_def set_prev_def set_nxt_def inc_size_def dec_size_def

fun elem_value :: "('l, 'e) ptr \<Rightarrow> 'e option" where
  "elem_value (Elem e) = Some e"
| "elem_value _ = None"

subsection \<open>Operations\<close>

definition list_size :: "('l, 'e) lheap \<Rightarrow> 'l \<Rightarrow> size_t" where
  "list_size h l = lsize h l"

definition list_empty :: "('l, 'e) lheap \<Rightarrow> 'l \<Rightarrow> bool" where
  "list_empty h l \<longleftrightarrow> list_size h l = 0"

definition list_init :: "('l, 'e) lheap \<Rightarrow> 'l \<Rightarrow> ('l, 'e) lheap" where
  "list_init h l = h\<lparr>
     prev := (prev h)(Head l := NULL, Tail l := Head l),
     nxt := (nxt h)(Head l := Tail l, Tail l := NULL),
     lsize := (lsize h)(l := 0)\<rparr>"

definition list_begin :: "('l, 'e) lheap \<Rightarrow> 'l \<Rightarrow> ('l, 'e) ptr" where
  "list_begin h l = (if list_empty h l then Tail l else nxt h (Head l))"

definition list_end :: "'l \<Rightarrow> ('l, 'e) ptr" where
  "list_end l = Tail l"

definition list_front :: "('l, 'e) lheap \<Rightarrow> 'l \<Rightarrow> ('l, 'e) ptr" where
  "list_front h l = (if list_empty h l then NULL else nxt h (Head l))"

definition list_back :: "('l, 'e) lheap \<Rightarrow> 'l \<Rightarrow> ('l, 'e) ptr" where
  "list_back h l = (if list_empty h l then NULL else prev h (Tail l))"

definition list_next :: "('l, 'e) lheap \<Rightarrow> ('l, 'e) ptr \<Rightarrow> ('l, 'e) ptr option" where
  "list_next h el = get_nxt h el"

definition isolated_elem :: "('l, 'e) lheap \<Rightarrow> ('l, 'e) ptr \<Rightarrow> bool option" where
  "isolated_elem h el = do {
     pr \<leftarrow> get_prev h el;
     if pr = NULL then do { ne \<leftarrow> get_nxt h el; Some (ne \<noteq> NULL) } else Some False }"

definition list_push_back ::
  "('l, 'e) lheap \<Rightarrow> 'l \<Rightarrow> ('l, 'e) ptr \<Rightarrow> ('l, 'e) lheap option" where
  "list_push_back h l el = do {
     h \<leftarrow> (if list_empty h l
          then do { h \<leftarrow> set_prev h el (Head l); set_nxt h (Head l) el }
          else do {
            tp \<leftarrow> get_prev h (Tail l);
            h \<leftarrow> set_prev h el tp;
            set_nxt h tp el });
     h \<leftarrow> set_prev h (Tail l) el;
     h \<leftarrow> set_nxt h el (Tail l);
     Some (inc_size h l) }"

definition list_push_front ::
  "('l, 'e) lheap \<Rightarrow> 'l \<Rightarrow> ('l, 'e) ptr \<Rightarrow> ('l, 'e) lheap option" where
  "list_push_front h l el = do {
     h \<leftarrow> (if list_empty h l
          then do { h \<leftarrow> set_nxt h el (Tail l); set_prev h (Tail l) el }
          else do {
            hn \<leftarrow> get_nxt h (Head l);
            h \<leftarrow> set_nxt h el hn;
            set_prev h hn el });
     h \<leftarrow> set_nxt h (Head l) el;
     h \<leftarrow> set_prev h el (Head l);
     Some (inc_size h l) }"

text \<open>The four assignments that take an element out of the list it is linked in.\<close>

definition unlink ::
  "('l, 'e) lheap \<Rightarrow> 'l \<Rightarrow> ('l, 'e) ptr \<Rightarrow> ('l, 'e) lheap option" where
  "unlink h l el = do {
     ne \<leftarrow> get_nxt h el;
     pr \<leftarrow> get_prev h el;
     h \<leftarrow> set_nxt h pr ne;
     h \<leftarrow> set_prev h ne pr;
     Some (dec_size h l) }"

definition list_pop_back ::
  "('l, 'e) lheap \<Rightarrow> 'l \<Rightarrow> (('l, 'e) ptr \<times> ('l, 'e) lheap) option" where
  "list_pop_back h l =
     (if list_empty h l then Some (NULL, h)
      else do {
        pb \<leftarrow> get_prev h (list_end l);
        h \<leftarrow> unlink h l pb;
        Some (pb, h) })"

definition list_pop_front ::
  "('l, 'e) lheap \<Rightarrow> 'l \<Rightarrow> (('l, 'e) ptr \<times> ('l, 'e) lheap) option" where
  "list_pop_front h l =
     (if list_empty h l then Some (NULL, h)
      else do {
        let pf = list_begin h l;
        h \<leftarrow> unlink h l pf;
        Some (pf, h) })"

definition list_remove ::
  "('l, 'e) lheap \<Rightarrow> 'l \<Rightarrow> ('l, 'e) ptr \<Rightarrow> ('l, 'e) lheap option" where
  "list_remove h l el = (if list_empty h l then Some h else unlink h l el)"

text \<open>
  The walk of \<^verbatim>\<open>list_insert_ordered\<close> stops where the comparator first fails; nothing stops
  it at the tail sentinel, so it may run into the null pointer.
\<close>

partial_function (option) insert_walk ::
  "('l, 'e) lheap \<Rightarrow> (('l, 'e) ptr \<Rightarrow> ('l, 'e) ptr \<Rightarrow> bool) \<Rightarrow> ('l, 'e) ptr \<Rightarrow> ('l, 'e) ptr
     \<Rightarrow> ('l, 'e) ptr option" where
  "insert_walk h cmp el pr =
     (if cmp pr el then do { pr \<leftarrow> get_nxt h pr; insert_walk h cmp el pr } else Some pr)"

definition list_insert_ordered ::
  "('l, 'e) lheap \<Rightarrow> 'l \<Rightarrow> ('l, 'e) ptr \<Rightarrow> (('l, 'e) ptr \<Rightarrow> ('l, 'e) ptr \<Rightarrow> bool)
     \<Rightarrow> ('l, 'e) lheap option" where
  "list_insert_ordered h l el cmp = do {
     let pr = list_begin h l;
     h \<leftarrow> (if pr \<noteq> NULL
          then do {
            pr \<leftarrow> insert_walk h cmp el pr;
            ne \<leftarrow> get_nxt h pr;
            h \<leftarrow> set_nxt h pr el;
            h \<leftarrow> set_nxt h el ne;
            set_prev h el pr }
          else do {
            h \<leftarrow> set_nxt h (Head l) el;
            h \<leftarrow> set_prev h el (Head l);
            h \<leftarrow> set_prev h (Tail l) el;
            set_nxt h el (Tail l) });
     Some (inc_size h l) }"

text \<open>\<^verbatim>\<open>list_sort\<close> has an empty body.\<close>

definition list_sort ::
  "('l, 'e) lheap \<Rightarrow> 'l \<Rightarrow> (('l, 'e) ptr \<Rightarrow> ('l, 'e) ptr \<Rightarrow> bool) \<Rightarrow> ('l, 'e) lheap" where
  "list_sort h l cmp = h"

partial_function (option) fit_loop ::
  "('l, 'e) lheap \<Rightarrow> 'l \<Rightarrow> (('l, 'e) ptr \<Rightarrow> ('l, 'e) ptr \<Rightarrow> bool) \<Rightarrow> ('l, 'e) ptr
     \<Rightarrow> ('l, 'e) ptr \<Rightarrow> ('l, 'e) ptr option" where
  "fit_loop h l better el found =
     (if el \<noteq> list_end l
      then do {
        ne \<leftarrow> list_next h el;
        fit_loop h l better ne (if better el found then el else found) }
      else Some found)"

definition list_worstfit ::
  "('l, 'e) lheap \<Rightarrow> 'l \<Rightarrow> (('l, 'e) ptr \<Rightarrow> ('l, 'e) ptr \<Rightarrow> bool) \<Rightarrow> ('l, 'e) ptr option" where
  "list_worstfit h l cmp =
     fit_loop h l (\<lambda>el worst. \<not> cmp el worst) (list_begin h l) (list_end l)"

definition list_bestfit ::
  "('l, 'e) lheap \<Rightarrow> 'l \<Rightarrow> (('l, 'e) ptr \<Rightarrow> ('l, 'e) ptr \<Rightarrow> bool) \<Rightarrow> ('l, 'e) ptr option" where
  "list_bestfit h l cmp = fit_loop h l cmp (list_begin h l) (list_end l)"

text \<open>
  \<^verbatim>\<open>list_foreach\<close>: the action is a state transformer on a state that holds the list memory;
  the next pointer is read after the action ran.  A null \<^verbatim>\<open>aux\<close> is replaced by the list.
\<close>

partial_function (option) foreach_loop ::
  "('s \<Rightarrow> ('l, 'e) lheap) \<Rightarrow> (('l, 'e) ptr \<Rightarrow> 's \<Rightarrow> 's option) \<Rightarrow> 'l \<Rightarrow> ('l, 'e) ptr \<Rightarrow> 's
     \<Rightarrow> 's option" where
  "foreach_loop hp action l el s =
     (if el \<noteq> list_end l
      then do {
        s \<leftarrow> action el s;
        ne \<leftarrow> list_next (hp s) el;
        foreach_loop hp action l ne s }
      else Some s)"

definition list_foreach ::
  "('s \<Rightarrow> ('l, 'e) lheap) \<Rightarrow> 'l \<Rightarrow> (('l, 'e) ptr \<Rightarrow> 'l + 'a \<Rightarrow> 's \<Rightarrow> 's option) \<Rightarrow> 'a option \<Rightarrow> 's
     \<Rightarrow> 's option" where
  "list_foreach hp l action aux s =
     foreach_loop hp (\<lambda>el. action el (case aux of None \<Rightarrow> Inl l | Some a \<Rightarrow> Inr a)) l
       (list_begin (hp s) l) s"

definition elem_swap ::
  "('l, 'e) lheap \<Rightarrow> ('l, 'e) ptr \<Rightarrow> ('l, 'e) ptr \<Rightarrow> ('l, 'e) lheap option" where
  "elem_swap h lf ri = do {
     lpr \<leftarrow> get_prev h lf;
     rpr \<leftarrow> get_prev h ri;
     rne \<leftarrow> get_nxt h ri;
     lne \<leftarrow> get_nxt h lf;
     h \<leftarrow> set_nxt h lpr ri;
     h \<leftarrow> set_nxt h rpr lf;
     h \<leftarrow> set_prev h lf rpr;
     h \<leftarrow> set_prev h ri lpr;
     h \<leftarrow> set_prev h lne ri;
     h \<leftarrow> set_prev h rne lf;
     h \<leftarrow> set_nxt h lf rne;
     set_nxt h ri lne }"

subsection \<open>Doubly linked segments\<close>

text \<open>
  \<open>chain n v p xs q\<close>: from \<open>p\<close>, the next links run through \<open>xs\<close> to \<open>q\<close> and the previous
  links run back.
\<close>

fun chain :: "('a \<Rightarrow> 'a) \<Rightarrow> ('a \<Rightarrow> 'a) \<Rightarrow> 'a \<Rightarrow> 'a list \<Rightarrow> 'a \<Rightarrow> bool" where
  "chain n v p [] q \<longleftrightarrow> n p = q \<and> v q = p"
| "chain n v p (x # xs) q \<longleftrightarrow> n p = x \<and> v x = p \<and> chain n v x xs q"

lemma chain_append [simp]:
  "chain n v p (xs @ y # ys) q \<longleftrightarrow> chain n v p xs y \<and> chain n v y ys q"
  by (induction xs arbitrary: p) auto

lemma chain_nxt_upd [simp]:
  "a \<noteq> p \<Longrightarrow> a \<notin> set xs \<Longrightarrow> chain (n(a := b)) v p xs q = chain n v p xs q"
  by (induction xs arbitrary: p) auto

lemma chain_prev_upd [simp]:
  "a \<noteq> q \<Longrightarrow> a \<notin> set xs \<Longrightarrow> chain n (v(a := b)) p xs q = chain n v p xs q"
  by (induction xs arbitrary: p) auto

lemma chain_cong:
  "(\<And>x. x \<in> insert p (set xs) \<Longrightarrow> n' x = n x) \<Longrightarrow> (\<And>x. x \<in> insert q (set xs) \<Longrightarrow> v' x = v x)
   \<Longrightarrow> chain n' v' p xs q = chain n v p xs q"
  by (induction xs arbitrary: p) auto

lemma chain_last: "chain n v p (xs @ [x]) q \<Longrightarrow> v q = x"
  by simp

subsection \<open>The list object and its contents\<close>

definition list_rep :: "('l, 'e) lheap \<Rightarrow> 'l \<Rightarrow> 'e list \<Rightarrow> bool" where
  "list_rep h l xs \<longleftrightarrow>
     chain (nxt h) (prev h) (Head l) (map Elem xs) (Tail l) \<and>
     prev h (Head l) = NULL \<and> nxt h (Tail l) = NULL \<and>
     distinct xs \<and> unat (lsize h l) = length xs"

lemma ptr_image [simp]:
  "Elem e \<in> Elem ` E \<longleftrightarrow> e \<in> E" "Head l \<in> Head ` L \<longleftrightarrow> l \<in> L" "Tail l \<in> Tail ` L \<longleftrightarrow> l \<in> L"
  "Elem e \<notin> Head ` L" "Elem e \<notin> Tail ` L" "Head l \<notin> Elem ` E" "Head l \<notin> Tail ` L"
  "Tail l \<notin> Elem ` E" "Tail l \<notin> Head ` L" "NULL \<notin> Elem ` E" "NULL \<notin> Head ` L" "NULL \<notin> Tail ` L"
  by auto

text \<open>The part of the memory that an operation on the lists \<open>L\<close> and the elements \<open>E\<close> leaves alone.\<close>

definition same_outside :: "'l set \<Rightarrow> 'e set \<Rightarrow> ('l, 'e) lheap \<Rightarrow> ('l, 'e) lheap \<Rightarrow> bool" where
  "same_outside L E h h' \<longleftrightarrow>
     (\<forall>p. p \<notin> Head ` L \<union> Tail ` L \<union> Elem ` E \<longrightarrow> nxt h' p = nxt h p \<and> prev h' p = prev h p) \<and>
     (\<forall>l. l \<notin> L \<longrightarrow> lsize h' l = lsize h l)"

lemma list_rep_frame [list_frame]:
  assumes "same_outside L E h h'" "list_rep h l xs" "l \<notin> L" "set xs \<inter> E = {}"
  shows "list_rep h' l xs"
proof -
  have *: "nxt h' p = nxt h p \<and> prev h' p = prev h p"
    if "p \<in> insert (Head l) (insert (Tail l) (Elem ` set xs))" for p
    using assms(1,3,4) that by (auto simp: same_outside_def)
  have "chain (nxt h') (prev h') (Head l) (map Elem xs) (Tail l)
      = chain (nxt h) (prev h) (Head l) (map Elem xs) (Tail l)"
    by (rule chain_cong) (use * in auto)
  with assms * show ?thesis by (auto simp: list_rep_def same_outside_def)
qed

lemma list_rep_empty: "list_rep h l xs \<Longrightarrow> list_empty h l \<longleftrightarrow> xs = []"
  by (metis length_0_conv list_empty_def list_rep_def list_size_def unat_eq_zero)

lemma list_rep_begin: "list_rep h l xs \<Longrightarrow> list_begin h l = (case xs of [] \<Rightarrow> Tail l | x # _ \<Rightarrow> Elem x)"
  using list_rep_empty [of h l xs] by (auto simp: list_begin_def list_rep_def split: list.splits)

lemma list_rep_init: "list_rep (list_init h l) l []"
  by (simp add: list_rep_def list_init_def)

lemma same_outside_init: "same_outside {l} {} h (list_init h l)"
  by (auto simp: same_outside_def list_init_def)

lemma list_rep_size_bound: "list_rep h l xs \<Longrightarrow> length xs < 18446744073709551616"
  by (metis list_rep_def u64_unat_bound)

lemma unat_inc: "unat (x :: size_t) = n \<Longrightarrow> Suc n < 18446744073709551616 \<Longrightarrow> unat (x + 1) = Suc n"
  by (subst unat_add_no_overflow) auto

lemma unat_dec: "unat (x :: size_t) = Suc n \<Longrightarrow> unat (x - 1) = n"
  by (subst unat_minus_one) auto


text \<open>The effect of every operation on one list, with what it leaves alone.\<close>

lemma push_back_rep:
  assumes rep: "list_rep h l xs" and new: "e \<notin> set xs"
    and room: "Suc (length xs) < 18446744073709551616"
  shows "\<exists>h'. list_push_back h l (Elem e) = Some h' \<and> list_rep h' l (xs @ [e]) \<and>
    same_outside {l} (insert e (set xs)) h h'"
proof (cases "xs = []")
  case True
  with assms show ?thesis
    by (auto simp: list_push_back_def list_rep_empty [OF rep] field_defs list_rep_def same_outside_def unat_inc)
next
  case False
  then obtain ys y where xs: "xs = ys @ [y]" by (metis split_last)
  with assms show ?thesis
    by (auto simp: list_push_back_def list_rep_empty [OF rep] field_defs list_rep_def same_outside_def unat_inc)
qed

lemma push_front_rep:
  assumes rep: "list_rep h l xs" and new: "e \<notin> set xs"
    and room: "Suc (length xs) < 18446744073709551616"
  shows "\<exists>h'. list_push_front h l (Elem e) = Some h' \<and> list_rep h' l (e # xs) \<and>
    same_outside {l} (insert e (set xs)) h h'"
  using assms
  by (cases xs) (auto simp: list_push_front_def list_rep_empty [OF rep] field_defs list_rep_def
      same_outside_def unat_inc)

lemma unlink_rep:
  assumes rep: "list_rep h l (xs @ e # ys)"
  shows "\<exists>h'. unlink h l (Elem e) = Some h' \<and> list_rep h' l (xs @ ys) \<and>
    same_outside {l} (set (xs @ ys)) h h'"
proof (cases "xs = []")
  case True
  with rep show ?thesis
    by (cases ys) (auto simp: unlink_def field_defs list_rep_def same_outside_def unat_dec)
next
  case False
  then obtain us u where "xs = us @ [u]" by (metis split_last)
  with rep show ?thesis
    by (cases ys) (auto simp: unlink_def field_defs list_rep_def same_outside_def unat_dec)
qed

lemma remove_rep:
  assumes rep: "list_rep h l (xs @ e # ys)"
  shows "\<exists>h'. list_remove h l (Elem e) = Some h' \<and> list_rep h' l (xs @ ys) \<and>
    same_outside {l} (set (xs @ ys)) h h'"
  using unlink_rep [OF rep] list_rep_empty [OF rep] by (simp add: list_remove_def)

lemma unlinked_next:
  assumes "list_rep h l (xs @ e # ys)" "list_remove h l (Elem e) = Some h'"
  shows "nxt h' (Elem e) = nxt h (Elem e)"
proof (cases "xs = []")
  case True
  with assms show ?thesis
    by (cases ys) (auto simp: list_remove_def list_rep_empty [OF assms(1)] unlink_def field_defs list_rep_def)
next
  case False
  then obtain us u where "xs = us @ [u]" by (metis split_last)
  with assms show ?thesis
    by (cases ys) (auto simp: list_remove_def list_rep_empty [OF assms(1)] unlink_def field_defs list_rep_def)
qed

lemma pop_front_rep:
  assumes rep: "list_rep h l (e # ys)"
  shows "\<exists>h'. list_pop_front h l = Some (Elem e, h') \<and> list_rep h' l ys \<and> same_outside {l} (set ys) h h'"
  using unlink_rep [of h l "[]" e ys] rep list_rep_empty [OF rep] list_rep_begin [OF rep]
  by (auto simp: list_pop_front_def)

lemma pop_back_rep:
  assumes rep: "list_rep h l (xs @ [e])"
  shows "\<exists>h'. list_pop_back h l = Some (Elem e, h') \<and> list_rep h' l xs \<and> same_outside {l} (set xs) h h'"
proof -
  have "get_prev h (list_end l) = Some (Elem e)"
    using rep by (auto simp: list_end_def get_prev_def list_rep_def)
  with unlink_rep [of h l xs e "[]"] rep list_rep_empty [OF rep] show ?thesis
    by (auto simp: list_pop_back_def)
qed

lemma pop_empty_rep:
  assumes "list_rep h l []"
  shows "list_pop_front h l = Some (NULL, h)" "list_pop_back h l = Some (NULL, h)"
    "list_remove h l p = Some h"
  using list_rep_empty [OF assms] by (simp_all add: list_pop_front_def list_pop_back_def list_remove_def)

lemma front_back_rep:
  assumes rep: "list_rep h l xs"
  shows "list_front h l = (if xs = [] then NULL else Elem (hd xs))"
    "list_back h l = (if xs = [] then NULL else Elem (last xs))"
proof -
  show "list_front h l = (if xs = [] then NULL else Elem (hd xs))"
    using rep list_rep_empty [OF rep] by (cases xs) (auto simp: list_front_def list_rep_def)
  show "list_back h l = (if xs = [] then NULL else Elem (last xs))"
  proof (cases "xs = []")
    case False
    then obtain us u where "xs = us @ [u]" by (metis split_last)
    then show ?thesis using rep list_rep_empty [OF rep] by (auto simp: list_back_def list_rep_def)
  qed (simp add: list_back_def list_rep_empty [OF rep])
qed

subsection \<open>Walking a list\<close>

lemma list_rep_next:
  assumes "list_rep h l (xs @ e # ys)"
  shows "list_next h (Elem e) = Some (case ys of [] \<Rightarrow> Tail l | y # _ \<Rightarrow> Elem y)"
  using assms by (cases ys) (auto simp: list_next_def get_nxt_def list_rep_def)

text \<open>The number of steps of a walk is the length of the list: every walk ends.\<close>

lemma fit_loop_rep:
  assumes "list_rep h l (us @ ys)"
  shows "fit_loop h l better (case ys of [] \<Rightarrow> Tail l | y # _ \<Rightarrow> Elem y) best
       = Some (foldl (\<lambda>b y. if better y b then y else b) best (map Elem ys))"
  using assms
proof (induction ys arbitrary: us best)
  case Nil
  show ?case by (simp add: fit_loop.simps list_end_def)
next
  case (Cons y ys)
  have nx: "list_next h (Elem y) = Some (case ys of [] \<Rightarrow> Tail l | y # _ \<Rightarrow> Elem y)"
    using list_rep_next [OF Cons.prems] .
  have "fit_loop h l better (Elem y) best
      = fit_loop h l better (case ys of [] \<Rightarrow> Tail l | y # _ \<Rightarrow> Elem y)
          (if better (Elem y) best then Elem y else best)"
    by (subst fit_loop.simps) (simp add: nx list_end_def)
  also have "\<dots> = Some (foldl (\<lambda>b y. if better y b then y else b)
      (if better (Elem y) best then Elem y else best) (map Elem ys))"
    by (rule Cons.IH [of "us @ [y]"]) (use Cons.prems in simp)
  finally show ?case by simp
qed

lemma foreach_loop_rep:
  assumes "list_rep (hp s) l (us @ ys)"
    and keeps: "\<And>x s s'. action x s = Some s' \<Longrightarrow> hp s' = hp s"
  shows "foreach_loop hp action l (case ys of [] \<Rightarrow> Tail l | y # _ \<Rightarrow> Elem y) s
       = ofold (\<lambda>y. action (Elem y)) ys s"
  using assms(1)
proof (induction ys arbitrary: us s)
  case Nil
  show ?case by (simp add: foreach_loop.simps list_end_def)
next
  case (Cons y ys)
  show ?case
  proof (cases "action (Elem y) s")
    case None
    then show ?thesis by (simp add: foreach_loop.simps list_end_def)
  next
    case (Some s')
    then have hp: "hp s' = hp s" by (rule keeps)
    have nx: "list_next (hp s') (Elem y) = Some (case ys of [] \<Rightarrow> Tail l | y # _ \<Rightarrow> Elem y)"
      using list_rep_next [OF Cons.prems] hp by simp
    have "foreach_loop hp action l (Elem y) s
        = foreach_loop hp action l (case ys of [] \<Rightarrow> Tail l | y # _ \<Rightarrow> Elem y) s'"
      by (subst foreach_loop.simps) (simp add: Some nx list_end_def)
    also have "\<dots> = ofold (\<lambda>y. action (Elem y)) ys s'"
      by (rule Cons.IH [of s' "us @ [y]"]) (use Cons.prems hp in simp)
    finally show ?thesis using Some by simp
  qed
qed

lemma list_bestfit_rep:
  "list_rep h l xs \<Longrightarrow> list_bestfit h l cmp
     = Some (foldl (\<lambda>b y. if cmp y b then y else b) (Tail l) (map Elem xs))"
  using fit_loop_rep [of h l "[]" xs cmp "Tail l"]
  by (simp add: list_bestfit_def list_rep_begin list_end_def)

lemma list_worstfit_rep:
  "list_rep h l xs \<Longrightarrow> list_worstfit h l cmp
     = Some (foldl (\<lambda>b y. if \<not> cmp y b then y else b) (Tail l) (map Elem xs))"
  using fit_loop_rep [of h l "[]" xs "\<lambda>el worst. \<not> cmp el worst" "Tail l"]
  by (simp add: list_worstfit_def list_rep_begin list_end_def)


lemma elem_swap_rep:
  assumes rep: "list_rep h l (xs @ a # ys @ b # zs)" and apart: "ys \<noteq> []"
  shows "\<exists>h'. elem_swap h (Elem a) (Elem b) = Some h' \<and> list_rep h' l (xs @ b # ys @ a # zs)"
proof -
  consider (one) y where "ys = [y]" | (more) y us u where "ys = y # us @ [u]"
    using apart by (metis list.exhaust split_last)
  then show ?thesis
  proof cases
    case one
    then show ?thesis
    proof (cases "xs = []")
      case True
      with rep one show ?thesis
        by (cases zs) (auto simp: elem_swap_def field_defs list_rep_def)
    next
      case False
      then obtain vs v where "xs = vs @ [v]" by (metis split_last)
      with rep one show ?thesis
        by (cases zs) (auto simp: elem_swap_def field_defs list_rep_def)
    qed
  next
    case more
    then show ?thesis
    proof (cases "xs = []")
      case True
      with rep more show ?thesis
        by (cases zs) (auto simp: elem_swap_def field_defs list_rep_def)
    next
      case False
      then obtain vs v where "xs = vs @ [v]" by (metis split_last)
      with rep more show ?thesis
        by (cases zs) (auto simp: elem_swap_def field_defs list_rep_def)
    qed
  qed
qed

subsection \<open>Several lists in one memory\<close>

text \<open>
  The kernel keeps many lists whose elements live in the same memory: \<open>lists_rep h f\<close> says
  that every initialised list \<open>l\<close> holds the sequence \<open>f l\<close> and that no element is linked in
  two lists.
\<close>

definition lists_rep :: "('l, 'e) lheap \<Rightarrow> ('l \<rightharpoonup> 'e list) \<Rightarrow> bool" where
  "lists_rep h f \<longleftrightarrow>
     (\<forall>l xs. f l = Some xs \<longrightarrow> list_rep h l xs) \<and>
     (\<forall>l l' xs ys. f l = Some xs \<longrightarrow> f l' = Some ys \<longrightarrow> l \<noteq> l' \<longrightarrow> set xs \<inter> set ys = {})"

definition linked :: "('l \<rightharpoonup> 'e list) \<Rightarrow> 'e set" where
  "linked f = \<Union> (set ` ran f)"

lemma linked_iff: "e \<in> linked f \<longleftrightarrow> (\<exists>l xs. f l = Some xs \<and> e \<in> set xs)"
  by (auto simp: linked_def ran_def)

lemma lists_repD: "lists_rep h f \<Longrightarrow> f l = Some xs \<Longrightarrow> list_rep h l xs"
  by (simp add: lists_rep_def)

text \<open>One list changes, its new elements come from itself or from no list: the others stay.\<close>

lemma lists_rep_upd:
  assumes rep: "lists_rep h f" and l: "f l = Some xs" and new: "list_rep h' l ys"
    and frame: "same_outside {l} E h h'"
    and E: "E \<subseteq> set xs \<union> - linked f" and ys: "set ys \<subseteq> set xs \<union> - linked f"
  shows "lists_rep h' (f(l \<mapsto> ys))"
proof -
  have other: "set zs \<inter> E = {} \<and> set zs \<inter> set ys = {}" if "f k = Some zs" "k \<noteq> l" for k zs
  proof -
    have "set zs \<inter> set xs = {}" using rep l that by (auto simp: lists_rep_def)
    moreover have "set zs \<subseteq> linked f" using that(1) by (meson linked_iff subsetI)
    ultimately show ?thesis using E ys by blast
  qed
  then have "list_rep h' k zs" if "f k = Some zs" "k \<noteq> l" for k zs
    using list_rep_frame [OF frame lists_repD [OF rep that(1)]] that by simp
  moreover have "set zs \<inter> set ws = {}" if "f k = Some zs" "f k' = Some ws" "k \<noteq> k'" for k k' zs ws
    using rep that by (auto simp: lists_rep_def)
  ultimately show ?thesis
    using new other by (fastforce simp: lists_rep_def)
qed

lemma lists_push_back:
  assumes "lists_rep h f" "f l = Some xs" "e \<notin> linked f" "Suc (length xs) < 18446744073709551616"
  shows "\<exists>h'. list_push_back h l (Elem e) = Some h' \<and> lists_rep h' (f(l \<mapsto> xs @ [e]))"
proof -
  have e: "e \<notin> set xs" using assms by (auto simp: linked_iff)
  then obtain h' where "list_push_back h l (Elem e) = Some h'" "list_rep h' l (xs @ [e])"
    "same_outside {l} (insert e (set xs)) h h'"
    using push_back_rep [OF lists_repD [OF assms(1,2)]] assms(4) by blast
  then show ?thesis using lists_rep_upd [OF assms(1,2)] assms(3) by fastforce
qed

lemma lists_push_front:
  assumes "lists_rep h f" "f l = Some xs" "e \<notin> linked f" "Suc (length xs) < 18446744073709551616"
  shows "\<exists>h'. list_push_front h l (Elem e) = Some h' \<and> lists_rep h' (f(l \<mapsto> e # xs))"
proof -
  have e: "e \<notin> set xs" using assms by (auto simp: linked_iff)
  then obtain h' where "list_push_front h l (Elem e) = Some h'" "list_rep h' l (e # xs)"
    "same_outside {l} (insert e (set xs)) h h'"
    using push_front_rep [OF lists_repD [OF assms(1,2)]] assms(4) by blast
  then show ?thesis using lists_rep_upd [OF assms(1,2)] assms(3) by fastforce
qed

lemma lists_pop_front:
  assumes "lists_rep h f" "f l = Some (e # xs)"
  shows "\<exists>h'. list_pop_front h l = Some (Elem e, h') \<and> lists_rep h' (f(l \<mapsto> xs))"
proof -
  obtain h' where "list_pop_front h l = Some (Elem e, h')" "list_rep h' l xs"
    "same_outside {l} (set xs) h h'"
    using pop_front_rep [OF lists_repD [OF assms]] by blast
  then show ?thesis using lists_rep_upd [OF assms] by fastforce
qed

lemma lists_pop_back:
  assumes "lists_rep h f" "f l = Some (xs @ [e])"
  shows "\<exists>h'. list_pop_back h l = Some (Elem e, h') \<and> lists_rep h' (f(l \<mapsto> xs))"
proof -
  obtain h' where "list_pop_back h l = Some (Elem e, h')" "list_rep h' l xs"
    "same_outside {l} (set xs) h h'"
    using pop_back_rep [OF lists_repD [OF assms]] by blast
  then show ?thesis using lists_rep_upd [OF assms] by fastforce
qed

lemma lists_remove:
  assumes "lists_rep h f" "f l = Some (xs @ e # ys)"
  shows "\<exists>h'. list_remove h l (Elem e) = Some h' \<and> lists_rep h' (f(l \<mapsto> xs @ ys))"
proof -
  obtain h' where "list_remove h l (Elem e) = Some h'" "list_rep h' l (xs @ ys)"
    "same_outside {l} (set (xs @ ys)) h h'"
    using remove_rep [OF lists_repD [OF assms]] by blast
  then show ?thesis using lists_rep_upd [OF assms] by fastforce
qed

lemma lists_init:
  assumes "lists_rep h f" "f l = None"
  shows "lists_rep (list_init h l) (f(l \<mapsto> []))"
proof -
  have "list_rep (list_init h l) k zs" if k: "f k = Some zs" for k zs
  proof -
    have "k \<noteq> l" using k assms(2) by auto
    with list_rep_frame [OF same_outside_init lists_repD [OF assms(1) k], of l] show ?thesis by simp
  qed
  then show ?thesis using assms by (auto simp: lists_rep_def list_rep_init)
qed

subsection \<open>The interface the rest of the kernel uses\<close>

text \<open>
  What the schedulers, the semaphores and the hash table rely on: a store of disjoint
  sequences with pushing at the back, popping at the front and removal.
\<close>

locale list_store =
  fixes rep :: "'h \<Rightarrow> ('l \<rightharpoonup> 'e list) \<Rightarrow> bool"
    and push :: "'h \<Rightarrow> 'l \<Rightarrow> 'e \<Rightarrow> 'h option"
    and pop :: "'h \<Rightarrow> 'l \<Rightarrow> ('e option \<times> 'h) option"
    and del :: "'h \<Rightarrow> 'l \<Rightarrow> 'e \<Rightarrow> 'h option"
    and room :: "nat \<Rightarrow> bool"
  assumes push: "rep h f \<Longrightarrow> f l = Some xs \<Longrightarrow> e \<notin> linked f \<Longrightarrow> room (Suc (length xs))
      \<Longrightarrow> \<exists>h'. push h l e = Some h' \<and> rep h' (f(l \<mapsto> xs @ [e]))"
    and pop_Cons: "rep h f \<Longrightarrow> f l = Some (e # xs) \<Longrightarrow> \<exists>h'. pop h l = Some (Some e, h') \<and> rep h' (f(l \<mapsto> xs))"
    and pop_Nil: "rep h f \<Longrightarrow> f l = Some [] \<Longrightarrow> pop h l = Some (None, h)"
    and del: "rep h f \<Longrightarrow> f l = Some (xs @ e # ys) \<Longrightarrow> \<exists>h'. del h l e = Some h' \<and> rep h' (f(l \<mapsto> xs @ ys))"
    and disjoint: "rep h f \<Longrightarrow> f l = Some xs \<Longrightarrow> f l' = Some ys \<Longrightarrow> l \<noteq> l' \<Longrightarrow> set xs \<inter> set ys = {}"
    and dist: "rep h f \<Longrightarrow> f l = Some xs \<Longrightarrow> distinct xs"
    and room_mono: "room n \<Longrightarrow> m \<le> n \<Longrightarrow> room m"
begin

text \<open>An element that has left its list may be pushed on any list.\<close>

lemma popped_free:
  assumes "rep h f" "f l = Some (xs @ e # ys)" shows "e \<notin> linked (f(l \<mapsto> xs @ ys))"
  using dist [OF assms] disjoint [OF assms(1)] assms(2) by (fastforce simp: linked_iff split: if_splits)

lemma transfer:
  assumes "rep h f" "f l = Some (e # xs)" "f k = Some ys" "k \<noteq> l" "room (Suc (length ys))"
  shows "\<exists>h1 h2. pop h l = Some (Some e, h1) \<and> push h1 k e = Some h2 \<and>
    rep h2 (f(l \<mapsto> xs, k \<mapsto> ys @ [e]))"
proof -
  obtain h1 where h1: "pop h l = Some (Some e, h1)" "rep h1 (f(l \<mapsto> xs))"
    using pop_Cons [OF assms(1,2)] by blast
  moreover have "e \<notin> linked (f(l \<mapsto> xs))" using popped_free [of h f l "[]" e xs] assms by simp
  ultimately show ?thesis using push [of h1 "f(l \<mapsto> xs)" k ys e] assms by auto
qed

text \<open>First in, first out: pushing a sequence and popping as often gives it back in order.\<close>

primrec push_all :: "'h \<Rightarrow> 'l \<Rightarrow> 'e list \<Rightarrow> 'h option" where
  "push_all h l [] = Some h"
| "push_all h l (e # es) = Option.bind (push h l e) (\<lambda>h. push_all h l es)"

primrec pop_n :: "nat \<Rightarrow> 'h \<Rightarrow> 'l \<Rightarrow> ('e option list \<times> 'h) option" where
  "pop_n 0 h l = Some ([], h)"
| "pop_n (Suc n) h l = Option.bind (pop h l) (\<lambda>(e, h).
     Option.bind (pop_n n h l) (\<lambda>(es, h). Some (e # es, h)))"

lemma push_all:
  assumes "rep h f" "f l = Some xs" "distinct es" "set es \<inter> linked f = {}"
    "room (length xs + length es)"
  shows "\<exists>h'. push_all h l es = Some h' \<and> rep h' (f(l \<mapsto> xs @ es))"
  using assms
proof (induction es arbitrary: h f xs)
  case Nil
  then show ?case by (simp add: map_upd_triv)
next
  case (Cons e es)
  obtain h1 where h1: "push h l e = Some h1" "rep h1 (f(l \<mapsto> xs @ [e]))"
    using push [OF Cons.prems(1,2), of e] Cons.prems room_mono by fastforce
  have "set es \<inter> linked (f(l \<mapsto> xs @ [e])) = {}"
    using Cons.prems by (fastforce simp: linked_iff split: if_splits)
  then show ?case
    using Cons.IH [of h1 "f(l \<mapsto> xs @ [e])" "xs @ [e]"] h1 Cons.prems
    by (simp del: fun_upd_apply add: fun_upd_same)
qed

lemma pop_n:
  assumes "rep h f" "f l = Some (es @ xs)"
  shows "\<exists>h'. pop_n (length es) h l = Some (map Some es, h') \<and> rep h' (f(l \<mapsto> xs))"
  using assms
proof (induction es arbitrary: h f)
  case Nil
  then show ?case by (simp add: map_upd_triv)
next
  case (Cons e es)
  obtain h1 where h1: "pop h l = Some (Some e, h1)" "rep h1 (f(l \<mapsto> es @ xs))"
    using pop_Cons [of h f l e "es @ xs"] Cons.prems by auto
  then show ?case using Cons.IH [of h1 "f(l \<mapsto> es @ xs)"] by (auto simp del: fun_upd_apply simp: fun_upd_same)
qed

lemma fifo:
  assumes "rep h f" "f l = Some []" "distinct es" "set es \<inter> linked f = {}" "room (length es)"
  shows "\<exists>h1 h2. push_all h l es = Some h1 \<and> pop_n (length es) h1 l = Some (map Some es, h2) \<and> rep h2 f"
proof -
  obtain h1 where h1: "push_all h l es = Some h1" "rep h1 (f(l \<mapsto> es))"
    using push_all [OF assms(1,2)] assms by auto
  with pop_n [OF h1(2), of l es "[]"] assms(2) show ?thesis by (auto simp: map_upd_triv)
qed

end

definition pop_elem :: "('l, 'e) lheap \<Rightarrow> 'l \<Rightarrow> ('e option \<times> ('l, 'e) lheap) option" where
  "pop_elem h l = map_option (\<lambda>(p, h). (elem_value p, h)) (list_pop_front h l)"

interpretation kl: list_store lists_rep "\<lambda>h l e. list_push_back h l (Elem e)" pop_elem
  "\<lambda>h l e. list_remove h l (Elem e)" "\<lambda>n. n < 18446744073709551616"
proof unfold_locales
  fix h :: "('l, 'e) lheap" and f l e xs
  assume "lists_rep h f" "f l = Some (e # xs)"
  then show "\<exists>h'. pop_elem h l = Some (Some e, h') \<and> lists_rep h' (f(l \<mapsto> xs))"
    using lists_pop_front by (fastforce simp: pop_elem_def)
next
  fix h :: "('l, 'e) lheap" and f l
  assume "lists_rep h f" "f l = Some []"
  then show "pop_elem h l = Some (None, h)"
    using pop_empty_rep(1) [OF lists_repD] by (fastforce simp: pop_elem_def)
next
  fix h :: "('l, 'e) lheap" and f l xs
  assume "lists_rep h f" "f l = Some xs"
  then show "distinct xs" using lists_repD [of h f l xs] by (simp add: list_rep_def)
next
  fix h :: "('l, 'e) lheap" and f l l' xs ys
  assume "lists_rep h f" "f l = Some xs" "f l' = Some ys" "l \<noteq> l'"
  then show "set xs \<inter> set ys = {}" unfolding lists_rep_def by blast
qed (blast intro: lists_push_back, blast intro: lists_remove, simp)

lemma linked_upd:
  assumes "lists_rep h f" "f l = Some xs"
  shows "linked (f(l \<mapsto> zs)) = linked f - set xs \<union> set zs"
proof (rule set_eqI)
  fix e
  have "(\<exists>k ys. k \<noteq> l \<and> f k = Some ys \<and> e \<in> set ys) \<longleftrightarrow> e \<in> linked f \<and> e \<notin> set xs"
    using assms kl.disjoint [OF assms(1)] unfolding linked_iff by (metis disjoint_iff option.inject)
  moreover have "e \<in> linked (f(l \<mapsto> zs)) \<longleftrightarrow> e \<in> set zs \<or> (\<exists>k ys. k \<noteq> l \<and> f k = Some ys \<and> e \<in> set ys)"
    unfolding linked_iff fun_upd_apply by (metis option.inject)
  ultimately show "e \<in> linked (f(l \<mapsto> zs)) \<longleftrightarrow> e \<in> linked f - set xs \<union> set zs" by blast
qed

lemma linked_sub: "f l = Some xs \<Longrightarrow> set xs \<subseteq> linked f"
  by (rule subsetI, subst linked_iff, intro exI conjI)

subsection \<open>Properties\<close>

text \<open>C1: pushing at either end of a list of the kernel refines adding the element to that
  sequence, and every other list keeps its contents.\<close>

theorem list_push_refines:
  assumes "lists_rep h f" "f l = Some xs" "e \<notin> linked f" "Suc (length xs) < 2 ^ 64"
  shows "(\<exists>h'. list_push_back h l (Elem e) = Some h' \<and> lists_rep h' (f(l \<mapsto> xs @ [e]))) \<and>
    (\<exists>h'. list_push_front h l (Elem e) = Some h' \<and> lists_rep h' (f(l \<mapsto> e # xs)))"
  using assms by (simp add: lists_push_back lists_push_front)

definition demo_lists :: "(nat, nat) lheap" where
  "demo_lists = list_init (list_init \<lparr>prev = (\<lambda>_. NULL), nxt = (\<lambda>_. NULL), lsize = (\<lambda>_. 7)\<rparr> 0) 1"

lemma demo_lists_rep: "lists_rep demo_lists [0 \<mapsto> [], Suc 0 \<mapsto> []]"
proof -
  define h0 :: "(nat, nat) lheap" where "h0 = \<lparr>prev = (\<lambda>_. NULL), nxt = (\<lambda>_. NULL), lsize = (\<lambda>_. 7)\<rparr>"
  have "lists_rep (list_init h0 0) [0 \<mapsto> []]"
    by (rule lists_init) (simp_all add: lists_rep_def)
  then have "lists_rep (list_init (list_init h0 0) 1) [0 \<mapsto> [], 1 \<mapsto> []]"
    by (rule lists_init) simp
  then show ?thesis by (simp add: demo_lists_def h0_def)
qed

theorem list_push_refines_witness:
  "\<exists>h'. list_push_back demo_lists 0 (Elem 5) = Some h' \<and>
    lists_rep h' ([0 \<mapsto> [], Suc 0 \<mapsto> []](0 \<mapsto> [] @ [5]))"
  by (rule list_push_refines [OF demo_lists_rep, THEN conjunct1]) (simp_all add: linked_iff)

text \<open>C2: popping at either end and removing an element refine the same operations on the
  sequences; nothing is lost from the other lists, and on an empty list they change nothing.\<close>

theorem list_removal_refines:
  assumes "lists_rep h f"
  shows "(f l = Some (e # xs) \<longrightarrow> (\<exists>h'. list_pop_front h l = Some (Elem e, h') \<and> lists_rep h' (f(l \<mapsto> xs)))) \<and>
    (f l = Some (xs @ [e]) \<longrightarrow> (\<exists>h'. list_pop_back h l = Some (Elem e, h') \<and> lists_rep h' (f(l \<mapsto> xs)))) \<and>
    (f l = Some (xs @ e # ys) \<longrightarrow> (\<exists>h'. list_remove h l (Elem e) = Some h' \<and> lists_rep h' (f(l \<mapsto> xs @ ys)))) \<and>
    (f l = Some [] \<longrightarrow> list_pop_front h l = Some (NULL, h) \<and> list_pop_back h l = Some (NULL, h) \<and>
      list_remove h l p = Some h)"
  using lists_pop_front [OF assms] lists_pop_back [OF assms] lists_remove [OF assms]
    pop_empty_rep [OF lists_repD [OF assms]] by simp

theorem list_removal_refines_witness:
  "list_pop_front demo_lists 0 = Some (NULL, demo_lists)"
  using list_removal_refines [OF demo_lists_rep, of 0] by simp

text \<open>A list that satisfies the invariant is walked completely, from front to back, and
  the walk ends: with an action that leaves the links alone \<^verbatim>\<open>list_foreach\<close> is the fold of
  the action over the sequence, with \<^verbatim>\<open>aux\<close> or the list itself as its argument.\<close>

theorem list_foreach_visits_in_order:
  assumes "list_rep (hp s) l xs" and "\<And>el a s s'. action el a s = Some s' \<Longrightarrow> hp s' = hp s"
  shows "list_foreach hp l action aux s
    = ofold (\<lambda>y. action (Elem y) (case aux of None \<Rightarrow> Inl l | Some a \<Rightarrow> Inr a)) xs s"
  using foreach_loop_rep [of hp s l "[]" xs] assms by (simp add: list_foreach_def list_rep_begin)

definition demo_pair :: "(nat, nat) lheap" where
  "demo_pair = the (do { h \<leftarrow> list_push_back demo_lists 0 (Elem 5); list_push_back h 0 (Elem 6) })"

lemma demo_pair_rep: "list_rep demo_pair 0 [5, 6]"
  by (simp add: demo_pair_def demo_lists_def list_init_def list_push_back_def list_empty_def list_size_def
      field_defs list_rep_def)

theorem list_foreach_visits_in_order_witness:
  "list_foreach fst 0 (\<lambda>el (a :: nat + unit) (h, acc). Some (h, acc @ [el])) None (demo_pair, [])
     = Some (demo_pair, [Elem 5, Elem 6])"
proof -
  have "list_foreach fst 0 (\<lambda>el (a :: nat + unit) (h, acc). Some (h, acc @ [el])) None (demo_pair, [])
    = ofold (\<lambda>y (h, acc). Some (h, acc @ [Elem y])) [5, 6] (demo_pair, [])"
    using list_foreach_visits_in_order [of fst "(demo_pair, [])" 0 "[5, 6]"
        "\<lambda>el (a :: nat + unit) (h, acc). Some (h, acc @ [el])" None] demo_pair_rep by auto
  then show ?thesis by simp
qed

text \<open>\<^verbatim>\<open>list_bestfit\<close> with a comparator that compares a key and ranks every element before
  the sentinel returns an element of the list with the least key.\<close>

theorem list_bestfit_minimal:
  assumes "list_rep h l xs" "xs \<noteq> []"
    and cmp: "\<And>x. cmp (Elem x) (Tail l)" "\<And>x y. cmp (Elem x) (Elem y) \<longleftrightarrow> key x < (key y :: 'k :: linorder)"
  shows "\<exists>x \<in> set xs. list_bestfit h l cmp = Some (Elem x) \<and> (\<forall>y \<in> set xs. key x \<le> key y)"
proof -
  have step: "\<exists>x \<in> set (x0 # ys). foldl (\<lambda>b y. if cmp y b then y else b) (Elem x0) (map Elem ys) = Elem x \<and>
      (\<forall>y \<in> set (x0 # ys). key x \<le> key y)" for x0 ys
  proof (induction ys arbitrary: x0)
    case (Cons y ys)
    show ?case
      using Cons.IH [of "if key y < key x0 then y else x0"]
      by (auto simp: cmp(2) split: if_splits)
  qed simp
  obtain z zs where xs: "xs = z # zs" using assms(2) by (cases xs) auto
  show ?thesis
    using step [of z zs] list_bestfit_rep [OF assms(1), of cmp] by (simp add: xs cmp(1))
qed

theorem list_bestfit_minimal_witness:
  "\<exists>x \<in> set [5, 6 :: nat]. list_bestfit demo_pair 0
      (\<lambda>p q. case (p, q) of (Elem x, Elem y) \<Rightarrow> y < x | _ \<Rightarrow> True) = Some (Elem x)
    \<and> - int x \<le> - 5 \<and> - int x \<le> - 6"
  using list_bestfit_minimal [OF demo_pair_rep, of "\<lambda>p q. case (p, q) of (Elem x, Elem y) \<Rightarrow> y < x | _ \<Rightarrow> True" "\<lambda>x. - int x"]
  by simp

text \<open>\<^verbatim>\<open>elem_swap\<close> exchanges the positions of two elements that are not neighbours.\<close>

theorem elem_swap_exchanges:
  assumes "list_rep h l (xs @ a # ys @ b # zs)" and "ys \<noteq> []"
  shows "\<exists>h'. elem_swap h (Elem a) (Elem b) = Some h' \<and> list_rep h' l (xs @ b # ys @ a # zs)"
  using assms by (rule elem_swap_rep)

definition demo_three :: "(nat, nat) lheap" where
  "demo_three = the (list_push_back demo_pair 0 (Elem 7))"

lemma demo_three_rep: "list_rep demo_three 0 ([] @ 5 # [6] @ 7 # [])"
  by (simp add: demo_three_def demo_pair_def demo_lists_def list_init_def list_push_back_def list_empty_def
      list_size_def field_defs list_rep_def)

theorem elem_swap_exchanges_witness:
  "\<exists>h'. elem_swap demo_three (Elem 5) (Elem 7) = Some h' \<and> list_rep h' 0 ([] @ 7 # [6] @ 5 # [])"
  by (rule elem_swap_exchanges [OF demo_three_rep]) simp

subsection \<open>Ordered insertion\<close>

lemma chain_inverse: "chain n v p xs q \<Longrightarrow> y \<in> insert p (set xs) \<Longrightarrow> v (n y) = y"
  by (induction xs arbitrary: p) auto

lemma chain_prefix:
  "chain n' v' p ys q' \<Longrightarrow> chain n v p (us @ x # ws) q \<Longrightarrow> (\<forall>y \<in> set (p # us). n' y = n y)
   \<Longrightarrow> q' \<notin> set (us @ [x]) \<Longrightarrow> \<exists>zs. ys = us @ x # zs"
proof (induction us arbitrary: p ys)
  case Nil
  then show ?case by (cases ys) auto
next
  case (Cons u us)
  then show ?case by (cases ys) auto
qed

lemma insert_walk_stops:
  assumes "list_rep h l (vs @ us @ x # ws)" "\<forall>u \<in> set us. cmp (Elem u) el" "\<not> cmp (Elem x) el"
  shows "insert_walk h cmp el (case us of [] \<Rightarrow> Elem x | u # _ \<Rightarrow> Elem u) = Some (Elem x)"
  using assms
proof (induction us arbitrary: vs)
  case Nil
  then show ?case by (simp add: insert_walk.simps)
next
  case (Cons u us)
  have "get_nxt h (Elem u) = Some (case us of [] \<Rightarrow> Elem x | u # _ \<Rightarrow> Elem u)"
    using list_rep_next [of h l vs u "us @ x # ws"] Cons.prems
    by (auto simp: list_next_def split: list.splits)
  then show ?case
    using Cons.IH [of "vs @ [u]"] Cons.prems by (subst insert_walk.simps) simp
qed

text \<open>C38: if the comparator rejects an element of a well formed list, \<^verbatim>\<open>list_insert_ordered\<close> links the new
  element after the first one it rejects, in the forward direction only: the successor's back link still
  skips it, so that the result is no longer a well formed list, of whatever elements.\<close>

theorem insert_ordered_breaks_back_links:
  assumes rep: "list_rep h l (us @ x # ws)" and new: "e \<notin> set (us @ x # ws)"
    and walk: "\<forall>u \<in> set us. cmp (Elem u) (Elem e)" "\<not> cmp (Elem x) (Elem e)"
  shows "\<exists>h'. list_insert_ordered h l (Elem e) cmp = Some h' \<and>
    nxt h' (Elem x) = Elem e \<and> nxt h' (Elem e) = nxt h (Elem x) \<and>
    prev h' (nxt h (Elem x)) = Elem x \<and> (\<forall>ys. \<not> list_rep h' l ys)"
proof -
  let ?ne = "nxt h (Elem x)"
  define h' where "h' = inc_size (h\<lparr>nxt := (nxt h)(Elem x := Elem e, Elem e := ?ne),
    prev := (prev h)(Elem e := Elem x)\<rparr>) l"
  have ne: "prev h ?ne = Elem x" "?ne \<noteq> Elem e"
    using rep new by (cases ws; auto simp: list_rep_def)+
  have "insert_walk h cmp (Elem e) (list_begin h l) = Some (Elem x)"
    using insert_walk_stops [of h l "[]" us x ws cmp "Elem e"] rep walk
    by (auto simp: list_rep_begin [OF rep] split: list.splits)
  moreover have "list_begin h l \<noteq> NULL"
    using list_rep_begin [OF rep] by (auto split: list.splits)
  ultimately have ins: "list_insert_ordered h l (Elem e) cmp = Some h'"
    by (simp add: list_insert_ordered_def h'_def field_defs)
  have "\<not> list_rep h' l ys" for ys
  proof
    assume "list_rep h' l ys"
    then have ch: "chain (nxt h') (prev h') (Head l) (map Elem ys) (Tail l)" by (simp add: list_rep_def)
    have orig: "chain (nxt h) (prev h) (Head l) (map Elem us @ Elem x # map Elem ws) (Tail l)"
      using rep by (simp add: list_rep_def)
    have same: "\<forall>y \<in> set (Head l # map Elem us). nxt h' y = nxt h y"
      using rep new by (auto simp: h'_def inc_size_def list_rep_def)
    have "Tail l \<notin> set (map Elem us @ [Elem x])" by auto
    from chain_prefix [OF ch orig same this]
    obtain zs where "map Elem ys = map Elem us @ (Elem x :: ('a, 'b) ptr) # zs" by blast
    then have "chain (nxt h') (prev h') (Elem x) zs (Tail l)" using ch by simp
    then have "chain (nxt h') (prev h') (Elem e) (tl zs) (Tail l)"
      using new by (cases zs) (auto simp: h'_def inc_size_def)
    from chain_inverse [OF this, of "Elem e"] show False
      using ne new by (simp add: h'_def inc_size_def)
  qed
  with ins ne new show ?thesis by (auto simp: h'_def inc_size_def)
qed

theorem insert_ordered_breaks_back_links_witness:
  "\<exists>h'. list_insert_ordered demo_pair 0 (Elem 4) (\<lambda>_ _. False) = Some h' \<and>
    nxt h' (Elem 5) = Elem 4 \<and> nxt h' (Elem 4) = nxt demo_pair (Elem 5) \<and>
    prev h' (nxt demo_pair (Elem 5)) = Elem 5 \<and> (\<forall>ys. \<not> list_rep h' 0 ys)"
  by (rule insert_ordered_breaks_back_links [of demo_pair 0 "[]" 5 "[6]"]) (simp_all add: demo_pair_rep)

end
