(* ===== verification/Threads.thy ===== *)
theory Threads
  imports Klist
begin

section \<open>Threads and synchronisation (thr/thread.c, thread.h, synch.h)\<close>

text \<open>
  Model of \<^verbatim>\<open>kern/lib/thr/thread.c\<close>.  A thread is the address of its \<^verbatim>\<open>struct thread\<close>; its four
  embedded list elements are elements of the intrusive list memory, and the ready list, the
  waiters of every semaphore and condition variable and the donors of every thread are lists
  of it.  \<^verbatim>\<open>switch_to\<close> saves the processor on the stack of the thread that leaves and resumes
  the one that enters: the stack of a suspended thread is the list of the activations that
  it still has to finish, with the local variables they use again (\<open>frame\<close>).  Operations that
  switch leave their activation on the stack; \<open>run_frame\<close> is what each does when its thread
  runs again.  \<^verbatim>\<open>switch_to\<close> saves and restores the processor flags, and with them
  the interrupt flag (\<open>rflags_if\<close>), but not the variable \<^verbatim>\<open>intr_level\<close> that the kernel reads.

  The address that \<^verbatim>\<open>kcalloc\<close> returns is an argument of \<^verbatim>\<open>create_thread\<close>.  The layout of the
  register area on a new stack and the assembly of \<^verbatim>\<open>switch_to\<close> are not modelled.
\<close>

subsection \<open>State\<close>

type_synonym thr = u64

datatype sema_id = SleepSema thr | LockSema u64 | SemaObj u64

datatype lid = Ready | Waiters sema_id | CondWaiters u64 | Donors thr | SleepQueue

datatype eid = StatusElem thr | SleepElem thr | DonorElem thr | ChildElem thr

datatype thread_status = THRSTAT_BLOCKED | THRSTAT_READY | THRSTAT_RUNNING | THRSTAT_DEAD

datatype interrupt_level = INTR_DISABLED | INTR_ENABLED | INTR_CONTEXT

record thread =
  id_of :: "32 word"
  status :: thread_status
  sleep_end :: "64 word"
  priority :: int
  entry :: u64
  aux :: u64
  magic :: u64

datatype frame =
    StartThread
  | AfterSwitch thr interrupt_level
  | SemaLoop sema_id u64 interrupt_level
  | LockHold u64
  | Reacquire u64
  | SignalLoop u64 u64

record kstate =
  lists :: "(lid, eid) lheap"
  threads :: "thr \<Rightarrow> thread"
  running_thread :: thr
  idle_thread :: thr
  initial_thread :: thr
  next_tid :: "32 word"
  sema_value :: "sema_id \<Rightarrow> u64"
  holder :: "u64 \<Rightarrow> thr"
  intr_level :: interrupt_level
  rflags_if :: interrupt_level
  frames :: "thr \<Rightarrow> frame list"
  freed :: "thr set"
  threads_init :: bool

definition PRI_DEFAULT :: int where
  "PRI_DEFAULT = 0x1F"

definition KTHREAD_MAGIK :: u64 where
  "KTHREAD_MAGIK = 0xF42069ACAB131214"

definition upd_thread :: "thr \<Rightarrow> (thread \<Rightarrow> thread) \<Rightarrow> ('a) kstate_scheme \<Rightarrow> ('a) kstate_scheme" where
  "upd_thread t g s = s\<lparr>threads := (threads s)(t := g (threads s t))\<rparr>"

definition push_frame :: "thr \<Rightarrow> frame \<Rightarrow> ('a) kstate_scheme \<Rightarrow> ('a) kstate_scheme" where
  "push_frame t fr s = s\<lparr>frames := (frames s)(t := fr # frames s t)\<rparr>"

definition push_elem :: "lid \<Rightarrow> eid \<Rightarrow> ('a) kstate_scheme \<Rightarrow> ('a) kstate_scheme option" where
  "push_elem l e s = do { h \<leftarrow> list_push_back (lists s) l (Elem e); Some (s\<lparr>lists := h\<rparr>) }"

text \<open>\<^verbatim>\<open>elem_value(e, struct thread, status_elem)\<close>\<close>

fun status_thread :: "(lid, eid) ptr \<Rightarrow> thr option" where
  "status_thread (Elem (StatusElem t)) = Some t"
| "status_thread _ = None"

subsection \<open>Interrupt level\<close>

definition disable_interrupts :: "('a) kstate_scheme \<Rightarrow> interrupt_level \<times> ('a) kstate_scheme" where
  "disable_interrupts s = (intr_level s, s\<lparr>intr_level := INTR_DISABLED, rflags_if := INTR_DISABLED\<rparr>)"

definition set_interrupt_level :: "interrupt_level \<Rightarrow> ('a) kstate_scheme \<Rightarrow> ('a) kstate_scheme" where
  "set_interrupt_level l s =
     s\<lparr>intr_level := l, rflags_if := (case l of INTR_CONTEXT \<Rightarrow> rflags_if s | _ \<Rightarrow> l)\<rparr>"

subsection \<open>Scheduling\<close>

definition get_current_thread :: "('a) kstate_scheme \<Rightarrow> thr" where
  "get_current_thread s = running_thread s"

definition get_current_id :: "('a) kstate_scheme \<Rightarrow> 32 word" where
  "get_current_id s = id_of (threads s (get_current_thread s))"

definition get_current_status :: "('a) kstate_scheme \<Rightarrow> thread_status" where
  "get_current_status s = status (threads s (get_current_thread s))"

definition set_current_priority :: "int \<Rightarrow> ('a) kstate_scheme \<Rightarrow> ('a) kstate_scheme" where
  "set_current_priority p s = upd_thread (get_current_thread s) (\<lambda>t. t\<lparr>priority := p\<rparr>) s"

definition assign_id :: "('a) kstate_scheme \<Rightarrow> 32 word \<times> ('a) kstate_scheme" where
  "assign_id s = (next_tid s, s\<lparr>next_tid := next_tid s + 1\<rparr>)"

definition next_thread :: "('a) kstate_scheme \<Rightarrow> (thr \<times> ('a) kstate_scheme) option" where
  "next_thread s =
     (if list_empty (lists s) Ready then Some (idle_thread s, s)
      else do {
        (p, h) \<leftarrow> list_pop_front (lists s) Ready;
        t \<leftarrow> status_thread p;
        Some (t, s\<lparr>lists := h\<rparr>) })"

text \<open>
  The thread that leaves keeps the activation of \<^verbatim>\<open>schedule_next\<close>, whose local variable
  \<^verbatim>\<open>prev\<close> is the thread itself.
\<close>

definition schedule_next :: "('a) kstate_scheme \<Rightarrow> ('a) kstate_scheme option" where
  "schedule_next s = do {
     (nx, s) \<leftarrow> next_thread s;
     let prev = running_thread s;
     let s = s\<lparr>running_thread := nx\<rparr>;
     Some (push_frame prev (AfterSwitch prev (rflags_if s)) s) }"

definition yield_current :: "('a) kstate_scheme \<Rightarrow> ('a) kstate_scheme option" where
  "yield_current s = do {
     let cur = get_current_thread s;
     s \<leftarrow> (if status (threads s cur) \<noteq> THRSTAT_BLOCKED then push_elem Ready (StatusElem cur) s else Some s);
     schedule_next s }"

definition block_current :: "('a) kstate_scheme \<Rightarrow> ('a) kstate_scheme option" where
  "block_current s =
     (let (_, s) = disable_interrupts s;
          s = upd_thread (get_current_thread s) (\<lambda>t. t\<lparr>status := THRSTAT_BLOCKED\<rparr>) s
      in yield_current s)"

partial_function (option) thread_get_priority :: "('a) kstate_scheme \<Rightarrow> thr \<Rightarrow> int option" where
  "thread_get_priority s t =
     (if \<not> list_empty (lists s) (Donors t)
      then (case list_front (lists s) (Donors t) of
              Elem (DonorElem d) \<Rightarrow> thread_get_priority s d
            | _ \<Rightarrow> None)
      else Some (priority (threads s t)))"

text \<open>The comparator of the ready list, which no list is ordered by; \<open>thread_compare\<close> written out.\<close>

definition thread_priority_highest :: "('a) kstate_scheme \<Rightarrow> thr \<Rightarrow> thr \<Rightarrow> bool option" where
  "thread_priority_highest s le ri = do {
     p \<leftarrow> thread_get_priority s ri;
     q \<leftarrow> thread_get_priority s le;
     Some (p < q) }"

definition get_current_priority :: "('a) kstate_scheme \<Rightarrow> int option" where
  "get_current_priority s = thread_get_priority s (get_current_thread s)"

definition thread_block :: "thr \<Rightarrow> ('a) kstate_scheme \<Rightarrow> ('a) kstate_scheme option" where
  "thread_block t s =
     (if t = get_current_thread s then block_current s
      else do {
        let s = upd_thread t (\<lambda>t. t\<lparr>status := THRSTAT_BLOCKED\<rparr>) s;
        h \<leftarrow> list_remove (lists s) Ready (Elem (StatusElem t));
        Some (s\<lparr>lists := h\<rparr>) })"

definition thread_unblock :: "thr \<Rightarrow> ('a) kstate_scheme \<Rightarrow> ('a) kstate_scheme option" where
  "thread_unblock t s = do {
     let (old_level, s) = disable_interrupts s;
     s \<leftarrow> (if t \<noteq> idle_thread s then push_elem Ready (StatusElem t) s else Some s);
     let s = upd_thread t (\<lambda>t. t\<lparr>status := THRSTAT_READY\<rparr>) s;
     Some (set_interrupt_level old_level s) }"

definition exit_thread :: "('a) kstate_scheme \<Rightarrow> ('a) kstate_scheme option" where
  "exit_thread s =
     (let (_, s) = disable_interrupts s;
          s = upd_thread (get_current_thread s) (\<lambda>t. t\<lparr>status := THRSTAT_DEAD\<rparr>) s
      in schedule_next s)"

subsection \<open>Semaphores, locks and condition variables\<close>

definition semaphore_init :: "sema_id \<Rightarrow> u64 \<Rightarrow> ('a) kstate_scheme \<Rightarrow> ('a) kstate_scheme" where
  "semaphore_init x v s =
     s\<lparr>sema_value := (sema_value s)(x := v), lists := list_init (lists s) (Waiters x)\<rparr>"

definition semaphore_inc :: "sema_id \<Rightarrow> ('a) kstate_scheme \<Rightarrow> ('a) kstate_scheme option" where
  "semaphore_inc x s = do {
     let (old_level, s) = disable_interrupts s;
     let s = s\<lparr>sema_value := (sema_value s)(x := sema_value s x + 1)\<rparr>;
     s \<leftarrow> (if \<not> list_empty (lists s) (Waiters x)
          then do {
            (p, h) \<leftarrow> list_pop_front (lists s) (Waiters x);
            top_waiter \<leftarrow> status_thread p;
            thread_unblock top_waiter (s\<lparr>lists := h\<rparr>) }
          else Some s);
     Some (set_interrupt_level old_level s) }"

text \<open>
  The loop of \<^verbatim>\<open>semaphore_dec\<close> tests the local variable \<open>value\<close>; the activation that a
  blocked thread leaves behind is the next test of it.
\<close>

definition sema_dec_loop ::
  "sema_id \<Rightarrow> u64 \<Rightarrow> interrupt_level \<Rightarrow> ('a) kstate_scheme \<Rightarrow> ('a) kstate_scheme option" where
  "sema_dec_loop x val old_level s =
     (if val = 0
      then do {
        s \<leftarrow> push_elem (Waiters x) (StatusElem (get_current_thread s)) s;
        block_current (push_frame (get_current_thread s) (SemaLoop x val old_level) s) }
      else Some (set_interrupt_level old_level (s\<lparr>sema_value := (sema_value s)(x := val - 1)\<rparr>)))"

definition semaphore_dec :: "sema_id \<Rightarrow> ('a) kstate_scheme \<Rightarrow> ('a) kstate_scheme option" where
  "semaphore_dec x s =
     (let (old_level, s) = disable_interrupts s
      in sema_dec_loop x (sema_value s x) old_level s)"

definition lock_init :: "u64 \<Rightarrow> ('a) kstate_scheme \<Rightarrow> ('a) kstate_scheme" where
  "lock_init l s = (semaphore_init (LockSema l) 1 s)\<lparr>holder := (holder s)(l := 0)\<rparr>"

definition lock_acquire :: "u64 \<Rightarrow> ('a) kstate_scheme \<Rightarrow> ('a) kstate_scheme option" where
  "lock_acquire l s = semaphore_dec (LockSema l) (push_frame (get_current_thread s) (LockHold l) s)"

definition lock_release :: "u64 \<Rightarrow> ('a) kstate_scheme \<Rightarrow> ('a) kstate_scheme option" where
  "lock_release l s = semaphore_inc (LockSema l) (s\<lparr>holder := (holder s)(l := 0)\<rparr>)"

definition condvar_init :: "u64 \<Rightarrow> ('a) kstate_scheme \<Rightarrow> ('a) kstate_scheme" where
  "condvar_init c s = s\<lparr>lists := list_init (lists s) (CondWaiters c)\<rparr>"

definition condvar_wait :: "u64 \<Rightarrow> u64 \<Rightarrow> ('a) kstate_scheme \<Rightarrow> ('a) kstate_scheme option" where
  "condvar_wait c l s = do {
     s \<leftarrow> lock_release l s;
     s \<leftarrow> push_elem (CondWaiters c) (StatusElem (get_current_thread s)) s;
     block_current (push_frame (get_current_thread s) (Reacquire l) s) }"

definition condvar_signal_one :: "u64 \<Rightarrow> u64 \<Rightarrow> ('a) kstate_scheme \<Rightarrow> ('a) kstate_scheme option" where
  "condvar_signal_one c l s = do {
     s \<leftarrow> lock_release l s;
     (p, h) \<leftarrow> list_pop_front (lists s) (CondWaiters c);
     h \<leftarrow> list_push_back h Ready p;
     lock_acquire l (s\<lparr>lists := h\<rparr>) }"

definition condvar_signal_all :: "u64 \<Rightarrow> u64 \<Rightarrow> ('a) kstate_scheme \<Rightarrow> ('a) kstate_scheme option" where
  "condvar_signal_all c l s =
     (if \<not> list_empty (lists s) (CondWaiters c)
      then condvar_signal_one c l (push_frame (get_current_thread s) (SignalLoop c l) s)
      else Some s)"

subsection \<open>Creation\<close>

definition thread_init :: "thr \<Rightarrow> ('a) kstate_scheme \<Rightarrow> ('a) kstate_scheme" where
  "thread_init t s =
     (let s = s\<lparr>lists := list_init (lists s) (Donors t)\<rparr>;
          s = upd_thread t (\<lambda>t. t\<lparr>priority := PRI_DEFAULT, sleep_end := - 1\<rparr>) s;
          (i, s) = assign_id s;
          s = upd_thread t (\<lambda>t. t\<lparr>id_of := i, magic := KTHREAD_MAGIK\<rparr>) s
      in semaphore_init (SleepSema t) 0 s)"

text \<open>What \<^verbatim>\<open>kcalloc\<close> leaves in a new structure: every field is zero.\<close>

definition zero_thread :: thread where
  "zero_thread = \<lparr>id_of = 0, status = THRSTAT_BLOCKED, sleep_end = 0, priority = 0, entry = 0, aux = 0, magic = 0\<rparr>"

text \<open>\<open>dest\<close> is the assignment \<^verbatim>\<open>*dest = newthr\<close>; \<open>newthr\<close> the address \<^verbatim>\<open>kcalloc\<close> returned.\<close>

definition create_thread ::
  "(thr \<Rightarrow> ('a) kstate_scheme \<Rightarrow> ('a) kstate_scheme) \<Rightarrow> thr \<Rightarrow> u64 \<Rightarrow> u64 \<Rightarrow> ('a) kstate_scheme
     \<Rightarrow> ('a) kstate_scheme option" where
  "create_thread dest newthr f a s =
     (let s = upd_thread newthr (\<lambda>_. zero_thread) s;
          s = dest newthr s;
          s = thread_init newthr s;
          s = s\<lparr>frames := (frames s)(newthr := [StartThread])\<rparr>;
          s = upd_thread newthr (\<lambda>t. t\<lparr>entry := f, aux := a\<rparr>) s
      in thread_unblock newthr s)"

text \<open>\<open>boot\<close> and \<open>idle\<close> are the two addresses that \<^verbatim>\<open>kcalloc\<close> returns, \<open>idle_func\<close> the address of
  \<^verbatim>\<open>idle_thread_func\<close>.\<close>

definition init_threads :: "thr \<Rightarrow> thr \<Rightarrow> u64 \<Rightarrow> ('a) kstate_scheme \<Rightarrow> ('a) kstate_scheme option" where
  "init_threads boot idle idle_func s = do {
     let s = s\<lparr>lists := list_init (lists s) Ready, next_tid := 0, initial_thread := boot\<rparr>;
     let s = upd_thread boot (\<lambda>_. zero_thread) s;
     let s = thread_init boot s;
     s \<leftarrow> create_thread (\<lambda>t s. s\<lparr>idle_thread := t\<rparr>) idle idle_func 0 s;
     Some (s\<lparr>threads_init := True, running_thread := boot\<rparr>) }"

subsection \<open>Steps\<close>

fun run_frame :: "frame \<Rightarrow> ('a) kstate_scheme \<Rightarrow> ('a) kstate_scheme option" where
  "run_frame StartThread s = Some (set_interrupt_level INTR_ENABLED s)"
| "run_frame (AfterSwitch pr fl) s =
     (let s = s\<lparr>rflags_if := fl\<rparr>
      in Some (if status (threads s pr) = THRSTAT_DEAD then s\<lparr>freed := insert pr (freed s)\<rparr> else s))"
| "run_frame (SemaLoop x v old) s = sema_dec_loop x v old s"
| "run_frame (LockHold l) s = Some (s\<lparr>holder := (holder s)(l := get_current_thread s)\<rparr>)"
| "run_frame (Reacquire l) s = lock_acquire l s"
| "run_frame (SignalLoop c l) s = condvar_signal_all c l s"

text \<open>What a thread may ask of the kernel once all its activations have returned.\<close>

datatype kcall =
    Yield | Block | BlockThread thr | UnblockThread thr | SetPriority int | Exit
  | SemaInc sema_id | SemaDec sema_id | LockAcquire u64 | LockRelease u64
  | CondWait u64 u64 | SignalOne u64 u64 | SignalAll u64 u64
  | CreateThread thr u64 u64

fun kernel_call :: "kcall \<Rightarrow> ('a) kstate_scheme \<Rightarrow> ('a) kstate_scheme option" where
  "kernel_call Yield s = yield_current s"
| "kernel_call Block s = block_current s"
| "kernel_call (BlockThread t) s = thread_block t s"
| "kernel_call (UnblockThread t) s = thread_unblock t s"
| "kernel_call (SetPriority p) s = Some (set_current_priority p s)"
| "kernel_call Exit s = exit_thread s"
| "kernel_call (SemaInc x) s = semaphore_inc x s"
| "kernel_call (SemaDec x) s = semaphore_dec x s"
| "kernel_call (LockAcquire l) s = lock_acquire l s"
| "kernel_call (LockRelease l) s = lock_release l s"
| "kernel_call (CondWait c l) s = condvar_wait c l s"
| "kernel_call (SignalOne c l) s = condvar_signal_one c l s"
| "kernel_call (SignalAll c l) s = condvar_signal_all c l s"
| "kernel_call (CreateThread t f a) s = create_thread (\<lambda>_ s. s) t f a s"

text \<open>
  One step of the kernel: the running thread finishes its innermost activation, or, when none
  is left, makes a call that \<open>ok\<close> admits.
\<close>

inductive step :: "(('a) kstate_scheme \<Rightarrow> kcall \<Rightarrow> bool) \<Rightarrow> ('a) kstate_scheme \<Rightarrow> ('a) kstate_scheme \<Rightarrow> bool"
  for ok where
  resume: "frames s (running_thread s) = fr # rest \<Longrightarrow>
     run_frame fr (s\<lparr>frames := (frames s)(running_thread s := rest)\<rparr>) = Some s' \<Longrightarrow> step ok s s'"
| call: "frames s (running_thread s) = [] \<Longrightarrow> ok s c \<Longrightarrow> kernel_call c s = Some s' \<Longrightarrow> step ok s s'"

inductive_cases stepE: "step ok s s'"

inductive steps :: "(('a) kstate_scheme \<Rightarrow> kcall \<Rightarrow> bool) \<Rightarrow> ('a) kstate_scheme \<Rightarrow> ('a) kstate_scheme \<Rightarrow> bool"
  for ok where
  done_steps: "steps ok s s"
| more_steps: "steps ok s t \<Longrightarrow> step ok t u \<Longrightarrow> steps ok s u"

subsection \<open>What the scheduler keeps\<close>

text \<open>The lists whose elements are status elements.\<close>

fun queue :: "lid \<Rightarrow> bool" where
  "queue Ready = True"
| "queue (Waiters _) = True"
| "queue (CondWaiters _) = True"
| "queue _ = False"

definition live :: "('a) kstate_scheme \<Rightarrow> thr \<Rightarrow> bool" where
  "live s t \<longleftrightarrow> t \<noteq> 0 \<and> magic (threads s t) = KTHREAD_MAGIK \<and> status (threads s t) \<noteq> THRSTAT_DEAD"

fun frame_ok :: "sema_id set \<Rightarrow> u64 set \<Rightarrow> thr \<Rightarrow> thr \<Rightarrow> frame \<Rightarrow> bool" where
  "frame_ok X C idle t (AfterSwitch p fl) = (p = t)"
| "frame_ok X C idle t (SemaLoop x v old) = (x \<in> X \<and> t \<noteq> idle)"
| "frame_ok X C idle t (Reacquire l) = (LockSema l \<in> X \<and> t \<noteq> idle)"
| "frame_ok X C idle t (SignalLoop c l) = (c \<in> C \<and> LockSema l \<in> X \<and> t \<noteq> idle)"
| "frame_ok X C idle t _ = True"

text \<open>
  \<open>base_inv\<close> holds also while an operation is at work: the queues hold status elements of
  live threads, the idle thread waits for nothing, the objects of \<open>X\<close> and \<open>C\<close> are initialised,
  an object of a thread is initialised only when the thread was created, no suspended
  activation is out of place and nothing was freed.  \<open>sched_inv\<close> adds that the running
  thread is alive and in no queue.
\<close>

definition base_inv :: "sema_id set \<Rightarrow> u64 set \<Rightarrow> ('a) kstate_scheme \<Rightarrow> (lid \<rightharpoonup> eid list) \<Rightarrow> bool" where
  "base_inv X C s f \<longleftrightarrow> lists_rep (lists s) f \<and> f Ready \<noteq> None \<and>
     (\<forall>x \<in> X. f (Waiters x) \<noteq> None) \<and> (\<forall>c \<in> C. f (CondWaiters c) \<noteq> None) \<and>
     (\<forall>l xs. f l = Some xs \<longrightarrow> (if queue l then set xs \<subseteq> StatusElem ` Collect (live s) else range StatusElem \<inter> set xs = {})) \<and>
     (\<forall>l xs. f l = Some xs \<longrightarrow> StatusElem (idle_thread s) \<in> set xs \<longrightarrow> l = Ready) \<and>
     (\<forall>t. magic (threads s t) \<noteq> KTHREAD_MAGIK \<longrightarrow> f (Donors t) = None \<and> f (Waiters (SleepSema t)) = None) \<and>
     live s (idle_thread s) \<and>
     (\<forall>t. \<forall>fr \<in> set (frames s t). frame_ok X C (idle_thread s) t fr) \<and>
     freed s = {}"

definition sched_inv :: "sema_id set \<Rightarrow> u64 set \<Rightarrow> ('a) kstate_scheme \<Rightarrow> (lid \<rightharpoonup> eid list) \<Rightarrow> bool" where
  "sched_inv X C s f \<longleftrightarrow> base_inv X C s f \<and> live s (running_thread s) \<and> StatusElem (running_thread s) \<notin> linked f"

lemma status_room:
  assumes "distinct xs" "set xs \<subseteq> StatusElem ` Collect (live s)" "StatusElem t \<notin> set xs" "live s t"
  shows "Suc (length xs) < 18446744073709551616"
proof -
  have "set xs \<subseteq> StatusElem ` (- {0, t})" using assms(2,3) by (fastforce simp: live_def)
  then have "card (set xs) \<le> card (- {0, t} :: u64 set)"
    by (meson card_image_le card_mono finite finite_imageI order.trans)
  moreover have "card (- {0, t} :: u64 set) = 18446744073709551616 - 2"
    using assms(4) by (simp add: Compl_eq_Diff_UNIV card_Diff_subset card_word live_def)
  ultimately show ?thesis using distinct_card [OF assms(1)] by simp
qed

lemma base_invD:
  assumes "base_inv X C s f"
  shows "lists_rep (lists s) f" "\<exists>rs. f Ready = Some rs" "x \<in> X \<Longrightarrow> \<exists>xs. f (Waiters x) = Some xs"
    "c \<in> C \<Longrightarrow> \<exists>xs. f (CondWaiters c) = Some xs"
    "f l = Some xs \<Longrightarrow> queue l \<Longrightarrow> set xs \<subseteq> StatusElem ` Collect (live s)" "live s (idle_thread s)"
    "fr \<in> set (frames s t) \<Longrightarrow> frame_ok X C (idle_thread s) t fr"
proof -
  show "lists_rep (lists s) f" "live s (idle_thread s)" using assms by (simp_all add: base_inv_def)
  show "frame_ok X C (idle_thread s) t fr" if "fr \<in> set (frames s t)"
    using assms that by (simp add: base_inv_def)
  show "\<exists>rs. f Ready = Some rs" using assms by (simp add: base_inv_def)
  show "\<exists>xs. f (Waiters x) = Some xs" if "x \<in> X" using assms that by (simp add: base_inv_def)
  show "\<exists>xs. f (CondWaiters c) = Some xs" if "c \<in> C" using assms that by (simp add: base_inv_def)
  have "\<forall>l xs. f l = Some xs \<longrightarrow> (if queue l then set xs \<subseteq> StatusElem ` Collect (live s) else range StatusElem \<inter> set xs = {})"
    using assms unfolding base_inv_def by (elim conjE)
  then show "set xs \<subseteq> StatusElem ` Collect (live s)" if "f l = Some xs" "queue l" using that by metis
qed

text \<open>Pushing a live thread that waits nowhere on a queue.\<close>

lemma base_push:
  assumes inv: "base_inv X C s f" and l: "f l = Some xs" "queue l" and t: "StatusElem t \<notin> linked f" "live s t"
    and idle: "t = idle_thread s \<Longrightarrow> l = Ready"
  shows "\<exists>h. push_elem l (StatusElem t) s = Some (s\<lparr>lists := h\<rparr>) \<and>
    base_inv X C (s\<lparr>lists := h\<rparr>) (f(l \<mapsto> xs @ [StatusElem t]))"
proof -
  note lr = base_invD(1) [OF inv] and sub = base_invD(5) [OF inv l]
  have "StatusElem t \<notin> set xs" using linked_sub [of f, OF l(1)] t(1) by blast
  then have "Suc (length xs) < 18446744073709551616"
    using status_room [OF kl.dist [OF lr l(1)] sub _ t(2)] by blast
  then obtain h where h: "list_push_back (lists s) l (Elem (StatusElem t)) = Some h"
    "lists_rep h (f(l \<mapsto> xs @ [StatusElem t]))"
    using kl.push [OF lr l(1) t(1)] by blast
  have live: "live (s\<lparr>lists := h\<rparr>) = live s" by (simp add: live_def fun_eq_iff)
  have "base_inv X C (s\<lparr>lists := h\<rparr>) (f(l \<mapsto> xs @ [StatusElem t]))"
    unfolding base_inv_def live
  proof (intro conjI)
    show "\<forall>k ys. (f(l \<mapsto> xs @ [StatusElem t])) k = Some ys \<longrightarrow>
        (if queue k then set ys \<subseteq> StatusElem ` Collect (live s) else range StatusElem \<inter> set ys = {})"
      using inv sub t(2) l(2) unfolding base_inv_def by (auto split: if_splits)
    show "\<forall>k ys. (f(l \<mapsto> xs @ [StatusElem t])) k = Some ys \<longrightarrow>
        StatusElem (idle_thread (s\<lparr>lists := h\<rparr>)) \<in> set ys \<longrightarrow> k = Ready"
    proof (intro allI impI)
      fix k ys
      assume a: "(f(l \<mapsto> xs @ [StatusElem t])) k = Some ys" "StatusElem (idle_thread (s\<lparr>lists := h\<rparr>)) \<in> set ys"
      have old: "f j = Some zs \<Longrightarrow> StatusElem (idle_thread s) \<in> set zs \<Longrightarrow> j = Ready" for j zs
        using inv unfolding base_inv_def by blast
      show "k = Ready"
        using a old [of k ys] old [OF l(1)] idle by (cases "k = l") auto
    qed
    show "\<forall>t'. magic (threads (s\<lparr>lists := h\<rparr>) t') \<noteq> KTHREAD_MAGIK \<longrightarrow>
        (f(l \<mapsto> xs @ [StatusElem t])) (Donors t') = None \<and> (f(l \<mapsto> xs @ [StatusElem t])) (Waiters (SleepSema t')) = None"
      using inv l unfolding base_inv_def by auto
  qed (use inv h(2) in \<open>auto simp: base_inv_def\<close>)
  with h(1) show ?thesis by (intro exI [of _ h]) (simp add: push_elem_def)
qed

lemma base_pop:
  assumes inv: "base_inv X C s f" and l: "f l = Some (e # xs)" "queue l"
  shows "\<exists>t h. e = StatusElem t \<and> list_pop_front (lists s) l = Some (Elem e, h) \<and> live s t \<and>
    base_inv X C (s\<lparr>lists := h\<rparr>) (f(l \<mapsto> xs)) \<and> StatusElem t \<notin> linked (f(l \<mapsto> xs)) \<and>
    linked (f(l \<mapsto> xs)) \<subseteq> linked f"
proof -
  note lr = base_invD(1) [OF inv] and sub = base_invD(5) [OF inv l]
  obtain t where t: "e = StatusElem t" "live s t" using sub by auto
  obtain h where h: "list_pop_front (lists s) l = Some (Elem e, h)" "lists_rep h (f(l \<mapsto> xs))"
    using lists_pop_front [OF lr l(1)] by blast
  have live: "live (s\<lparr>lists := h\<rparr>) = live s" by (simp add: live_def fun_eq_iff)
  have "base_inv X C (s\<lparr>lists := h\<rparr>) (f(l \<mapsto> xs))"
    unfolding base_inv_def live
  proof (intro conjI)
    show "\<forall>k ys. (f(l \<mapsto> xs)) k = Some ys \<longrightarrow>
        (if queue k then set ys \<subseteq> StatusElem ` Collect (live s) else range StatusElem \<inter> set ys = {})"
      using inv sub l(2) unfolding base_inv_def by (auto split: if_splits)
    show "\<forall>k ys. (f(l \<mapsto> xs)) k = Some ys \<longrightarrow>
        StatusElem (idle_thread (s\<lparr>lists := h\<rparr>)) \<in> set ys \<longrightarrow> k = Ready"
    proof (intro allI impI)
      fix k ys
      assume a: "(f(l \<mapsto> xs)) k = Some ys" "StatusElem (idle_thread (s\<lparr>lists := h\<rparr>)) \<in> set ys"
      have old: "f j = Some zs \<Longrightarrow> StatusElem (idle_thread s) \<in> set zs \<Longrightarrow> j = Ready" for j zs
        using inv unfolding base_inv_def by blast
      show "k = Ready"
        using a old [of k ys] old [OF l(1)] by (cases "k = l") auto
    qed
    show "\<forall>t'. magic (threads (s\<lparr>lists := h\<rparr>) t') \<noteq> KTHREAD_MAGIK \<longrightarrow>
        (f(l \<mapsto> xs)) (Donors t') = None \<and> (f(l \<mapsto> xs)) (Waiters (SleepSema t')) = None"
      using inv l unfolding base_inv_def by auto
  qed (use inv h(2) in \<open>auto simp: base_inv_def\<close>)
  moreover have "e \<notin> linked (f(l \<mapsto> xs))" using kl.popped_free [OF lr, of l "[]" e xs] l(1) by simp
  moreover have "linked (f(l \<mapsto> xs)) \<subseteq> linked f" 
    unfolding linked_upd [OF lr l(1)] using linked_sub [of f, OF l(1)] by auto
  ultimately show ?thesis using t h(1) by blast
qed

subsection \<open>Switching\<close>

lemma base_mono:
  assumes "base_inv X C s f" "lists s' = lists s" "\<And>t. live s t \<Longrightarrow> live s' t" "idle_thread s' = idle_thread s"
    and "\<And>t. magic (threads s t) = KTHREAD_MAGIK \<Longrightarrow> magic (threads s' t) = KTHREAD_MAGIK"
    and "\<And>t fr. fr \<in> set (frames s' t) \<Longrightarrow> frame_ok X C (idle_thread s) t fr" "freed s' = freed s"
  shows "base_inv X C s' f"
proof -
  have "(if queue l then set xs \<subseteq> StatusElem ` Collect (live s') else range StatusElem \<inter> set xs = {})" if "f l = Some xs" for l xs
  proof (cases "queue l")
    case True
    with base_invD(5) [OF assms(1) that] have "set xs \<subseteq> StatusElem ` Collect (live s)" by simp
    moreover have "Collect (live s) \<subseteq> Collect (live s')" using assms(3) by blast
    ultimately show ?thesis using True by (meson image_mono order.trans)
  next
    case False
    with assms(1) that show ?thesis unfolding base_inv_def by metis
  qed
  then show ?thesis using assms unfolding base_inv_def by (intro conjI) (simp_all, blast)
qed

lemma base_push_frame:
  assumes "base_inv X C s f" "frame_ok X C (idle_thread s) t fr"
  shows "base_inv X C (push_frame t fr s) f"
  by (rule base_mono [OF assms(1)])
    (use base_invD(7) [OF assms(1)] assms(2) in \<open>auto simp: push_frame_def live_def split: if_splits\<close>)

lemma base_upd_live:
  assumes "base_inv X C s f" "\<And>th. magic (g th) = magic th" "status (g (threads s t)) \<noteq> THRSTAT_DEAD"
  shows "base_inv X C (upd_thread t g s) f"
  by (rule base_mono [OF assms(1)]) (use assms in \<open>auto simp: upd_thread_def live_def base_inv_def\<close>)

lemma base_fields:
  "base_inv X C s f \<Longrightarrow> base_inv X C (s\<lparr>running_thread := t\<rparr>) f"
  "base_inv X C s f \<Longrightarrow> base_inv X C (s\<lparr>intr_level := i, rflags_if := j\<rparr>) f"
  "base_inv X C s f \<Longrightarrow> base_inv X C (s\<lparr>sema_value := v\<rparr>) f"
  "base_inv X C s f \<Longrightarrow> base_inv X C (s\<lparr>holder := hs\<rparr>) f"
  "base_inv X C s f \<Longrightarrow> base_inv X C (s\<lparr>rflags_if := j\<rparr>) f"
  unfolding base_inv_def live_def by simp_all

lemma live_lists [simp]: "live (s\<lparr>lists := h\<rparr>) = live s"
  by (simp add: live_def fun_eq_iff)

lemma schedule_next_inv:
  assumes inv: "base_inv X C s f"
  shows "\<exists>s' f'. schedule_next s = Some s' \<and> sched_inv X C s' f' \<and>
    (\<exists>rs. f Ready = Some rs \<and>
      (if rs = [] then running_thread s' = idle_thread s \<and> f' = f
       else StatusElem (running_thread s') = hd rs \<and> f' = f(Ready \<mapsto> tl rs))) \<and>
    threads s' = threads s \<and> idle_thread s' = idle_thread s \<and> sema_value s' = sema_value s \<and> intr_level s' = intr_level s \<and>
    frames s' = (frames s)(running_thread s := AfterSwitch (running_thread s) (rflags_if s) # frames s (running_thread s))"
proof -
  obtain rs where rs: "f Ready = Some rs" using base_invD(2) [OF inv] by blast
  note emp = list_rep_empty [OF lists_repD [OF base_invD(1) [OF inv] rs]]
  show ?thesis
  proof (cases rs)
    case Nil
    have "StatusElem (idle_thread s) \<notin> linked f"
    proof
      assume "StatusElem (idle_thread s) \<in> linked f"
      then obtain l xs where l: "f l = Some xs" "StatusElem (idle_thread s) \<in> set xs" by (auto simp: linked_iff)
      then have "l = Ready" using inv unfolding base_inv_def by blast
      with l rs Nil show False by simp
    qed
    then have "sched_inv X C (push_frame (running_thread s) (AfterSwitch (running_thread s) (rflags_if s))
        (s\<lparr>running_thread := idle_thread s\<rparr>)) f"
      using base_push_frame [OF base_fields(1) [OF inv]] base_invD(6) [OF inv]
      by (simp add: sched_inv_def push_frame_def live_def)
    with Nil rs emp show ?thesis
      by (intro exI [of _ "push_frame (running_thread s) (AfterSwitch (running_thread s) (rflags_if s))
        (s\<lparr>running_thread := idle_thread s\<rparr>)"] exI [of _ f])
        (simp add: schedule_next_def next_thread_def push_frame_def Let_def)
  next
    case (Cons e ts)
    obtain t h where t: "e = StatusElem t" "list_pop_front (lists s) Ready = Some (Elem e, h)" "live s t"
      "base_inv X C (s\<lparr>lists := h\<rparr>) (f(Ready \<mapsto> ts))" "StatusElem t \<notin> linked (f(Ready \<mapsto> ts))"
      using base_pop [OF inv, of Ready e ts] rs Cons by auto
    let ?s = "push_frame (running_thread s) (AfterSwitch (running_thread s) (rflags_if s)) (s\<lparr>lists := h, running_thread := t\<rparr>)"
    have "sched_inv X C ?s (f(Ready \<mapsto> ts))"
      using base_push_frame [OF base_fields(1) [OF t(4)], where t = "running_thread s" and fr = "AfterSwitch (running_thread s) (rflags_if s)"] t(3,5)
      by (simp add: sched_inv_def push_frame_def live_def)
    with Cons rs emp t(1,2) show ?thesis
      by (intro exI [of _ ?s] exI [of _ "f(Ready \<mapsto> ts)"])
        (simp add: schedule_next_def next_thread_def push_frame_def Let_def)
  qed
qed

lemma sched_invD:
  assumes "sched_inv X C s f"
  shows "base_inv X C s f" "live s (running_thread s)" "StatusElem (running_thread s) \<notin> linked f"
  using assms by (simp_all add: sched_inv_def)

lemma block_current_inv:
  assumes inv: "base_inv X C s f"
  shows "\<exists>s' f'. block_current s = Some s' \<and> sched_inv X C s' f' \<and>
    (\<exists>rs. f Ready = Some rs \<and>
      (if rs = [] then running_thread s' = idle_thread s \<and> f' = f
       else StatusElem (running_thread s') = hd rs \<and> f' = f(Ready \<mapsto> tl rs)))"
proof -
  let ?s = "upd_thread (running_thread s) (\<lambda>t. t\<lparr>status := THRSTAT_BLOCKED\<rparr>) (s\<lparr>intr_level := INTR_DISABLED, rflags_if := INTR_DISABLED\<rparr>)"
  have "base_inv X C ?s f" by (rule base_upd_live [OF base_fields(2) [OF inv]]) simp_all
  moreover have i: "idle_thread ?s = idle_thread s" by (simp add: upd_thread_def)
  ultimately obtain s' f' where s': "schedule_next ?s = Some s'" "sched_inv X C s' f'"
    "\<exists>rs. f Ready = Some rs \<and> (if rs = [] then running_thread s' = idle_thread s \<and> f' = f
       else StatusElem (running_thread s') = hd rs \<and> f' = f(Ready \<mapsto> tl rs))"
    using schedule_next_inv [of X C ?s f] unfolding i by blast
  have "block_current s = schedule_next ?s"
    by (simp add: block_current_def disable_interrupts_def yield_current_def get_current_thread_def upd_thread_def Let_def)
  then have "block_current s = Some s'" using s'(1) by simp
  then show ?thesis using s'(2,3) by (intro exI [of _ s'] exI [of _ f'] conjI)
qed

lemma yield_current_inv:
  assumes inv: "sched_inv X C s f" and nb: "status (threads s (running_thread s)) \<noteq> THRSTAT_BLOCKED"
    and rs: "f Ready = Some rs"
  shows "\<exists>s' f'. yield_current s = Some s' \<and> sched_inv X C s' f' \<and>
    StatusElem (running_thread s') = hd (rs @ [StatusElem (running_thread s)]) \<and>
    f' = f(Ready \<mapsto> tl (rs @ [StatusElem (running_thread s)]))"
proof -
  note d = sched_invD [OF inv]
  obtain h where h: "push_elem Ready (StatusElem (running_thread s)) s = Some (s\<lparr>lists := h\<rparr>)"
    "base_inv X C (s\<lparr>lists := h\<rparr>) (f(Ready \<mapsto> rs @ [StatusElem (running_thread s)]))"
    using base_push [OF d(1) rs _ d(3,2)] by auto
  have "yield_current s = schedule_next (s\<lparr>lists := h\<rparr>)"
    using nb h(1) by (simp add: yield_current_def get_current_thread_def)
  with schedule_next_inv [OF h(2)] show ?thesis by auto
qed

lemma yield_blocked_inv:
  assumes inv: "sched_inv X C s f" and bl: "status (threads s (running_thread s)) = THRSTAT_BLOCKED"
    and rs: "f Ready = Some rs"
  shows "\<exists>s' f'. yield_current s = Some s' \<and> sched_inv X C s' f' \<and> StatusElem (running_thread s) \<notin> linked f' \<and>
    StatusElem (running_thread s') = hd (rs @ [StatusElem (idle_thread s)]) \<and> f' = f(Ready \<mapsto> tl rs)"
proof -
  note d = sched_invD [OF inv]
  have y: "yield_current s = schedule_next s" using bl by (simp add: yield_current_def get_current_thread_def Let_def)
  have "f(Ready \<mapsto> []) = f" if "rs = []" using rs that by (simp add: map_upd_triv)
  moreover have "StatusElem (running_thread s) \<notin> linked (f(Ready \<mapsto> tl rs))"
    using d(3) linked_upd [OF base_invD(1) [OF d(1)] rs, of "tl rs"] list.set_sel(2) [of rs] linked_sub [of f, OF rs]
    by (cases rs) auto
  ultimately show ?thesis using schedule_next_inv [OF d(1)] rs unfolding y by (cases rs) auto
qed

subsection \<open>The operations keep the invariant\<close>

lemma sched_fields:
  "sched_inv X C s f \<Longrightarrow> sched_inv X C (s\<lparr>intr_level := i, rflags_if := j\<rparr>) f"
  "sched_inv X C s f \<Longrightarrow> sched_inv X C (s\<lparr>sema_value := v\<rparr>) f"
  "sched_inv X C s f \<Longrightarrow> sched_inv X C (s\<lparr>holder := hs\<rparr>) f"
  "sched_inv X C s f \<Longrightarrow> sched_inv X C (s\<lparr>rflags_if := j\<rparr>) f"
  using base_fields by (auto simp: sched_inv_def live_def)

lemma sched_push_frame:
  "sched_inv X C s f \<Longrightarrow> frame_ok X C (idle_thread s) t fr \<Longrightarrow> sched_inv X C (push_frame t fr s) f"
  by (auto simp: sched_inv_def base_push_frame) (simp_all add: push_frame_def live_def)

lemma sched_upd_live:
  assumes "sched_inv X C s f" "\<And>th. magic (g th) = magic th" "status (g (threads s t)) \<noteq> THRSTAT_DEAD"
  shows "sched_inv X C (upd_thread t g s) f"
  using base_upd_live [OF sched_invD(1) [OF assms(1)] assms(2,3)] assms
  by (auto simp: sched_inv_def upd_thread_def live_def)

text \<open>A live thread that waits nowhere becomes ready: it goes to the end of the ready list.\<close>

lemma thread_unblock_inv:
  fixes s :: "('a) kstate_scheme"
  assumes inv: "sched_inv X C s f" and t: "live s t" "StatusElem t \<notin> linked f" "t \<noteq> running_thread s"
    and rs: "f Ready = Some rs"
  shows "\<exists>s' f'. thread_unblock t s = Some s' \<and> sched_inv X C s' f' \<and>
    f' = (if t = idle_thread s then f else f(Ready \<mapsto> rs @ [StatusElem t])) \<and>
    status (threads s' t) = THRSTAT_READY \<and> sema_value s' = sema_value s \<and> intr_level s' = intr_level s \<and>
    running_thread s' = running_thread s \<and> idle_thread s' = idle_thread s \<and> frames s' = frames s"
proof -
  define d where "d = s\<lparr>intr_level := INTR_DISABLED, rflags_if := INTR_DISABLED\<rparr>"
  define out :: "('a) kstate_scheme \<Rightarrow> _" where "out = (\<lambda>r. set_interrupt_level (intr_level s) (upd_thread t (\<lambda>t. t\<lparr>status := THRSTAT_READY\<rparr>) r))"
  have d: "sched_inv X C d f" unfolding d_def by (rule sched_fields(1) [OF inv])
  have out: "sched_inv X C (out r) g" if "sched_inv X C r g" for r g
    using sched_fields(1) [OF sched_upd_live [OF that, of "\<lambda>t. t\<lparr>status := THRSTAT_READY\<rparr>" t]]
    by (simp add: out_def set_interrupt_level_def)
  show ?thesis
  proof (cases "t = idle_thread s")
    case True
    then have "thread_unblock t s = Some (out d)"
      by (simp add: thread_unblock_def disable_interrupts_def out_def d_def)
    then show ?thesis using out [OF d] True
      by (intro exI [of _ "out d"] exI [of _ f]) (simp add: out_def d_def upd_thread_def set_interrupt_level_def)
  next
    case False
    have live: "live d t" "StatusElem (running_thread s) \<notin> linked f"
      using t(1) sched_invD(3) [OF inv] by (simp_all add: d_def live_def)
    obtain h where h: "push_elem Ready (StatusElem t) d = Some (d\<lparr>lists := h\<rparr>)"
      "base_inv X C (d\<lparr>lists := h\<rparr>) (f(Ready \<mapsto> rs @ [StatusElem t]))"
      using base_push [OF sched_invD(1) [OF d] rs _ t(2) live(1)] by auto
    have "StatusElem (running_thread s) \<notin> linked (f(Ready \<mapsto> rs @ [StatusElem t]))"
      unfolding linked_upd [OF base_invD(1) [OF sched_invD(1) [OF inv]] rs]
      using live(2) t(3) linked_sub [of f, OF rs] by auto
    then have "sched_inv X C (d\<lparr>lists := h\<rparr>) (f(Ready \<mapsto> rs @ [StatusElem t]))"
      using h(2) sched_invD(2) [OF d] by (simp add: sched_inv_def d_def)
    note i = out [OF this]
    have "thread_unblock t s = Some (out (d\<lparr>lists := h\<rparr>))"
      using False h(1) by (simp add: thread_unblock_def disable_interrupts_def out_def d_def)
    then show ?thesis using i False
      by (intro exI [of _ "out (d\<lparr>lists := h\<rparr>)"] exI [of _ "f(Ready \<mapsto> rs @ [StatusElem t])"])
        (simp add: out_def d_def upd_thread_def set_interrupt_level_def)
  qed
qed

text \<open>
  \<^verbatim>\<open>semaphore_inc\<close> adds one and moves the thread that has waited longest to the end of the
  ready list.
\<close>

lemma semaphore_inc_inv:
  assumes inv: "sched_inv X C s f" and x: "f (Waiters x) = Some ws" and rs: "f Ready = Some rs"
  shows "\<exists>s' f'. semaphore_inc x s = Some s' \<and> sched_inv X C s' f' \<and>
    f' = (if ws = [] then f else f(Waiters x \<mapsto> tl ws, Ready \<mapsto> rs @ [hd ws])) \<and>
    sema_value s' = (sema_value s)(x := sema_value s x + 1) \<and>
    (\<forall>t. ws \<noteq> [] \<longrightarrow> hd ws = StatusElem t \<longrightarrow> status (threads s' t) = THRSTAT_READY) \<and> intr_level s' = intr_level s \<and>
    running_thread s' = running_thread s \<and> idle_thread s' = idle_thread s \<and> frames s' = frames s"
proof -
  let ?s = "s\<lparr>intr_level := INTR_DISABLED, rflags_if := INTR_DISABLED, sema_value := (sema_value s)(x := sema_value s x + 1)\<rparr>"
  have i: "sched_inv X C ?s f" using sched_fields(2) [OF sched_fields(1) [OF inv]] .
  note d = sched_invD [OF i]
  have emp: "list_empty (lists s) (Waiters x) \<longleftrightarrow> ws = []"
    using list_rep_empty [OF lists_repD [OF base_invD(1) [OF sched_invD(1) [OF inv]] x]] .
  show ?thesis
  proof (cases ws)
    case Nil
    have "sched_inv X C (set_interrupt_level (intr_level s) ?s) f"
      unfolding set_interrupt_level_def by (rule sched_fields(1) [OF i])
    with Nil emp show ?thesis
      by (intro exI [of _ "set_interrupt_level (intr_level s) ?s"] exI [of _ f])
        (simp add: semaphore_inc_def disable_interrupts_def, simp add: set_interrupt_level_def)
  next
    case (Cons e ws')
    obtain t h where t: "e = StatusElem t" "list_pop_front (lists ?s) (Waiters x) = Some (Elem e, h)" "live ?s t"
      "base_inv X C (?s\<lparr>lists := h\<rparr>) (f(Waiters x \<mapsto> ws'))" "StatusElem t \<notin> linked (f(Waiters x \<mapsto> ws'))"
      "linked (f(Waiters x \<mapsto> ws')) \<subseteq> linked f"
      using base_pop [OF d(1), of "Waiters x" e ws'] x Cons by auto
    have "StatusElem t \<in> linked f" using linked_sub [of f, OF x] Cons t(1) by auto
    then have nr: "t \<noteq> running_thread s" using sched_invD(3) [OF inv] by auto
    have "sched_inv X C (?s\<lparr>lists := h\<rparr>) (f(Waiters x \<mapsto> ws'))"
      using t(4,6) d(2,3) by (auto simp: sched_inv_def)
    then obtain s' f' where s': "thread_unblock t (?s\<lparr>lists := h\<rparr>) = Some s'" "sched_inv X C s' f'"
      "f' = (if t = idle_thread s then f(Waiters x \<mapsto> ws') else f(Waiters x \<mapsto> ws', Ready \<mapsto> rs @ [StatusElem t]))"
      "status (threads s' t) = THRSTAT_READY" "sema_value s' = sema_value ?s" "running_thread s' = running_thread s"
      "idle_thread s' = idle_thread s" "frames s' = frames s"
      using thread_unblock_inv [of X C "?s\<lparr>lists := h\<rparr>" "f(Waiters x \<mapsto> ws')" t rs] t(3,5) nr rs by auto
    have "t \<noteq> idle_thread s"
    proof
      assume "t = idle_thread s"
      then have "StatusElem (idle_thread s) \<in> set ws" using Cons t(1) by simp
      then have "Waiters x = Ready" using sched_invD(1) [OF inv] x unfolding base_inv_def by blast
      then show False by simp
    qed
    moreover have "semaphore_inc x s = Some (set_interrupt_level (intr_level s) s')"
      using s'(1) t(1,2) Cons emp by (simp add: semaphore_inc_def disable_interrupts_def)
    moreover have "sched_inv X C (set_interrupt_level (intr_level s) s') f'"
      unfolding set_interrupt_level_def by (rule sched_fields(1) [OF s'(2)])
    ultimately show ?thesis using s' Cons t(1)
      by (intro exI [of _ "set_interrupt_level (intr_level s) s'"] exI [of _ f']) (simp add: set_interrupt_level_def)
  qed
qed

lemma sema_dec_loop_inv:
  assumes inv: "sched_inv X C s f" and x: "x \<in> X" and ni: "running_thread s \<noteq> idle_thread s"
  shows "\<exists>s' f'. sema_dec_loop x v old s = Some s' \<and> sched_inv X C s' f'"
proof (cases "v = 0")
  case False
  then show ?thesis using sched_fields(1) [OF sched_fields(2) [OF inv]]
    by (auto simp: sema_dec_loop_def set_interrupt_level_def)
next
  case True
  note d = sched_invD [OF inv]
  obtain ws where ws: "f (Waiters x) = Some ws" using base_invD(3) [OF d(1) x] by blast
  obtain h where h: "push_elem (Waiters x) (StatusElem (running_thread s)) s = Some (s\<lparr>lists := h\<rparr>)"
    "base_inv X C (s\<lparr>lists := h\<rparr>) (f(Waiters x \<mapsto> ws @ [StatusElem (running_thread s)]))"
    using base_push [OF d(1) ws _ d(3,2)] ni by auto
  have "base_inv X C (push_frame (running_thread s) (SemaLoop x v old) (s\<lparr>lists := h\<rparr>))
      (f(Waiters x \<mapsto> ws @ [StatusElem (running_thread s)]))"
    by (rule base_push_frame [OF h(2)]) (simp add: x ni)
  from block_current_inv [OF this] show ?thesis
    using True h(1) by (auto simp: sema_dec_loop_def get_current_thread_def)
qed

lemma semaphore_dec_inv:
  assumes "sched_inv X C s f" "x \<in> X" "running_thread s \<noteq> idle_thread s"
  shows "\<exists>s' f'. semaphore_dec x s = Some s' \<and> sched_inv X C s' f'"
  using sema_dec_loop_inv [OF sched_fields(1) [OF assms(1)] assms(2)] assms(3)
  by (simp add: semaphore_dec_def disable_interrupts_def)

lemma lock_acquire_inv:
  assumes "sched_inv X C s f" "LockSema l \<in> X" "running_thread s \<noteq> idle_thread s"
  shows "\<exists>s' f'. lock_acquire l s = Some s' \<and> sched_inv X C s' f'"
  using semaphore_dec_inv [OF sched_push_frame [OF assms(1), of "running_thread s" "LockHold l"] assms(2)] assms(3)
  by (simp add: lock_acquire_def get_current_thread_def push_frame_def)

lemma lock_release_inv:
  assumes inv: "sched_inv X C s f" and l: "LockSema l \<in> X"
  shows "\<exists>s' f'. lock_release l s = Some s' \<and> sched_inv X C s' f' \<and> running_thread s' = running_thread s \<and>
    idle_thread s' = idle_thread s \<and> frames s' = frames s \<and> (\<forall>c. f' (CondWaiters c) = f (CondWaiters c))"
proof -
  note d = base_invD [OF sched_invD(1) [OF inv]]
  obtain ws rs where "f (Waiters (LockSema l)) = Some ws" "f Ready = Some rs" using d(2) d(3) [OF l] by blast
  from semaphore_inc_inv [OF sched_fields(3) [OF inv] this, of "(holder s)(l := 0)"]
  obtain s' f' where "semaphore_inc (LockSema l) (s\<lparr>holder := (holder s)(l := 0)\<rparr>) = Some s'" "sched_inv X C s' f'"
    "f' = (if ws = [] then f else f(Waiters (LockSema l) \<mapsto> tl ws, Ready \<mapsto> rs @ [hd ws]))"
    "running_thread s' = running_thread s" "idle_thread s' = idle_thread s" "frames s' = frames s" by auto
  then show ?thesis by (intro exI [of _ s'] exI [of _ f']) (simp add: lock_release_def)
qed

lemma condvar_wait_inv:
  assumes inv: "sched_inv X C s f" and l: "LockSema l \<in> X" "c \<in> C" and ni: "running_thread s \<noteq> idle_thread s"
  shows "\<exists>s' f'. condvar_wait c l s = Some s' \<and> sched_inv X C s' f'"
proof -
  obtain s1 f1 where s1: "lock_release l s = Some s1" "sched_inv X C s1 f1" "running_thread s1 = running_thread s"
    "idle_thread s1 = idle_thread s" using lock_release_inv [OF inv l(1)] by blast
  note d = sched_invD [OF s1(2)]
  obtain ws where ws: "f1 (CondWaiters c) = Some ws" using base_invD(4) [OF d(1) l(2)] by blast
  obtain h where h: "push_elem (CondWaiters c) (StatusElem (running_thread s1)) s1 = Some (s1\<lparr>lists := h\<rparr>)"
    "base_inv X C (s1\<lparr>lists := h\<rparr>) (f1(CondWaiters c \<mapsto> ws @ [StatusElem (running_thread s1)]))"
    using base_push [OF d(1) ws _ d(3,2)] ni s1(3,4) by auto
  have "base_inv X C (push_frame (running_thread s1) (Reacquire l) (s1\<lparr>lists := h\<rparr>))
      (f1(CondWaiters c \<mapsto> ws @ [StatusElem (running_thread s1)]))"
    by (rule base_push_frame [OF h(2)]) (simp add: l ni s1(3,4))
  from block_current_inv [OF this] show ?thesis
    using s1(1) h(1) by (auto simp: condvar_wait_def get_current_thread_def)
qed

lemma condvar_signal_one_inv:
  assumes inv: "sched_inv X C s f" and l: "LockSema l \<in> X" and ni: "running_thread s \<noteq> idle_thread s"
    and ws: "f (CondWaiters c) = Some (e # ws)"
  shows "\<exists>s' f'. condvar_signal_one c l s = Some s' \<and> sched_inv X C s' f'"
proof -
  obtain s1 f1 where s1: "lock_release l s = Some s1" "sched_inv X C s1 f1" "running_thread s1 = running_thread s"
    "idle_thread s1 = idle_thread s" "f1 (CondWaiters c) = Some (e # ws)"
    using lock_release_inv [OF inv l(1)] ws by auto
  note d = sched_invD [OF s1(2)]
  obtain t h where t: "e = StatusElem t" "list_pop_front (lists s1) (CondWaiters c) = Some (Elem e, h)" "live s1 t"
    "base_inv X C (s1\<lparr>lists := h\<rparr>) (f1(CondWaiters c \<mapsto> ws))" "StatusElem t \<notin> linked (f1(CondWaiters c \<mapsto> ws))"
    "linked (f1(CondWaiters c \<mapsto> ws)) \<subseteq> linked f1"
    using base_pop [OF d(1) s1(5)] by auto
  obtain rs where rs: "f1 Ready = Some rs" using base_invD(2) [OF d(1)] by blast
  have "StatusElem t \<in> linked f1" using linked_sub [of f1, OF s1(5)] t(1) by auto
  then have nr: "t \<noteq> running_thread s1" using d(3) by auto
  obtain h2 where h2: "push_elem Ready (StatusElem t) (s1\<lparr>lists := h\<rparr>) = Some (s1\<lparr>lists := h2\<rparr>)"
    "base_inv X C (s1\<lparr>lists := h2\<rparr>) (f1(CondWaiters c \<mapsto> ws, Ready \<mapsto> rs @ [StatusElem t]))"
    using base_push [OF t(4), of Ready rs t] rs t(3,5) by auto
  then have push: "list_push_back h Ready (Elem e) = Some h2"
    using t(1) by (auto simp: push_elem_def split: bind_splits dest: arg_cong [where f = lists])
  have "(f1(CondWaiters c \<mapsto> ws)) Ready = Some rs" using rs by simp
  note upd = linked_upd [OF base_invD(1) [OF t(4)] this, of "rs @ [StatusElem t]"]
  have "StatusElem (running_thread s1) \<notin> linked (f1(CondWaiters c \<mapsto> ws, Ready \<mapsto> rs @ [StatusElem t]))"
    unfolding upd using d(3) nr t(6) linked_sub [of f1, OF rs] by (auto simp del: fun_upd_apply)
  then have "sched_inv X C (s1\<lparr>lists := h2\<rparr>) (f1(CondWaiters c \<mapsto> ws, Ready \<mapsto> rs @ [StatusElem t]))"
    using h2(2) d(2) by (simp add: sched_inv_def)
  from lock_acquire_inv [OF this l] show ?thesis
    using s1 t(2) push ni by (simp add: condvar_signal_one_def)
qed

lemma condvar_signal_all_inv:
  assumes inv: "sched_inv X C s f" and l: "LockSema l \<in> X" "c \<in> C" and ni: "running_thread s \<noteq> idle_thread s"
  shows "\<exists>s' f'. condvar_signal_all c l s = Some s' \<and> sched_inv X C s' f'"
proof -
  note d = sched_invD [OF inv]
  obtain ws where ws: "f (CondWaiters c) = Some ws" using base_invD(4) [OF d(1) l(2)] by blast
  note emp = list_rep_empty [OF lists_repD [OF base_invD(1) [OF d(1)] ws]]
  show ?thesis
  proof (cases ws)
    case Nil
    with inv emp show ?thesis by (auto simp: condvar_signal_all_def)
  next
    case (Cons e ws')
    have "sched_inv X C (push_frame (running_thread s) (SignalLoop c l) s) f"
      by (rule sched_push_frame [OF inv]) (simp add: l ni)
    from condvar_signal_one_inv [OF this l(1), of c e ws'] show ?thesis
      using ws Cons emp ni by (simp add: condvar_signal_all_def get_current_thread_def push_frame_def)
  qed
qed

lemma linked_live:
  assumes "base_inv X C s f" "StatusElem t \<in> linked f"
  shows "live s t"
proof -
  obtain l xs where l: "f l = Some xs" "StatusElem t \<in> set xs" using assms(2) by (auto simp: linked_iff)
  have "if queue l then set xs \<subseteq> StatusElem ` Collect (live s) else range StatusElem \<inter> set xs = {}"
    using assms(1) l(1) unfolding base_inv_def by blast
  with l(2) show ?thesis by (auto split: if_splits)
qed

lemma queue_mono:
  "(if queue l then set xs \<subseteq> A else range StatusElem \<inter> set xs = {}) \<Longrightarrow> A \<subseteq> B \<Longrightarrow> (if queue l then set xs \<subseteq> B else range StatusElem \<inter> set xs = {})"
  by (auto split: if_splits)

lemma base_invI:
  assumes "lists_rep (lists s) f" "\<exists>rs. f Ready = Some rs" "\<And>x. x \<in> X \<Longrightarrow> \<exists>xs. f (Waiters x) = Some xs"
    and "\<And>c. c \<in> C \<Longrightarrow> \<exists>xs. f (CondWaiters c) = Some xs"
    and "\<And>l xs. f l = Some xs \<Longrightarrow> if queue l then set xs \<subseteq> StatusElem ` Collect (live s) else range StatusElem \<inter> set xs = {}"
    and "\<And>l xs. f l = Some xs \<Longrightarrow> StatusElem (idle_thread s) \<in> set xs \<Longrightarrow> l = Ready"
    and "\<And>t. magic (threads s t) \<noteq> KTHREAD_MAGIK \<Longrightarrow> f (Donors t) = None \<and> f (Waiters (SleepSema t)) = None"
    and "live s (idle_thread s)" "\<And>t fr. fr \<in> set (frames s t) \<Longrightarrow> frame_ok X C (idle_thread s) t fr" "freed s = {}"
  shows "base_inv X C s f"
  unfolding base_inv_def
proof (intro conjI allI ballI impI)
  show "if queue l then set xs \<subseteq> StatusElem ` Collect (live s) else range StatusElem \<inter> set xs = {}" if "f l = Some xs" for l xs
    using assms(5) that .
qed (use assms in auto)

text \<open>The state \<^verbatim>\<open>create_thread\<close> has built when it makes the thread ready.\<close>

definition new_thread :: "thr \<Rightarrow> u64 \<Rightarrow> u64 \<Rightarrow> ('a) kstate_scheme \<Rightarrow> ('a) kstate_scheme" where
  "new_thread t f a s = s\<lparr>next_tid := next_tid s + 1, sema_value := (sema_value s)(SleepSema t := 0),
     lists := list_init (list_init (lists s) (Donors t)) (Waiters (SleepSema t)),
     frames := (frames s)(t := [StartThread]),
     threads := (threads s)(t := \<lparr>id_of = next_tid s, status = THRSTAT_BLOCKED, sleep_end = - 1,
       priority = PRI_DEFAULT, entry = f, aux = a, magic = KTHREAD_MAGIK\<rparr>)\<rparr>"

lemma create_thread_new: "create_thread (\<lambda>_ s. s) t f a s = thread_unblock t (new_thread t f a s)"
  by (simp add: create_thread_def new_thread_def thread_init_def upd_thread_def zero_thread_def assign_id_def
      semaphore_init_def Let_def)

lemma new_thread_inv:
  assumes inv: "sched_inv X C s f" and t: "t \<noteq> 0" "magic (threads s t) \<noteq> KTHREAD_MAGIK"
  shows "sched_inv X C (new_thread t fn a s) (f(Donors t \<mapsto> [], Waiters (SleepSema t) \<mapsto> []))"
proof -
  note d = sched_invD [OF inv]
  let ?s = "new_thread t fn a s" and ?f = "f(Donors t \<mapsto> [], Waiters (SleepSema t) \<mapsto> [])"
  have free: "f (Donors t) = None" "f (Waiters (SleepSema t)) = None"
    using d(1) t(2) unfolding base_inv_def by blast+
  have live: "live ?s u" if "live s u" for u using that t by (auto simp: live_def new_thread_def)
  have same: "idle_thread ?s = idle_thread s" "running_thread ?s = running_thread s" "freed ?s = freed s"
    by (simp_all add: new_thread_def)
  have "base_inv X C ?s ?f"
  proof (rule base_invI, unfold same)
    show "lists_rep (lists ?s) ?f"
    using lists_init [OF lists_init [OF base_invD(1) [OF d(1)] free(1)], of "Waiters (SleepSema t)"] free(2)
    by (simp add: new_thread_def)
    show "if queue l then set xs \<subseteq> StatusElem ` Collect (live ?s) else range StatusElem \<inter> set xs = {}" if "?f l = Some xs" for l xs
  proof -
    have "StatusElem ` Collect (live s) \<subseteq> StatusElem ` Collect (live ?s)" using live by blast
    moreover have "if queue l then set xs \<subseteq> StatusElem ` Collect (live s) else range StatusElem \<inter> set xs = {}" if "f l = Some xs"
      using d(1) that unfolding base_inv_def by blast
    ultimately have "if queue l then set xs \<subseteq> StatusElem ` Collect (live ?s) else range StatusElem \<inter> set xs = {}" if "f l = Some xs"
      using queue_mono that by blast
    moreover have "xs = [] \<or> f l = Some xs" using that by (auto split: if_splits)
    ultimately show ?thesis by (cases "xs = []") auto
  qed
    show "l = Ready" if "?f l = Some xs" "StatusElem (idle_thread s) \<in> set xs" for l xs
  proof -
    have "f l = Some xs" using that by (auto split: if_splits)
    with that(2) d(1) show ?thesis unfolding base_inv_def by blast
  qed
    show "?f (Donors u) = None \<and> ?f (Waiters (SleepSema u)) = None" if "magic (threads ?s u) \<noteq> KTHREAD_MAGIK" for u
  proof -
    have "u \<noteq> t" "magic (threads s u) \<noteq> KTHREAD_MAGIK" using that by (auto simp: new_thread_def split: if_splits)
    with d(1) show ?thesis unfolding base_inv_def by auto
  qed
    show "frame_ok X C (idle_thread s) u fr" if "fr \<in> set (frames ?s u)" for u fr
    using that base_invD(7) [OF d(1)] by (auto simp: new_thread_def split: if_splits)
    show "\<exists>xs. ?f (Waiters x) = Some xs" if "x \<in> X" for x using base_invD(3) [OF d(1) that] by auto
    show "\<exists>xs. ?f (CondWaiters c) = Some xs" if "c \<in> C" for c using base_invD(4) [OF d(1) that] by auto
    show "\<exists>xs. ?f Ready = Some xs" using base_invD(2) [OF d(1)] by auto
    show "freed s = {}" using d(1) by (simp add: base_inv_def)
    show "live ?s (idle_thread s)" using live [OF base_invD(6) [OF d(1)]] .
  qed
  moreover have "StatusElem (running_thread s) \<notin> linked ?f"
    using d(3) by (auto simp: linked_iff split: if_splits)
  ultimately show ?thesis using live [OF d(2)] by (simp add: sched_inv_def same)
qed

lemma create_thread_inv:
  assumes inv: "sched_inv X C s f" and t: "t \<noteq> 0" "magic (threads s t) \<noteq> KTHREAD_MAGIK"
  shows "\<exists>s' f'. create_thread (\<lambda>_ s. s) t fn a s = Some s' \<and> sched_inv X C s' f'"
proof -
  note i = new_thread_inv [OF inv t, of fn a]
  obtain rs where rs: "f Ready = Some rs" using base_invD(2) [OF sched_invD(1) [OF inv]] by blast
  have nl: "\<not> live s t" using t(2) by (simp add: live_def)
  then have "StatusElem t \<notin> linked (f(Donors t \<mapsto> [], Waiters (SleepSema t) \<mapsto> []))"
    using linked_live [OF sched_invD(1) [OF inv], of t] by (auto simp: linked_iff split: if_splits)
  moreover have "live (new_thread t fn a s) t" using t by (simp add: live_def new_thread_def)
  moreover have "t \<noteq> running_thread (new_thread t fn a s)"
    using nl sched_invD(2) [OF inv] by (auto simp: new_thread_def)
  moreover have "(f(Donors t \<mapsto> [], Waiters (SleepSema t) \<mapsto> [])) Ready = Some rs" using rs by simp
  ultimately show ?thesis
    using thread_unblock_inv [OF i] unfolding create_thread_new by blast
qed

lemma exit_thread_inv:
  assumes inv: "sched_inv X C s f" and ni: "running_thread s \<noteq> idle_thread s"
  shows "\<exists>s' f'. exit_thread s = Some s' \<and> sched_inv X C s' f'"
proof -
  note d = sched_invD [OF inv]
  let ?s = "upd_thread (running_thread s) (\<lambda>t. t\<lparr>status := THRSTAT_DEAD\<rparr>) (s\<lparr>intr_level := INTR_DISABLED, rflags_if := INTR_DISABLED\<rparr>)"
  have live: "live ?s u \<longleftrightarrow> live s u \<and> u \<noteq> running_thread s" for u
    by (auto simp: live_def upd_thread_def)
  have "if queue l then set xs \<subseteq> StatusElem ` Collect (live ?s) else range StatusElem \<inter> set xs = {}" if "f l = Some xs" for l xs
  proof -
    have "if queue l then set xs \<subseteq> StatusElem ` Collect (live s) else range StatusElem \<inter> set xs = {}"
      using d(1) that unfolding base_inv_def by blast
    moreover have "StatusElem (running_thread s) \<notin> set xs" using linked_sub [of f, OF that] d(3) by blast
    ultimately show ?thesis using live by (fastforce split: if_splits)
  qed
  moreover have "live ?s (idle_thread s)" using live base_invD(6) [OF d(1)] ni by simp
  moreover have "magic (threads ?s u) = magic (threads s u)" for u by (simp add: upd_thread_def)
  moreover have same: "lists ?s = lists s" "frames ?s = frames s" "freed ?s = freed s" "idle_thread ?s = idle_thread s"
    by (simp_all add: upd_thread_def)
  ultimately have "base_inv X C ?s f"
    using d(1) unfolding base_inv_def same by simp
  from schedule_next_inv [OF this] show ?thesis
    by (auto simp: exit_thread_def disable_interrupts_def get_current_thread_def)
qed

subsection \<open>Steps keep the invariant\<close>

text \<open>
  The calls that respect the protocol: only initialised objects are used, the idle thread
  neither waits nor exits, a signal finds a waiter, a new thread has a fresh address, and the
  raw \<^verbatim>\<open>block\<close> and \<^verbatim>\<open>unblock\<close> are left to the primitives.
\<close>

fun polite :: "sema_id set \<Rightarrow> u64 set \<Rightarrow> ('a) kstate_scheme \<Rightarrow> kcall \<Rightarrow> bool" where
  "polite X C s Yield = True"
| "polite X C s (SetPriority p) = True"
| "polite X C s Exit = (running_thread s \<noteq> idle_thread s)"
| "polite X C s (SemaInc x) = (x \<in> X)"
| "polite X C s (SemaDec x) = (x \<in> X \<and> running_thread s \<noteq> idle_thread s)"
| "polite X C s (LockAcquire l) = (LockSema l \<in> X \<and> running_thread s \<noteq> idle_thread s)"
| "polite X C s (LockRelease l) = (LockSema l \<in> X)"
| "polite X C s (CondWait c l) = (c \<in> C \<and> LockSema l \<in> X \<and> running_thread s \<noteq> idle_thread s)"
| "polite X C s (SignalOne c l) = (c \<in> C \<and> LockSema l \<in> X \<and> running_thread s \<noteq> idle_thread s \<and>
     \<not> list_empty (lists s) (CondWaiters c))"
| "polite X C s (SignalAll c l) = (c \<in> C \<and> LockSema l \<in> X \<and> running_thread s \<noteq> idle_thread s)"
| "polite X C s (CreateThread t f a) = (t \<noteq> 0 \<and> magic (threads s t) \<noteq> KTHREAD_MAGIK)"
| "polite X C s _ = False"

lemma kernel_call_inv:
  assumes inv: "sched_inv X C s f" and ok: "polite X C s c"
  shows "\<exists>s' f'. kernel_call c s = Some s' \<and> sched_inv X C s' f'"
proof (cases c)
  case Yield
  obtain rs where rs: "f Ready = Some rs" using base_invD(2) [OF sched_invD(1) [OF inv]] by blast
  show ?thesis
  proof (cases "status (threads s (running_thread s)) = THRSTAT_BLOCKED")
    case True
    then show ?thesis
      using schedule_next_inv [OF sched_invD(1) [OF inv]] Yield by (auto simp: yield_current_def get_current_thread_def)
  next
    case False
    from yield_current_inv [OF inv this rs] Yield show ?thesis by auto
  qed
next
  case (SetPriority p)
  have "sched_inv X C (set_current_priority p s) f"
    unfolding set_current_priority_def get_current_thread_def
    by (rule sched_upd_live [OF inv]) (use sched_invD(2) [OF inv] in \<open>simp_all add: live_def\<close>)
  with SetPriority show ?thesis by auto
next
  case (SemaInc x)
  obtain ws rs where "f (Waiters x) = Some ws" "f Ready = Some rs"
    using base_invD(2,3) [OF sched_invD(1) [OF inv]] ok SemaInc by fastforce
  from semaphore_inc_inv [OF inv this] SemaInc show ?thesis by auto
next
  case (LockRelease l)
  with lock_release_inv [OF inv, of l] ok show ?thesis by auto
next
  case (SignalOne c l)
  obtain ws where ws: "f (CondWaiters c) = Some ws"
    using base_invD(4) [OF sched_invD(1) [OF inv]] ok SignalOne by fastforce
  note emp = list_rep_empty [OF lists_repD [OF base_invD(1) [OF sched_invD(1) [OF inv]] ws]]
  from emp ok SignalOne obtain e ws' where "ws = e # ws'" by (cases ws) auto
  with condvar_signal_one_inv [OF inv, of l c e ws'] ws ok SignalOne show ?thesis by auto
qed (use ok exit_thread_inv [OF inv] semaphore_dec_inv [OF inv] lock_acquire_inv [OF inv] condvar_wait_inv [OF inv]
    condvar_signal_all_inv [OF inv] create_thread_inv [OF inv] in auto)

lemma run_frame_inv:
  assumes inv: "sched_inv X C s f" and fr: "frame_ok X C (idle_thread s) (running_thread s) fr"
  shows "\<exists>s' f'. run_frame fr s = Some s' \<and> sched_inv X C s' f'"
proof (cases fr)
  case (AfterSwitch p i)
  then have p: "p = running_thread s" using fr by simp
  then have "status (threads s p) \<noteq> THRSTAT_DEAD" using sched_invD(2) [OF inv] by (simp add: live_def)
  with AfterSwitch sched_fields(4) [OF inv] show ?thesis by auto
next
  case StartThread
  with sched_fields(1) [OF inv] show ?thesis by (auto simp: set_interrupt_level_def)
next
  case (LockHold l)
  with sched_fields(3) [OF inv] show ?thesis by auto
next
  case (SemaLoop x v old)
  with fr sema_dec_loop_inv [OF inv, of x v old] show ?thesis by auto
next
  case (Reacquire l)
  with fr lock_acquire_inv [OF inv, of l] show ?thesis by auto
next
  case (SignalLoop c l)
  with fr condvar_signal_all_inv [OF inv, of l c] show ?thesis by auto
qed

lemma sched_pop_frame:
  assumes "sched_inv X C s f" "frames s (running_thread s) = fr # rest"
  shows "sched_inv X C (s\<lparr>frames := (frames s)(running_thread s := rest)\<rparr>) f"
proof -
  note d = sched_invD [OF assms(1)]
  have "base_inv X C (s\<lparr>frames := (frames s)(running_thread s := rest)\<rparr>) f"
    by (rule base_mono [OF d(1)])
      (use base_invD(7) [OF d(1)] assms(2) base_invD(1) [OF d(1)] d(1) in \<open>auto simp: live_def base_inv_def split: if_splits\<close>)
  with d(2,3) show ?thesis by (simp add: sched_inv_def live_def)
qed

lemma step_inv:
  assumes "step (polite X C) s s'" "sched_inv X C s f"
  shows "\<exists>f'. sched_inv X C s' f'"
  using assms(1)
proof (rule stepE)
  fix fr rest
  assume r: "frames s (running_thread s) = fr # rest"
    "run_frame fr (s\<lparr>frames := (frames s)(running_thread s := rest)\<rparr>) = Some s'"
  have "frame_ok X C (idle_thread s) (running_thread s) fr"
    using base_invD(7) [OF sched_invD(1) [OF assms(2)]] r(1) by (metis list.set_intros(1))
  with run_frame_inv [OF sched_pop_frame [OF assms(2) r(1)], of fr] r(2) show ?thesis by auto
next
  fix c
  assume "polite X C s c" "kernel_call c s = Some s'"
  with kernel_call_inv [OF assms(2), of c] show ?thesis by auto
qed

text \<open>No protocol-respecting step faults: an activation can always be finished.\<close>

lemma step_progress:
  assumes inv: "sched_inv X C s f"
  shows "(frames s (running_thread s) \<noteq> [] \<longrightarrow> (\<exists>s'. step ok s s')) \<and>
    (\<forall>c. frames s (running_thread s) = [] \<longrightarrow> ok s c \<longrightarrow> polite X C s c \<longrightarrow> (\<exists>s'. step ok s s' \<and> kernel_call c s = Some s'))"
proof (intro conjI allI impI)
  assume "frames s (running_thread s) \<noteq> []"
  then obtain fr rest where fr: "frames s (running_thread s) = fr # rest" by (cases "frames s (running_thread s)") auto
  have "frame_ok X C (idle_thread s) (running_thread s) fr"
    using base_invD(7) [OF sched_invD(1) [OF inv]] fr by (metis list.set_intros(1))
  with run_frame_inv [OF sched_pop_frame [OF inv fr], of fr] show "\<exists>s'. step ok s s'"
    using resume [OF fr] by auto
next
  fix c assume c: "frames s (running_thread s) = []" "ok s c" "polite X C s c"
  obtain s' where "kernel_call c s = Some s'" using kernel_call_inv [OF inv c(3)] by blast
  with call [OF c(1), of ok, OF c(2)] show "\<exists>s'. step ok s s' \<and> kernel_call c s = Some s'" by blast
qed

subsection \<open>Start\<close>

definition boot_state :: "('a) kstate_scheme \<Rightarrow> bool" where
  "boot_state s \<longleftrightarrow> frames s = (\<lambda>_. []) \<and> freed s = {} \<and> (\<forall>t. magic (threads s t) \<noteq> KTHREAD_MAGIK)"

lemma init_threads_inv:
  assumes boot: "boot_state s" and addr: "b \<noteq> 0" "i \<noteq> 0" "b \<noteq> i"
  shows "\<exists>s'. init_threads b i fi s = Some s' \<and>
    sched_inv {} {} s' [Ready \<mapsto> [], Donors b \<mapsto> [], Waiters (SleepSema b) \<mapsto> [], Donors i \<mapsto> [], Waiters (SleepSema i) \<mapsto> []] \<and>
    running_thread s' = b \<and> idle_thread s' = i \<and> frames s' = (\<lambda>_. [])(i := [StartThread]) \<and>
    status (threads s' b) = THRSTAT_BLOCKED"
proof -
  let ?L = "list_init (list_init (list_init (list_init (list_init (lists s) Ready) (Donors b)) (Waiters (SleepSema b)))
      (Donors i)) (Waiters (SleepSema i))"
  let ?f = "[Ready \<mapsto> [], Donors b \<mapsto> [], Waiters (SleepSema b) \<mapsto> [], Donors i \<mapsto> [], Waiters (SleepSema i) \<mapsto> []]"
  obtain s' where s': "init_threads b i fi s = Some s'" "lists s' = ?L" "running_thread s' = b" "idle_thread s' = i"
    "frames s' = (\<lambda>_. [])(i := [StartThread])" "freed s' = {}"
    "\<And>t. magic (threads s' t) = (if t = b \<or> t = i then KTHREAD_MAGIK else magic (threads s t))"
    "status (threads s' b) = THRSTAT_BLOCKED" "status (threads s' i) = THRSTAT_READY"
    using boot addr
    by (simp add: init_threads_def create_thread_def thread_init_def upd_thread_def zero_thread_def assign_id_def
        semaphore_init_def thread_unblock_def disable_interrupts_def set_interrupt_level_def boot_state_def Let_def)
  have e: "?f l = Some xs \<Longrightarrow> xs = []" for l xs by (simp split: if_splits)
  have nl: "linked ?f = {}"
  proof (rule equals0I)
    fix x assume "x \<in> linked ?f"
    then obtain l xs where l: "?f l = Some xs" "x \<in> set xs" unfolding linked_iff by blast
    from e [OF l(1)] l(2) show False by simp
  qed
  have live: "live s' b" "live s' i" using s'(7-9) addr by (simp_all add: live_def)
  have "base_inv {} {} s' ?f"
  proof (rule base_invI)
    show "lists_rep (lists s') ?f"
      unfolding s'(2) using addr(3) by (intro lists_init) (simp_all add: lists_rep_def)
    show "if queue l then set xs \<subseteq> StatusElem ` Collect (live s') else range StatusElem \<inter> set xs = {}" if "?f l = Some xs" for l xs
      using e [OF that] by simp
    show "l = Ready" if "?f l = Some xs" "StatusElem (idle_thread s') \<in> set xs" for l xs
      using e [OF that(1)] that(2) by simp
    show "?f (Donors t) = None \<and> ?f (Waiters (SleepSema t)) = None" if "magic (threads s' t) \<noteq> KTHREAD_MAGIK" for t
      using that s'(7) by (auto split: if_splits)
    show "frame_ok {} {} (idle_thread s') t fr" if "fr \<in> set (frames s' t)" for t fr
      using that unfolding s'(5) by (simp split: if_splits)
    show "live s' (idle_thread s')" unfolding s'(4) by (rule live(2))
    show "freed s' = {}" by (rule s'(6))
  qed simp_all
  then have "sched_inv {} {} s' ?f" unfolding sched_inv_def s'(3) nl using live(1) by simp
  with s' show ?thesis by (intro exI [of _ s']) simp
qed

lemma semaphore_init_inv:
  assumes inv: "sched_inv X C s f" and x: "f (Waiters x) = None" "\<And>t. x \<noteq> SleepSema t"
  shows "sched_inv (insert x X) C (semaphore_init x v s) (f(Waiters x \<mapsto> []))"
proof -
  note d = sched_invD [OF inv]
  let ?s = "semaphore_init x v s"
  have same: "idle_thread ?s = idle_thread s" "running_thread ?s = running_thread s" "freed ?s = freed s"
    "frames ?s = frames s" "threads ?s = threads s" "live ?s = live s"
    by (simp_all add: semaphore_init_def live_def fun_eq_iff)
  have mono: "frame_ok X C i t fr \<Longrightarrow> frame_ok (insert x X) C i t fr" for i t fr by (cases fr) auto
  have "base_inv (insert x X) C ?s (f(Waiters x \<mapsto> []))"
  proof (rule base_invI, unfold same)
    show "lists_rep (lists ?s) (f(Waiters x \<mapsto> []))"
      using lists_init [OF base_invD(1) [OF d(1)] x(1)] by (simp add: semaphore_init_def)
    show "if queue l then set xs \<subseteq> StatusElem ` Collect (live s) else range StatusElem \<inter> set xs = {}"
      if "(f(Waiters x \<mapsto> [])) l = Some xs" for l xs
      using d(1) that unfolding base_inv_def by (cases "l = Waiters x") auto
    show "l = Ready" if "(f(Waiters x \<mapsto> [])) l = Some xs" "StatusElem (idle_thread s) \<in> set xs" for l xs
    proof -
      have "f l = Some xs" using that by (auto split: if_splits)
      with that(2) d(1) show ?thesis unfolding base_inv_def by blast
    qed
    show "(f(Waiters x \<mapsto> [])) (Donors t) = None \<and> (f(Waiters x \<mapsto> [])) (Waiters (SleepSema t)) = None"
      if "magic (threads s t) \<noteq> KTHREAD_MAGIK" for t
      using d(1) that x(2) [of t] unfolding base_inv_def by auto
  qed (use d(1) base_invD [OF d(1)] mono in \<open>auto simp: base_inv_def\<close>)
  moreover have "StatusElem (running_thread s) \<notin> linked (f(Waiters x \<mapsto> []))"
    using d(3) by (auto simp: linked_iff split: if_splits)
  ultimately show ?thesis using d(2) by (simp add: sched_inv_def same)
qed

lemma condvar_init_inv:
  assumes inv: "sched_inv X C s f" and c: "f (CondWaiters c) = None"
  shows "sched_inv X (insert c C) (condvar_init c s) (f(CondWaiters c \<mapsto> []))"
proof -
  note d = sched_invD [OF inv]
  let ?s = "condvar_init c s"
  have same: "idle_thread ?s = idle_thread s" "running_thread ?s = running_thread s" "freed ?s = freed s"
    "frames ?s = frames s" "threads ?s = threads s" "live ?s = live s"
    by (simp_all add: condvar_init_def live_def fun_eq_iff)
  have mono: "frame_ok X C i t fr \<Longrightarrow> frame_ok X (insert c C) i t fr" for i t fr by (cases fr) auto
  have "base_inv X (insert c C) ?s (f(CondWaiters c \<mapsto> []))"
  proof (rule base_invI, unfold same)
    show "lists_rep (lists ?s) (f(CondWaiters c \<mapsto> []))"
      using lists_init [OF base_invD(1) [OF d(1)] c] by (simp add: condvar_init_def)
    show "if queue l then set xs \<subseteq> StatusElem ` Collect (live s) else range StatusElem \<inter> set xs = {}"
      if "(f(CondWaiters c \<mapsto> [])) l = Some xs" for l xs
      using d(1) that unfolding base_inv_def by (cases "l = CondWaiters c") auto
    show "l = Ready" if "(f(CondWaiters c \<mapsto> [])) l = Some xs" "StatusElem (idle_thread s) \<in> set xs" for l xs
    proof -
      have "f l = Some xs" using that by (auto split: if_splits)
      with that(2) d(1) show ?thesis unfolding base_inv_def by blast
    qed
    show "(f(CondWaiters c \<mapsto> [])) (Donors t) = None \<and> (f(CondWaiters c \<mapsto> [])) (Waiters (SleepSema t)) = None"
      if "magic (threads s t) \<noteq> KTHREAD_MAGIK" for t
      using d(1) that unfolding base_inv_def by auto
  qed (use d(1) base_invD [OF d(1)] mono in \<open>auto simp: base_inv_def\<close>)
  moreover have "StatusElem (running_thread s) \<notin> linked (f(CondWaiters c \<mapsto> []))"
    using d(3) by (auto simp: linked_iff split: if_splits)
  ultimately show ?thesis using d(2) by (simp add: sched_inv_def same)
qed

lemma steps_inv:
  "steps (polite X C) s s' \<Longrightarrow> sched_inv X C s f \<Longrightarrow> \<exists>f'. sched_inv X C s' f'"
  by (induction rule: steps.induct) (auto dest: step_inv)

text \<open>The kernel's static semaphores, locks and condition variables.\<close>

definition init_objects ::
  "(u64 \<times> u64) list \<Rightarrow> u64 list \<Rightarrow> u64 list \<Rightarrow> ('a) kstate_scheme \<Rightarrow> ('a) kstate_scheme" where
  "init_objects xs ls cs s =
     fold condvar_init cs (fold lock_init ls (fold (\<lambda>(x, v). semaphore_init (SemaObj x) v) xs s))"

lemma fold_semaphore_init_inv:
  "sched_inv X C s f \<Longrightarrow> distinct (map fst xs) \<Longrightarrow> (\<forall>x \<in> fst ` set xs. f (Waiters (SemaObj x)) = None) \<Longrightarrow>
   \<exists>f'. sched_inv (X \<union> SemaObj ` fst ` set xs) C (fold (\<lambda>(x, v). semaphore_init (SemaObj x) v) xs s) f' \<and>
     (\<forall>c. f' (CondWaiters c) = f (CondWaiters c)) \<and> (\<forall>l. f' (Waiters (LockSema l)) = f (Waiters (LockSema l)))"
proof (induction xs arbitrary: X s f)
  case Nil
  then show ?case by auto
next
  case (Cons p xs)
  obtain x v where p: "p = (x, v)" by (cases p)
  have i: "sched_inv (insert (SemaObj x) X) C (semaphore_init (SemaObj x) v s) (f(Waiters (SemaObj x) \<mapsto> []))"
    by (rule semaphore_init_inv [OF Cons.prems(1)]) (use Cons.prems(3) p in simp_all)
  have "\<forall>y \<in> fst ` set xs. (f(Waiters (SemaObj x) \<mapsto> [])) (Waiters (SemaObj y)) = None"
    using Cons.prems(2,3) p by auto
  with Cons.IH [OF i] Cons.prems(2) p show ?case by (auto simp: Un_insert_left)
qed

lemma fold_lock_init_inv:
  "sched_inv X C s f \<Longrightarrow> distinct ls \<Longrightarrow> (\<forall>l \<in> set ls. f (Waiters (LockSema l)) = None) \<Longrightarrow>
   \<exists>f'. sched_inv (X \<union> LockSema ` set ls) C (fold lock_init ls s) f' \<and> (\<forall>c. f' (CondWaiters c) = f (CondWaiters c))"
proof (induction ls arbitrary: X s f)
  case Nil
  then show ?case by auto
next
  case (Cons l ls)
  have "sched_inv (insert (LockSema l) X) C (semaphore_init (LockSema l) 1 s) (f(Waiters (LockSema l) \<mapsto> []))"
    by (rule semaphore_init_inv [OF Cons.prems(1)]) (use Cons.prems(3) in simp_all)
  then have i: "sched_inv (insert (LockSema l) X) C (lock_init l s) (f(Waiters (LockSema l) \<mapsto> []))"
    unfolding lock_init_def by (rule sched_fields(3))
  have "\<forall>y \<in> set ls. (f(Waiters (LockSema l) \<mapsto> [])) (Waiters (LockSema y)) = None"
    using Cons.prems(2,3) by auto
  with Cons.IH [OF i] Cons.prems(2) show ?case by (auto simp: Un_insert_left)
qed

lemma fold_condvar_init_inv:
  "sched_inv X C s f \<Longrightarrow> distinct cs \<Longrightarrow> (\<forall>c \<in> set cs. f (CondWaiters c) = None) \<Longrightarrow>
   \<exists>f'. sched_inv X (C \<union> set cs) (fold condvar_init cs s) f'"
proof (induction cs arbitrary: C s f)
  case Nil
  then show ?case by auto
next
  case (Cons c cs)
  have i: "sched_inv X (insert c C) (condvar_init c s) (f(CondWaiters c \<mapsto> []))"
    by (rule condvar_init_inv [OF Cons.prems(1)]) (use Cons.prems(3) in simp)
  have "\<forall>y \<in> set cs. (f(CondWaiters c \<mapsto> [])) (CondWaiters y) = None"
    using Cons.prems(2,3) by auto
  with Cons.IH [OF i] Cons.prems(2) show ?case by (auto simp: Un_insert_left)
qed

lemma booted_inv:
  assumes boot: "boot_state s" and addr: "b \<noteq> 0" "i \<noteq> 0" "b \<noteq> i"
    and objs: "distinct (map fst xs)" "distinct ls" "distinct cs"
    and start: "init_threads b i fi s = Some s1"
  shows "\<exists>f. sched_inv (SemaObj ` fst ` set xs \<union> LockSema ` set ls) (set cs) (init_objects xs ls cs s1) f"
proof -
  let ?f = "[Ready \<mapsto> [], Donors b \<mapsto> [], Waiters (SleepSema b) \<mapsto> [], Donors i \<mapsto> [], Waiters (SleepSema i) \<mapsto> []]"
  have s1: "sched_inv {} {} s1 ?f" using init_threads_inv [OF boot addr, of fi] start by auto
  have "\<forall>x \<in> fst ` set xs. ?f (Waiters (SemaObj x)) = None" by simp
  from fold_semaphore_init_inv [OF s1 objs(1) this] obtain f2 where
    f2: "sched_inv ({} \<union> SemaObj ` fst ` set xs) {} (fold (\<lambda>(x, v). semaphore_init (SemaObj x) v) xs s1) f2"
    "\<forall>c. f2 (CondWaiters c) = ?f (CondWaiters c)" "\<forall>l. f2 (Waiters (LockSema l)) = ?f (Waiters (LockSema l))" by blast
  have "\<forall>l \<in> set ls. f2 (Waiters (LockSema l)) = None" using f2(3) by simp
  from fold_lock_init_inv [OF f2(1) objs(2) this] obtain f3 where
    f3: "sched_inv ({} \<union> SemaObj ` fst ` set xs \<union> LockSema ` set ls) {}
      (fold lock_init ls (fold (\<lambda>(x, v). semaphore_init (SemaObj x) v) xs s1)) f3"
    "\<forall>c. f3 (CondWaiters c) = f2 (CondWaiters c)" by blast
  have "\<forall>c \<in> set cs. f3 (CondWaiters c) = None" using f2(2) f3(2) by simp
  from fold_condvar_init_inv [OF f3(1) objs(3) this] show ?thesis by (simp add: init_objects_def)
qed

subsection \<open>Properties\<close>

text \<open>C3: in every state that the booted kernel reaches by calls that respect the protocol, each
  queue is a well-formed list, no thread waits in two queues, the running thread waits in
  none, no dead thread waits or runs, and no operation faults.\<close>

theorem kernel_runs_sound:
  assumes "boot_state s0" "b \<noteq> 0" "i \<noteq> 0" "b \<noteq> i" "distinct (map fst xs)" "distinct ls" "distinct cs"
    and "init_threads b i fi s0 = Some s1"
    and "X = SemaObj ` fst ` set xs \<union> LockSema ` set ls"
    and "steps (polite X (set cs)) (init_objects xs ls cs s1) s"
  shows "(\<exists>f. lists_rep (lists s) f \<and> StatusElem (running_thread s) \<notin> linked f \<and>
      (\<forall>t. StatusElem t \<in> linked f \<longrightarrow> status (threads s t) \<noteq> THRSTAT_DEAD)) \<and>
    status (threads s (running_thread s)) \<noteq> THRSTAT_DEAD \<and>
    (frames s (running_thread s) \<noteq> [] \<longrightarrow> (\<exists>s'. step (polite X (set cs)) s s')) \<and>
    (\<forall>c. frames s (running_thread s) = [] \<longrightarrow> polite X (set cs) s c \<longrightarrow>
      (\<exists>s'. step (polite X (set cs)) s s' \<and> kernel_call c s = Some s'))"
proof -
  obtain f0 where "sched_inv X (set cs) (init_objects xs ls cs s1) f0"
    using booted_inv [OF assms(1-8)] assms(9) by auto
  then obtain f where inv: "sched_inv X (set cs) s f" using steps_inv [OF assms(10)] by blast
  note d = sched_invD [OF inv]
  have "\<forall>t. StatusElem t \<in> linked f \<longrightarrow> status (threads s t) \<noteq> THRSTAT_DEAD"
    using linked_live [OF d(1)] by (auto simp: live_def)
  moreover have "status (threads s (running_thread s)) \<noteq> THRSTAT_DEAD" using d(2) by (simp add: live_def)
  ultimately show ?thesis
    using base_invD(1) [OF d(1)] d(3) step_progress [OF inv, of "polite X (set cs)"] by blast
qed

definition demo_kernel :: kstate where
  "demo_kernel = \<lparr>lists = \<lparr>prev = (\<lambda>_. NULL), nxt = (\<lambda>_. NULL), lsize = (\<lambda>_. 0)\<rparr>, threads = (\<lambda>_. zero_thread),
     running_thread = 0, idle_thread = 0, initial_thread = 0, next_tid = 0, sema_value = (\<lambda>_. 0), holder = (\<lambda>_. 0),
     intr_level = INTR_DISABLED, rflags_if = INTR_DISABLED, frames = (\<lambda>_. []), freed = {}, threads_init = False\<rparr>"

lemma demo_boot: "boot_state demo_kernel"
  by (simp add: boot_state_def demo_kernel_def zero_thread_def KTHREAD_MAGIK_def)

lemma demo_started:
  "\<exists>s1. init_threads 0x1000 0x2000 7 demo_kernel = Some s1 \<and> running_thread s1 = 0x1000 \<and> idle_thread s1 = 0x2000 \<and>
     frames s1 0x1000 = []"
  using init_threads_inv [OF demo_boot, of "0x1000" "0x2000" 7] by auto

theorem kernel_runs_sound_witness:
  "\<exists>s1 s. init_threads 0x1000 0x2000 7 demo_kernel = Some s1 \<and>
     kernel_call (LockAcquire 9) (init_objects [] [9] [] s1) = Some s \<and>
     (\<exists>f. lists_rep (lists s) f \<and> StatusElem (running_thread s) \<notin> linked f)"
proof -
  obtain s1 where s1: "init_threads 0x1000 0x2000 7 demo_kernel = Some s1" "running_thread s1 = 0x1000"
    "idle_thread s1 = 0x2000" "frames s1 0x1000 = []" using demo_started by blast
  let ?s2 = "init_objects [] [9] [] s1" and ?X = "SemaObj ` fst ` set ([] :: (u64 \<times> u64) list) \<union> LockSema ` set [9]"
  have n: "(0x1000 :: u64) \<noteq> 0" "(0x2000 :: u64) \<noteq> 0" "(0x1000 :: u64) \<noteq> 0x2000" by simp_all
  have dd: "distinct (map fst ([] :: (u64 \<times> u64) list))" "distinct [9 :: u64]" "distinct ([] :: u64 list)" by simp_all
  note sound = kernel_runs_sound [OF demo_boot n dd s1(1) refl]
  have two: "running_thread ?s2 = 0x1000" "idle_thread ?s2 = 0x2000" "frames ?s2 0x1000 = []"
    using s1 by (simp_all add: init_objects_def lock_init_def semaphore_init_def)
  have p: "polite ?X (set []) ?s2 (LockAcquire 9)" using two by simp
  have none: "frames ?s2 (running_thread ?s2) = []" using two by simp
  from sound [OF done_steps] p none
  obtain s where s: "step (polite ?X (set [])) ?s2 s" "kernel_call (LockAcquire 9) ?s2 = Some s" by blast
  from sound [OF more_steps [OF done_steps s(1)]] s(2) s1(1) show ?thesis by blast
qed

text \<open>C39: in no state that the booted kernel reaches by protocol-respecting calls has the structure and
  the stack of a thread been given back: the test that would free those of a thread that exited is made by
  that thread itself, after it was switched out, and no dead thread is ever switched in again.\<close>

theorem exited_thread_never_freed:
  assumes "boot_state s0" "b \<noteq> 0" "i \<noteq> 0" "b \<noteq> i" "distinct (map fst xs)" "distinct ls" "distinct cs"
    and "init_threads b i fi s0 = Some s1"
    and "steps (polite (SemaObj ` fst ` set xs \<union> LockSema ` set ls) (set cs)) (init_objects xs ls cs s1) s"
  shows "freed s = {}"
proof -
  obtain f0 where "sched_inv (SemaObj ` fst ` set xs \<union> LockSema ` set ls) (set cs) (init_objects xs ls cs s1) f0"
    using booted_inv [OF assms(1-8)] by auto
  then obtain f where inv: "sched_inv (SemaObj ` fst ` set xs \<union> LockSema ` set ls) (set cs) s f"
    using steps_inv [OF assms(9)] by blast
  then show ?thesis using sched_invD(1) unfolding base_inv_def by blast
qed

theorem exited_thread_never_freed_witness:
  "\<exists>s1 s. init_threads 0x1000 0x2000 7 demo_kernel = Some s1 \<and> kernel_call Exit (init_objects [] [] [] s1) = Some s \<and>
     freed s = {}"
proof -
  obtain s1 where s1: "init_threads 0x1000 0x2000 7 demo_kernel = Some s1" "running_thread s1 = 0x1000"
    "idle_thread s1 = 0x2000" "frames s1 0x1000 = []" using demo_started by blast
  obtain f where f: "sched_inv {} {} (init_objects [] [] [] s1) f"
    using booted_inv [OF demo_boot _ _ _ _ _ _ s1(1), of "[]" "[]" "[]"] by auto
  have two: "init_objects [] [] [] s1 = s1" by (simp add: init_objects_def)
  have p: "polite {} {} s1 Exit" using s1 by simp
  have "sched_inv {} {} s1 f" using f two by simp
  from kernel_call_inv [OF this p] obtain s where s: "kernel_call Exit s1 = Some s" by blast
  have "step (polite {} {}) s1 s" using call [of s1 "polite {} {}" Exit s] s1 p s by simp
  then have "steps (polite {} {}) s1 s" using more_steps [OF done_steps] by blast
  with exited_thread_never_freed [OF demo_boot _ _ _ _ _ _ s1(1), of "[]" "[]" "[]" s] two s s1(1) show ?thesis
    by auto
qed

text \<open>C11: a thread that yields while its status is not \<^verbatim>\<open>THRSTAT_BLOCKED\<close> goes to the end of the
  ready list and the thread at its front runs next.  One whose status is \<^verbatim>\<open>THRSTAT_BLOCKED\<close>
  (the initial thread, or one that \<^verbatim>\<open>condvar_signal_one\<close> has woken) is put in no list: the front thread
  runs, or the idle thread when the list is empty.  Raising a semaphore moves the thread that has
  waited longest to the end of the ready list and makes it ready, and adds one to the value.\<close>

theorem scheduling_is_fifo:
  assumes "sched_inv X C s f" "f Ready = Some rs"
  shows "(status (threads s (running_thread s)) \<noteq> THRSTAT_BLOCKED \<longrightarrow>
      (\<exists>s' f'. yield_current s = Some s' \<and> sched_inv X C s' f' \<and>
        StatusElem (running_thread s') = hd (rs @ [StatusElem (running_thread s)]) \<and>
        f' = f(Ready \<mapsto> tl (rs @ [StatusElem (running_thread s)])))) \<and>
    (status (threads s (running_thread s)) = THRSTAT_BLOCKED \<longrightarrow>
      (\<exists>s' f'. yield_current s = Some s' \<and> sched_inv X C s' f' \<and> StatusElem (running_thread s) \<notin> linked f' \<and>
        StatusElem (running_thread s') = hd (rs @ [StatusElem (idle_thread s)]) \<and> f' = f(Ready \<mapsto> tl rs))) \<and>
    (\<forall>x t ws. f (Waiters x) = Some (StatusElem t # ws) \<longrightarrow>
      (\<exists>s' f'. semaphore_inc x s = Some s' \<and> sched_inv X C s' f' \<and>
        f' = f(Waiters x \<mapsto> ws, Ready \<mapsto> rs @ [StatusElem t]) \<and>
        status (threads s' t) = THRSTAT_READY \<and> sema_value s' = (sema_value s)(x := sema_value s x + 1)))"
  using yield_current_inv [OF assms(1) _ assms(2)] yield_blocked_inv [OF assms(1) _ assms(2)]
    semaphore_inc_inv [OF assms(1) _ assms(2)]
  by (intro conjI impI allI) (blast, blast, fastforce)

text \<open>The state after boot in which the initial thread has been marked ready.\<close>

definition ready_boot :: "('a) kstate_scheme \<Rightarrow> ('a) kstate_scheme" where
  "ready_boot s = upd_thread (running_thread s) (\<lambda>t. t\<lparr>status := THRSTAT_READY\<rparr>) s"

theorem scheduling_is_fifo_witness:
  "\<exists>s1 s' f'. init_threads 0x1000 0x2000 7 demo_kernel = Some s1 \<and> yield_current (ready_boot s1) = Some s' \<and>
     running_thread s' = 0x1000 \<and> sched_inv {} {} s' f'"
proof -
  obtain s1 where s1: "init_threads 0x1000 0x2000 7 demo_kernel = Some s1" "running_thread s1 = 0x1000"
    "sched_inv {} {} s1 [Ready \<mapsto> [], Donors 0x1000 \<mapsto> [], Waiters (SleepSema 0x1000) \<mapsto> [], Donors 0x2000 \<mapsto> [],
      Waiters (SleepSema 0x2000) \<mapsto> []]" "idle_thread s1 = 0x2000"
    using init_threads_inv [OF demo_boot, of "0x1000" "0x2000" 7] by auto
  have r: "sched_inv {} {} (ready_boot s1) [Ready \<mapsto> [], Donors 0x1000 \<mapsto> [], Waiters (SleepSema 0x1000) \<mapsto> [],
      Donors 0x2000 \<mapsto> [], Waiters (SleepSema 0x2000) \<mapsto> []]"
    unfolding ready_boot_def by (rule sched_upd_live [OF s1(3)]) simp_all
  have st: "status (threads (ready_boot s1) (running_thread (ready_boot s1))) \<noteq> THRSTAT_BLOCKED"
    by (simp add: ready_boot_def upd_thread_def)
  from scheduling_is_fifo [OF r, of "[]"] st
  obtain s' f' where "yield_current (ready_boot s1) = Some s'" "sched_inv {} {} s' f'"
    "StatusElem (running_thread s') = StatusElem (running_thread (ready_boot s1))" by auto
  with s1 show ?thesis by (intro exI [of _ s1] exI [of _ s'] exI [of _ f']) (simp add: ready_boot_def upd_thread_def)
qed

subsection \<open>Waiting on an empty semaphore\<close>

text \<open>Operations add activations to stacks and take none away.\<close>

definition grows :: "('a) kstate_scheme \<Rightarrow> ('a) kstate_scheme \<Rightarrow> bool" where
  "grows s s' \<longleftrightarrow> (\<forall>t. set (frames s t) \<subseteq> set (frames s' t))"

lemma grows_trans: "grows s t \<Longrightarrow> grows t u \<Longrightarrow> grows s u"
  unfolding grows_def by blast

lemma grows_push_frame: "grows s (push_frame t fr s)"
  by (auto simp: grows_def push_frame_def)

lemma grows_same: "frames s' = frames s \<Longrightarrow> grows s s'"
  by (simp add: grows_def)

lemma push_elem_frames: "push_elem l e s = Some s' \<Longrightarrow> frames s' = frames s"
  by (auto simp: push_elem_def split: bind_splits)

lemma next_thread_frames: "next_thread s = Some (t, s') \<Longrightarrow> frames s' = frames s"
  by (auto simp: next_thread_def split: bind_splits if_splits)

lemma thread_unblock_frames: "thread_unblock t s = Some s' \<Longrightarrow> frames s' = frames s"
  by (auto simp: thread_unblock_def disable_interrupts_def set_interrupt_level_def upd_thread_def Let_def
      dest!: push_elem_frames split: bind_splits if_splits)

lemma semaphore_inc_frames: "semaphore_inc x s = Some s' \<Longrightarrow> frames s' = frames s"
  by (auto simp: semaphore_inc_def Let_def disable_interrupts_def set_interrupt_level_def
      dest!: thread_unblock_frames split: bind_splits if_splits)

lemma lock_release_frames: "lock_release l s = Some s' \<Longrightarrow> frames s' = frames s"
  by (auto simp: lock_release_def dest!: semaphore_inc_frames)

lemma schedule_next_grows: "schedule_next s = Some s' \<Longrightarrow> grows s s'"
  by (auto simp: schedule_next_def grows_def push_frame_def Let_def dest!: next_thread_frames split: bind_splits)

lemma yield_current_grows: "yield_current s = Some s' \<Longrightarrow> grows s s'"
  by (auto simp: yield_current_def Let_def split: bind_splits if_splits dest!: push_elem_frames schedule_next_grows
      elim: grows_trans [OF grows_same])

lemma block_current_grows: "block_current s = Some s' \<Longrightarrow> grows s s'"
  unfolding block_current_def disable_interrupts_def Let_def
  by (auto simp: upd_thread_def dest!: yield_current_grows elim: grows_trans [OF grows_same, rotated])

lemma wait_grows:
  "block_current (push_frame t fr s1) = Some s' \<Longrightarrow> frames s1 = frames s \<Longrightarrow> grows s s'"
  by (meson block_current_grows grows_push_frame grows_same grows_trans)

lemma sema_dec_loop_grows: "sema_dec_loop x v old s = Some s' \<Longrightarrow> grows s s'"
  by (auto simp: sema_dec_loop_def set_interrupt_level_def grows_same split: bind_splits if_splits
      dest!: push_elem_frames wait_grows)

lemma semaphore_dec_grows: "semaphore_dec x s = Some s' \<Longrightarrow> grows s s'"
  by (auto simp: semaphore_dec_def disable_interrupts_def dest!: sema_dec_loop_grows elim: grows_trans [OF grows_same, rotated])

lemma lock_acquire_grows: "lock_acquire l s = Some s' \<Longrightarrow> grows s s'"
  unfolding lock_acquire_def by (meson semaphore_dec_grows grows_push_frame grows_trans)

lemma thread_block_grows: "thread_block t s = Some s' \<Longrightarrow> grows s s'"
  by (auto simp: thread_block_def upd_thread_def grows_same Let_def split: bind_splits if_splits
      dest!: block_current_grows)

lemma exit_thread_grows: "exit_thread s = Some s' \<Longrightarrow> grows s s'"
  by (auto simp: exit_thread_def disable_interrupts_def upd_thread_def dest!: schedule_next_grows
      elim: grows_trans [OF grows_same, rotated])

lemma condvar_wait_grows: "condvar_wait c l s = Some s' \<Longrightarrow> grows s s'"
  by (auto simp: condvar_wait_def split: bind_splits dest!: lock_release_frames push_elem_frames wait_grows
      elim: grows_trans [OF grows_same, rotated])

lemma condvar_signal_one_grows: "condvar_signal_one c l s = Some s' \<Longrightarrow> grows s s'"
  by (auto simp: condvar_signal_one_def grows_def split: bind_splits
      dest!: lock_release_frames lock_acquire_grows [unfolded grows_def]) blast

lemma condvar_signal_all_grows: "condvar_signal_all c l s = Some s' \<Longrightarrow> grows s s'"
  unfolding condvar_signal_all_def
  by (auto simp: grows_same split: if_splits dest!: condvar_signal_one_grows intro: grows_trans grows_push_frame)

lemma create_thread_frames:
  "create_thread (\<lambda>_ s. s) t f a s = Some s' \<Longrightarrow> frames s' = (frames s)(t := [StartThread])"
  by (auto simp: create_thread_new new_thread_def dest!: thread_unblock_frames)

lemma run_frame_grows: "run_frame fr s = Some s' \<Longrightarrow> grows s s'"
  by (cases fr) (auto simp: set_interrupt_level_def grows_same Let_def split: if_splits
      dest: sema_dec_loop_grows lock_acquire_grows condvar_signal_all_grows)

lemma kernel_call_keeps:
  assumes "kernel_call c s = Some s'" "\<And>f a. c \<noteq> CreateThread t f a"
  shows "set (frames s t) \<subseteq> set (frames s' t)"
proof (cases "\<exists>u f a. c = CreateThread u f a")
  case True
  with assms create_thread_frames show ?thesis by fastforce
next
  case False
  with assms(1) have "grows s s'"
    by (cases c) (auto simp: set_current_priority_def upd_thread_def grows_same
      dest: yield_current_grows block_current_grows thread_block_grows exit_thread_grows semaphore_dec_grows
        lock_acquire_grows condvar_wait_grows condvar_signal_one_grows condvar_signal_all_grows
        thread_unblock_frames semaphore_inc_frames lock_release_frames)
  then show ?thesis by (simp add: grows_def)
qed

text \<open>A thread whose local copy of the value is zero pushes the same activation again.\<close>

lemma sema_loop_again:
  assumes "sema_dec_loop x 0 old s = Some s'"
  shows "SemaLoop x 0 old \<in> set (frames s' (running_thread s))"
proof -
  obtain s1 where "push_elem (Waiters x) (StatusElem (running_thread s)) s = Some s1"
    "block_current (push_frame (get_current_thread s1) (SemaLoop x 0 old) s1) = Some s'"
    using assms by (auto simp: sema_dec_loop_def get_current_thread_def split: bind_splits)
  moreover from this(1) have "running_thread s1 = running_thread s"
    by (auto simp: push_elem_def split: bind_splits)
  ultimately show ?thesis
    using block_current_grows [of "push_frame (get_current_thread s1) (SemaLoop x 0 old) s1" s']
    by (auto simp: grows_def push_frame_def get_current_thread_def split: if_splits)
qed

lemma stuck_step:
  assumes "step ok s s'" "SemaLoop x 0 old \<in> set (frames s t)" "\<And>s f a. \<not> ok s (CreateThread t f a)"
  shows "SemaLoop x 0 old \<in> set (frames s' t)"
  using assms(1)
proof (rule stepE)
  fix fr rest
  assume r: "frames s (running_thread s) = fr # rest"
    "run_frame fr (s\<lparr>frames := (frames s)(running_thread s := rest)\<rparr>) = Some s'"
  have g: "set (((frames s)(running_thread s := rest)) u) \<subseteq> set (frames s' u)" for u
    using run_frame_grows [OF r(2)] by (simp add: grows_def)
  show ?thesis
  proof (cases "t = running_thread s \<and> fr = SemaLoop x 0 old")
    case True
    with sema_loop_again [of x old _ s'] r(2) show ?thesis by fastforce
  next
    case False
    with assms(2) r(1) have "SemaLoop x 0 old \<in> set (((frames s)(running_thread s := rest)) t)"
      by (auto split: if_splits)
    with g show ?thesis by blast
  qed
next
  fix c
  assume c: "ok s c" "kernel_call c s = Some s'"
  then have "c \<noteq> CreateThread t f a" for f a using assms(3) by metis
  with kernel_call_keeps [OF c(2)] assms(2) show ?thesis by blast
qed

text \<open>C4: a thread that lowers a semaphore whose value is zero never returns from the call,
  whatever the other threads do and however often the semaphore is raised: it tests a local
  copy of the value that nothing refreshes.\<close>

theorem semaphore_dec_never_returns:
  assumes "sema_value s x = 0" "semaphore_dec x s = Some s1" "steps ok s1 s'"
    and "\<And>u f a. \<not> ok u (CreateThread (running_thread s) f a)"
  shows "SemaLoop x 0 (intr_level s) \<in> set (frames s' (running_thread s))"
proof -
  have start: "SemaLoop x 0 (intr_level s) \<in> set (frames s1 (running_thread s))"
    using assms(1,2) sema_loop_again [of x "intr_level s" "s\<lparr>intr_level := INTR_DISABLED, rflags_if := INTR_DISABLED\<rparr>" s1]
    by (simp add: semaphore_dec_def disable_interrupts_def)
  show ?thesis
    using assms(3) start
  proof (induction rule: steps.induct)
    case (more_steps u t v)
    from stuck_step [OF more_steps.hyps(2) more_steps.IH [OF more_steps.prems]] assms(4) show ?case by simp
  qed
qed

theorem semaphore_dec_never_returns_witness:
  "\<exists>s0 s1 s2. init_threads 0x1000 0x2000 7 demo_kernel = Some s0 \<and>
     semaphore_dec (SemaObj 3) (init_objects [(3, 0)] [] [] s0) = Some s1 \<and>
     step (\<lambda>_ c. c = SemaInc (SemaObj 3)) s1 s2 \<and>
     SemaLoop (SemaObj 3) 0 (intr_level (init_objects [(3, 0)] [] [] s0)) \<in> set (frames s2 0x1000)"
proof -
  obtain s0 where s0: "init_threads 0x1000 0x2000 7 demo_kernel = Some s0" "running_thread s0 = 0x1000"
    "idle_thread s0 = 0x2000" "frames s0 0x1000 = []" using demo_started by blast
  let ?s = "init_objects [(3, 0)] [] [] s0" and ?X = "{SemaObj 3}"
  have two: "running_thread ?s = 0x1000" "idle_thread ?s = 0x2000" "sema_value ?s (SemaObj 3) = 0"
    using s0 by (simp_all add: init_objects_def semaphore_init_def)
  obtain f where f: "sched_inv ?X {} ?s f"
    using booted_inv [OF demo_boot _ _ _ _ _ _ s0(1), of "[(3, 0)]" "[]" "[]"] by auto
  obtain s1 f1 where s1: "semaphore_dec (SemaObj 3) ?s = Some s1" "sched_inv ?X {} s1 f1"
    using semaphore_dec_inv [OF f] two by auto
  obtain s2 where s2: "step (\<lambda>_ c. c = SemaInc (SemaObj 3)) s1 s2"
    using step_progress [OF s1(2), of "\<lambda>_ c. c = SemaInc (SemaObj 3)"]
    by (cases "frames s1 (running_thread s1) = []") (force, force)
  from semaphore_dec_never_returns [OF two(3) s1(1) more_steps [OF done_steps s2]] two(1) s0(1) s1(1) s2
  show ?thesis by (intro exI [of _ s0] exI [of _ s1] exI [of _ s2]) simp
qed

text \<open>The initial thread is created blocked and is never made ready: the first time it yields it
  is put in no list, so that nothing can ever run it again; the idle thread takes over.\<close>

theorem initial_thread_lost:
  assumes "boot_state s" "b \<noteq> 0" "i \<noteq> 0" "b \<noteq> i"
  shows "\<exists>s1 s2 f. init_threads b i fi s = Some s1 \<and> running_thread s1 = b \<and> yield_current s1 = Some s2 \<and>
    running_thread s2 = i \<and> lists_rep (lists s2) f \<and> f Ready = Some [] \<and> StatusElem b \<notin> linked f"
proof -
  let ?f = "[Ready \<mapsto> [], Donors b \<mapsto> [], Waiters (SleepSema b) \<mapsto> [], Donors i \<mapsto> [], Waiters (SleepSema i) \<mapsto> []]"
  obtain s1 where s1: "init_threads b i fi s = Some s1" "sched_inv {} {} s1 ?f" "running_thread s1 = b"
    "idle_thread s1 = i" "status (threads s1 b) = THRSTAT_BLOCKED"
    using init_threads_inv [OF assms] by blast
  have "yield_current s1 = schedule_next s1"
    using s1(3,5) by (simp add: yield_current_def get_current_thread_def Let_def)
  with schedule_next_inv [OF sched_invD(1) [OF s1(2)]] obtain s2 f' where s2: "yield_current s1 = Some s2"
    "sched_inv {} {} s2 f'" "running_thread s2 = i" "f' = ?f" using s1(4) by auto
  have "StatusElem b \<notin> linked ?f" using sched_invD(3) [OF s1(2)] s1(3) by simp
  moreover have "lists_rep (lists s2) ?f" using base_invD(1) [OF sched_invD(1) [OF s2(2)]] s2(4) by simp
  moreover have "?f Ready = Some []" by simp
  ultimately show ?thesis using s1(1,3) s2(1,3) by blast
qed

theorem initial_thread_lost_witness:
  "\<exists>s1 s2. init_threads 0x1000 0x2000 7 demo_kernel = Some s1 \<and> yield_current s1 = Some s2 \<and> running_thread s2 = 0x2000"
  using initial_thread_lost [OF demo_boot, of "0x1000" "0x2000" 7] by auto

end
