(* ===== verification/Timer.thy ===== *)
theory Timer
  imports Threads
begin

unbundle bit_operations_syntax

section \<open>The timer (thr/timer.c, timespec.h)\<close>

text \<open>
  Model of \<^verbatim>\<open>kern/lib/thr/timer.c\<close>, of \<^verbatim>\<open>timespec.h\<close> and of the overflow macros of
  \<^verbatim>\<open>algo.h\<close> that it uses.  \<^verbatim>\<open>sleep_ticks\<close> may be switched out when it takes the lock of the
  sleep queue; it is given as the part up to that call and the part that follows it.  The
  tick that ends a time slice executes \<^verbatim>\<open>hlt\<close> with interrupts disabled: \<open>None\<close>.  What
  enabling the local timer does to the device is not modelled; \<open>enable\<close> is its result.
\<close>

record timer = kstate +
  ticks :: u64
  thread_ticks :: u64

record timespec =
  seconds :: u64
  nanoseconds :: u64

definition QUANTUM :: int where
  "QUANTUM = 100000"

definition TIME_SLICE :: u64 where
  "TIME_SLICE = 100"

definition NANO_PER_SEC :: u64 where
  "NANO_PER_SEC = 1000000000"

definition SLEEP_LOCK :: u64 where
  "SLEEP_LOCK = 1"

subsection \<open>The overflow tests of algo.h\<close>

text \<open>
  As the macros expand: \<^verbatim>\<open>-\<close> binds tighter than \<^verbatim>\<open><<\<close>, and \<^verbatim>\<open>==\<close> tighter than \<^verbatim>\<open>&\<close>, so the
  mask of a 64-bit product is \<^verbatim>\<open>1 << 7\<close> and the second operand of the outer comparison masks
  \<open>a\<close> with the value of an equality.  \<open>sb\<close> is the size of \<open>b\<close> in bytes.
\<close>

definition truth :: "bool \<Rightarrow> u64" where
  "truth b = (if b then 1 else 0)"

definition safemul :: "u64 \<Rightarrow> u64 \<Rightarrow> nat \<Rightarrow> bool \<times> u64" where
  "safemul a b sb =
     (let prod = a * b
      in (truth (prod AND push_bit 7 1 \<noteq> 0)
          = truth (a AND truth (push_bit 7 1 = truth (b AND push_bit (sb - 1) 1 \<noteq> 0)) \<noteq> 0), prod))"

text \<open>\<^verbatim>\<open>safeadd\<close> multiplies its arguments.\<close>

definition safeadd :: "u64 \<Rightarrow> u64 \<Rightarrow> nat \<Rightarrow> bool \<times> u64" where
  "safeadd a b sb =
     (let sm = a * b
      in (truth (sm AND push_bit 7 1 \<noteq> 0)
          = truth (a AND truth (push_bit 7 1 = truth (b AND push_bit (sb - 1) 1 \<noteq> 0)) \<noteq> 0), sm))"

subsection \<open>Sleeping\<close>

text \<open>\<^verbatim>\<open>div_rnd_up(nanos, QUANTUM)\<close> on a signed 64-bit value: the division truncates.\<close>

definition sleep_quanta :: "u64 \<Rightarrow> u64" where
  "sleep_quanta nanos =
     (let n = sint (nanos + of_int QUANTUM - 1)
      in of_int (if n < 0 then - ((- n) div QUANTUM) else n div QUANTUM))"

definition sleep_ticks_lock :: "u64 \<Rightarrow> timer \<Rightarrow> timer option" where
  "sleep_ticks_lock t s =
     (let s = upd_thread (get_current_thread s) (\<lambda>th. th\<lparr>sleep_end := ticks s + t\<rparr>) s
      in lock_acquire SLEEP_LOCK s)"

definition sleep_ticks_wait :: "timer \<Rightarrow> timer option" where
  "sleep_ticks_wait s = do {
     let cur = get_current_thread s;
     s \<leftarrow> push_elem SleepQueue (SleepElem cur) s;
     s \<leftarrow> lock_release SLEEP_LOCK s;
     semaphore_dec (SleepSema cur) s }"

text \<open>The number of ticks \<^verbatim>\<open>sleep_timespec\<close> asks for; \<open>None\<close> when it returns at once.\<close>

definition sleep_timespec_ticks :: "timespec \<Rightarrow> u64 option" where
  "sleep_timespec_ticks d =
     (let (ok, nanos) = safemul (seconds d) NANO_PER_SEC 4
      in if ok
         then let (ok, nanos) = safeadd nanos (nanoseconds d) 8
              in if ok then Some (sleep_quanta nanos) else None
         else None)"

definition sleep_timespec :: "timespec \<Rightarrow> timer \<Rightarrow> timer option" where
  "sleep_timespec d s =
     (case sleep_timespec_ticks d of Some t \<Rightarrow> sleep_ticks_lock t s | None \<Rightarrow> Some s)"

subsection \<open>The timer interrupt\<close>

datatype interrupt_defer = INTRDEFR_NONE | INTRDEFR_YIELD

definition init_timer :: "bool \<Rightarrow> timer \<Rightarrow> timer" where
  "init_timer enable s =
     (let s = s\<lparr>ticks := 0\<rparr>;
          s = s\<lparr>lists := list_init (lists s) SleepQueue\<rparr>
      in lock_init SLEEP_LOCK s)"

partial_function (option) wake_loop :: "(lid, eid) ptr \<Rightarrow> timer \<Rightarrow> timer option" where
  "wake_loop sleeper_el s =
     (if sleeper_el \<noteq> list_end SleepQueue
      then do {
        sleeper \<leftarrow> (case sleeper_el of Elem (SleepElem t) \<Rightarrow> Some t | _ \<Rightarrow> None);
        s \<leftarrow> (if sleep_end (threads s sleeper) \<le> ticks s then semaphore_inc (SleepSema sleeper) s else Some s);
        ne \<leftarrow> list_next (lists s) sleeper_el;
        wake_loop ne s }
      else Some s)"

definition timer_interrupt :: "timer \<Rightarrow> (interrupt_defer \<times> timer) option" where
  "timer_interrupt s = do {
     let (old_level, s) = disable_interrupts s;
     let s = s\<lparr>ticks := ticks s + 1\<rparr>;
     let s = s\<lparr>thread_ticks := thread_ticks s + 1\<rparr>;
     if thread_ticks s > TIME_SLICE then None
     else do {
       s \<leftarrow> wake_loop (list_begin (lists s) SleepQueue) s;
       Some (INTRDEFR_NONE, s) } }"

subsection \<open>Properties\<close>

lemma mask7_512: "(x * 512 :: u64) AND 128 = 0"
proof -
  have e: "(128 :: u64) = 2 ^ 7" by simp
  have "(x * 512 :: u64) = push_bit 9 x" by (simp add: push_bit_eq_mult)
  moreover have "push_bit 9 x AND (128 :: u64) = 0"
    unfolding e by (rule bit_word_eqI) (auto simp only: bit_and_iff bit_push_bit_iff bit_exp_iff bit_0_eq)
  ultimately show ?thesis by simp
qed

lemma safe_tests:
  "r = a * b \<Longrightarrow> r AND 128 = 0 \<Longrightarrow> safemul a b sb = (True, r) \<and> safeadd a b sb = (True, r)"
  by (simp add: safemul_def safeadd_def truth_def)

lemma sleep_ticks_of_product:
  "sleep_timespec_ticks d = Some (sleep_quanta (seconds d * 1000000000 * nanoseconds d))"
proof -
  have p: "seconds d * 1000000000 = (seconds d * 1953125) * 512"
    "seconds d * 1000000000 * nanoseconds d = (seconds d * 1953125 * nanoseconds d) * 512" by simp_all
  have m: "seconds d * 1000000000 AND 128 = 0" "seconds d * 1000000000 * nanoseconds d AND 128 = 0"
    using mask7_512 [of "seconds d * 1953125"] mask7_512 [of "seconds d * 1953125 * nanoseconds d"]
    by (simp_all add: ac_simps)
  have "safemul (seconds d) NANO_PER_SEC 4 = (True, seconds d * 1000000000)"
    using safe_tests [OF _ m(1)] by (simp add: NANO_PER_SEC_def)
  moreover have "safeadd (seconds d * 1000000000) (nanoseconds d) 8 = (True, seconds d * 1000000000 * nanoseconds d)"
    using safe_tests [OF _ m(2)] by simp
  ultimately show ?thesis by (simp add: sleep_timespec_ticks_def)
qed

lemma sleep_quanta_zero: "sleep_quanta 0 = 0"
  by (simp add: sleep_quanta_def QUANTUM_def)

text \<open>C14: the overflow tests of \<^verbatim>\<open>sleep_timespec\<close> never reject a duration, and the time it sleeps is
  the product of the seconds, a thousand million and the nanoseconds, modulo two to the 64,
  in quanta: a duration of whole seconds, or of less than a second, sleeps for no tick.\<close>

theorem sleep_timespec_product:
  "sleep_timespec_ticks d = Some (sleep_quanta (seconds d * 1000000000 * nanoseconds d)) \<and>
   (seconds d = 0 \<or> nanoseconds d = 0 \<longrightarrow> sleep_timespec_ticks d = Some 0)"
  by (auto simp: sleep_ticks_of_product sleep_quanta_zero)

theorem sleep_timespec_product_witness:
  "sleep_timespec_ticks \<lparr>seconds = 3, nanoseconds = 0\<rparr> = Some 0 \<and>
   sleep_timespec_ticks \<lparr>seconds = 0, nanoseconds = 500000000\<rparr> = Some 0"
  using sleep_timespec_product [of "\<lparr>seconds = 3, nanoseconds = 0\<rparr>"]
    sleep_timespec_product [of "\<lparr>seconds = 0, nanoseconds = 500000000\<rparr>"] by auto

subsection \<open>A tick\<close>

lemma semaphore_inc_keeps:
  "semaphore_inc x s = Some s' \<Longrightarrow> sleep_end (threads s' t) = sleep_end (threads s t) \<and> kstate.more s' = kstate.more s"
  by (auto simp: semaphore_inc_def thread_unblock_def push_elem_def disable_interrupts_def set_interrupt_level_def
      upd_thread_def Let_def split: bind_splits if_splits)

lemma semaphore_inc_ticks: "semaphore_inc x s = Some s' \<Longrightarrow> ticks s' = ticks s"
  by (auto simp: semaphore_inc_def thread_unblock_def push_elem_def disable_interrupts_def set_interrupt_level_def
      upd_thread_def Let_def split: bind_splits if_splits)

definition due :: "timer \<Rightarrow> thr list \<Rightarrow> sema_id \<Rightarrow> bool" where
  "due s ts x \<longleftrightarrow> (\<exists>t \<in> set ts. x = SleepSema t \<and> sleep_end (threads s t) \<le> ticks s)"

text \<open>One pass over the sleepers: every due sleeper's semaphore is raised, and all stay queued.\<close>

lemma wake_loop_inv:
  assumes "sched_inv X C s f" "f SleepQueue = Some (map SleepElem (us @ ts))" "distinct ts"
    and "\<forall>t \<in> set ts. \<exists>ws. f (Waiters (SleepSema t)) = Some ws"
  shows "\<exists>s' f'. wake_loop (case ts of [] \<Rightarrow> Tail SleepQueue | t # _ \<Rightarrow> Elem (SleepElem t)) s = Some s' \<and>
    sched_inv X C s' f' \<and> f' SleepQueue = f SleepQueue \<and> ticks s' = ticks s \<and>
    (\<forall>x. sema_value s' x = (if due s ts x then sema_value s x + 1 else sema_value s x))"
  using assms
proof (induction ts arbitrary: us s f)
  case Nil
  then show ?case by (simp add: wake_loop.simps list_end_def due_def) blast
next
  case (Cons t ts)
  obtain ws rs where ws: "f (Waiters (SleepSema t)) = Some ws" and rs: "f Ready = Some rs"
    using Cons.prems(4) base_invD(2) [OF sched_invD(1) [OF Cons.prems(1)]] by auto
  let ?due = "sleep_end (threads s t) \<le> ticks s"
  have "\<exists>s1 f1. (if ?due then semaphore_inc (SleepSema t) s else Some s) = Some s1 \<and> sched_inv X C s1 f1 \<and>
    (\<forall>l. l \<noteq> Ready \<longrightarrow> l \<noteq> Waiters (SleepSema t) \<longrightarrow> f1 l = f l) \<and> (\<exists>ws. f1 (Waiters (SleepSema t)) = Some ws) \<and>
    sema_value s1 = (if ?due then (sema_value s)(SleepSema t := sema_value s (SleepSema t) + 1) else sema_value s)"
  proof (cases ?due)
    case True
    from semaphore_inc_inv [OF Cons.prems(1) ws rs] obtain s1 f1 where
      "semaphore_inc (SleepSema t) s = Some s1" "sched_inv X C s1 f1"
      "f1 = (if ws = [] then f else f(Waiters (SleepSema t) \<mapsto> tl ws, Ready \<mapsto> rs @ [hd ws]))"
      "sema_value s1 = (sema_value s)(SleepSema t := sema_value s (SleepSema t) + 1)" by blast
    with True ws show ?thesis by (intro exI [of _ s1] exI [of _ f1]) simp
  next
    case False
    with Cons.prems(1) ws show ?thesis by (intro exI [of _ s] exI [of _ f]) simp
  qed
  then obtain s1 f1 where s1: "(if ?due then semaphore_inc (SleepSema t) s else Some s) = Some s1"
    "sched_inv X C s1 f1" "\<forall>l. l \<noteq> Ready \<longrightarrow> l \<noteq> Waiters (SleepSema t) \<longrightarrow> f1 l = f l"
    "\<exists>ws. f1 (Waiters (SleepSema t)) = Some ws"
    "sema_value s1 = (if ?due then (sema_value s)(SleepSema t := sema_value s (SleepSema t) + 1) else sema_value s)"
    by blast
  have keep: "sleep_end (threads s1 u) = sleep_end (threads s u)" "ticks s1 = ticks s" for u
    using s1(1) semaphore_inc_keeps semaphore_inc_ticks by (auto split: if_splits)
  have q: "f1 SleepQueue = Some (map SleepElem ((us @ [t]) @ ts))" using s1(3) Cons.prems(2) by simp
  have w: "\<forall>u \<in> set ts. \<exists>ws. f1 (Waiters (SleepSema u)) = Some ws"
    using Cons.prems(3,4) s1(3) by auto
  obtain s' f' where s': "wake_loop (case ts of [] \<Rightarrow> Tail SleepQueue | t # _ \<Rightarrow> Elem (SleepElem t)) s1 = Some s'"
    "sched_inv X C s' f'" "f' SleepQueue = f1 SleepQueue" "ticks s' = ticks s1"
    "\<forall>x. sema_value s' x = (if due s1 ts x then sema_value s1 x + 1 else sema_value s1 x)"
    using Cons.IH [OF s1(2) q _ w] Cons.prems(3) by auto
  have "list_rep (lists s1) SleepQueue (map SleepElem us @ SleepElem t # map SleepElem ts)"
    using lists_repD [OF base_invD(1) [OF sched_invD(1) [OF s1(2)]] q] by simp
  from list_rep_next [OF this]
  have nx: "list_next (lists s1) (Elem (SleepElem t)) = Some (case ts of [] \<Rightarrow> Tail SleepQueue | t # _ \<Rightarrow> Elem (SleepElem t))"
    by (simp split: list.splits)
  have "wake_loop (Elem (SleepElem t)) s = Some s'"
    using s1(1) nx s'(1) by (subst wake_loop.simps) (simp add: list_end_def)
  moreover have "sema_value s' x = (if due s (t # ts) x then sema_value s x + 1 else sema_value s x)" for x
  proof -
    have "due s1 ts x = due s ts x" using keep by (simp add: due_def)
    moreover have "due s (t # ts) x = (x = SleepSema t \<and> ?due \<or> due s ts x)" by (auto simp: due_def)
    moreover have "x = SleepSema t \<Longrightarrow> \<not> due s ts x" using Cons.prems(3) by (auto simp: due_def)
    ultimately show ?thesis using s'(5) s1(5) by (auto split: if_splits)
  qed
  ultimately show ?case using s'(2,3,4) q Cons.prems(2) keep by (intro exI [of _ s'] exI [of _ f']) simp
qed

text \<open>C12: a timer interrupt within the time slice advances the tick count and raises, by one, the
  semaphore of every sleeper whose time has come and of no other thread; the sleepers stay in
  the queue, so the next interrupt raises their semaphores again.\<close>

theorem timer_tick_wakes:
  assumes "sched_inv X C s f" "f SleepQueue = Some (map SleepElem ts)" "distinct ts"
    and "\<forall>t \<in> set ts. \<exists>ws. f (Waiters (SleepSema t)) = Some ws" "thread_ticks s + 1 \<le> 100"
  shows "\<exists>s' f'. timer_interrupt s = Some (INTRDEFR_NONE, s') \<and> sched_inv X C s' f' \<and>
    f' SleepQueue = f SleepQueue \<and> ticks s' = ticks s + 1 \<and>
    (\<forall>t. sema_value s' (SleepSema t) = sema_value s (SleepSema t) +
       (if t \<in> set ts \<and> sleep_end (threads s t) \<le> ticks s + 1 then 1 else 0))"
proof -
  let ?s = "s\<lparr>intr_level := INTR_DISABLED, rflags_if := INTR_DISABLED, ticks := ticks s + 1, thread_ticks := thread_ticks s + 1\<rparr>"
  have inv: "sched_inv X C ?s f"
    using assms(1) unfolding sched_inv_def base_inv_def live_def by simp
  note rep = lists_repD [OF base_invD(1) [OF sched_invD(1) [OF inv]] assms(2)]
  have start: "list_begin (lists ?s) SleepQueue = (case ts of [] \<Rightarrow> Tail SleepQueue | t # _ \<Rightarrow> Elem (SleepElem t))"
    using list_rep_begin [OF rep] by (simp split: list.splits)
  obtain s' f' where s': "wake_loop (list_begin (lists ?s) SleepQueue) ?s = Some s'" "sched_inv X C s' f'"
    "f' SleepQueue = f SleepQueue" "ticks s' = ticks ?s"
    "\<forall>x. sema_value s' x = (if due ?s ts x then sema_value ?s x + 1 else sema_value ?s x)"
    using wake_loop_inv [OF inv, of "[]" ts] assms(2-4) unfolding start by auto
  have "timer_interrupt s = Some (INTRDEFR_NONE, s')"
    using s'(1) assms(5) by (simp add: timer_interrupt_def disable_interrupts_def TIME_SLICE_def Let_def)
  moreover have "sema_value s' (SleepSema t) = sema_value s (SleepSema t) +
       (if t \<in> set ts \<and> sleep_end (threads s t) \<le> ticks s + 1 then 1 else 0)" for t
    using s'(5) by (auto simp: due_def)
  ultimately show ?thesis using s'(2-4) by (intro exI [of _ s'] exI [of _ f']) simp
qed

lemma sched_lists:
  assumes inv: "sched_inv X C s f" and l: "\<not> queue l" "\<And>t. l \<noteq> Donors t"
    and new: "lists_rep h (f(l \<mapsto> xs))" "range StatusElem \<inter> set xs = {}"
    and sub: "linked (f(l \<mapsto> xs)) \<inter> range StatusElem \<subseteq> linked f"
  shows "sched_inv X C (s\<lparr>lists := h\<rparr>) (f(l \<mapsto> xs))"
proof -
  note d = sched_invD [OF inv]
  have nq: "l \<noteq> Ready" "\<And>x. l \<noteq> Waiters x" "\<And>c. l \<noteq> CondWaiters c" using l(1) by auto
  have "base_inv X C (s\<lparr>lists := h\<rparr>) (f(l \<mapsto> xs))"
  proof (rule base_invI)
    show "lists_rep (lists (s\<lparr>lists := h\<rparr>)) (f(l \<mapsto> xs))" using new(1) by simp
    show "if queue k then set ys \<subseteq> StatusElem ` Collect (live (s\<lparr>lists := h\<rparr>)) else range StatusElem \<inter> set ys = {}"
      if "(f(l \<mapsto> xs)) k = Some ys" for k ys
      using d(1) that l(1) new(2) unfolding base_inv_def by (cases "k = l") auto
    show "k = Ready" if "(f(l \<mapsto> xs)) k = Some ys" "StatusElem (idle_thread (s\<lparr>lists := h\<rparr>)) \<in> set ys" for k ys
    proof (cases "k = l")
      case False
      with that d(1) show ?thesis unfolding base_inv_def by simp
    qed (use that new(2) in auto)
    show "(f(l \<mapsto> xs)) (Donors t) = None \<and> (f(l \<mapsto> xs)) (Waiters (SleepSema t)) = None"
      if "magic (threads (s\<lparr>lists := h\<rparr>) t) \<noteq> KTHREAD_MAGIK" for t
      using d(1) that l(2) [of t] nq(2) [of "SleepSema t"] unfolding base_inv_def by auto
  qed (use d(1) base_invD [OF d(1)] nq in \<open>auto simp: base_inv_def\<close>)
  moreover have "StatusElem (running_thread s) \<notin> linked (f(l \<mapsto> xs))" using sub d(3) by blast
  ultimately show ?thesis using d(2) by (simp add: sched_inv_def)
qed

definition demo_clock :: timer where
  "demo_clock = kstate.extend demo_kernel \<lparr>ticks = 0, thread_ticks = 0\<rparr>"

definition demo_sleeper :: "timer \<Rightarrow> timer" where
  "demo_sleeper s = upd_thread 0x2000 (\<lambda>t. t\<lparr>sleep_end := 1\<rparr>) s"

lemma demo_sleeping:
  "\<exists>(s :: timer) f. sched_inv {} {} s f \<and> f SleepQueue = Some (map SleepElem [0x2000]) \<and>
     f (Waiters (SleepSema 0x2000)) = Some [] \<and> thread_ticks s = 0 \<and> ticks s = 0 \<and>
     sleep_end (threads s 0x2000) = 1"
proof -
  have "boot_state demo_clock"
    by (simp add: boot_state_def demo_clock_def demo_kernel_def kstate.defs zero_thread_def KTHREAD_MAGIK_def)
  from init_threads_inv [OF this, of "0x1000" "0x2000" 7] obtain s1 where s1: "init_threads 0x1000 0x2000 7 demo_clock = Some s1"
    "sched_inv {} {} s1 [Ready \<mapsto> [], Donors 0x1000 \<mapsto> [], Waiters (SleepSema 0x1000) \<mapsto> [],
      Donors 0x2000 \<mapsto> [], Waiters (SleepSema 0x2000) \<mapsto> []]" (is "sched_inv _ _ _ ?f") by auto
  have t: "ticks s1 = 0" "thread_ticks s1 = 0"
    using s1(1) by (auto simp: init_threads_def create_thread_def thread_init_def upd_thread_def assign_id_def
      semaphore_init_def thread_unblock_def disable_interrupts_def set_interrupt_level_def Let_def push_elem_def
      demo_clock_def kstate.defs)
  let ?s2 = "s1\<lparr>lists := list_init (lists s1) SleepQueue\<rparr>" and ?f2 = "?f(SleepQueue \<mapsto> [])"
  have lk: "linked ?f = {}" "linked ?f2 = {}" by (auto simp: linked_iff split: if_splits)
  have inv2: "sched_inv {} {} ?s2 ?f2"
  proof (rule sched_lists [OF s1(2)])
    show "lists_rep (list_init (lists s1) SleepQueue) ?f2"
      by (rule lists_init [OF base_invD(1) [OF sched_invD(1) [OF s1(2)]]]) simp
  qed (simp_all add: lk)
  obtain h where h: "list_push_back (lists ?s2) SleepQueue (Elem (SleepElem 0x2000)) = Some h"
    "lists_rep h (?f2(SleepQueue \<mapsto> [] @ [SleepElem 0x2000]))"
    using kl.push [OF base_invD(1) [OF sched_invD(1) [OF inv2]], of SleepQueue "[]" "SleepElem 0x2000"] lk(2) by auto
  have "sched_inv {} {} (?s2\<lparr>lists := h\<rparr>) (?f2(SleepQueue \<mapsto> [] @ [SleepElem 0x2000]))"
  proof (rule sched_lists [OF inv2 _ _ h(2)])
    show "linked (?f2(SleepQueue \<mapsto> [] @ [SleepElem 0x2000])) \<inter> range StatusElem \<subseteq> linked ?f2"
      by (auto simp: linked_iff split: if_splits)
  qed auto
  then have "sched_inv {} {} (demo_sleeper (?s2\<lparr>lists := h\<rparr>)) (?f2(SleepQueue \<mapsto> [SleepElem 0x2000]))"
    unfolding demo_sleeper_def append_Nil
    by (rule sched_upd_live) (use base_invD(6) [OF sched_invD(1) [OF s1(2)]] s1(1) in \<open>auto simp: live_def
      init_threads_def create_thread_def thread_init_def upd_thread_def assign_id_def
      semaphore_init_def thread_unblock_def disable_interrupts_def set_interrupt_level_def Let_def push_elem_def zero_thread_def\<close>)
  then show ?thesis
    by (intro exI [of _ "demo_sleeper (?s2\<lparr>lists := h\<rparr>)"] exI [of _ "?f2(SleepQueue \<mapsto> [SleepElem 0x2000])"])
      (simp add: t demo_sleeper_def upd_thread_def)
qed

theorem timer_tick_wakes_witness:
  "\<exists>s s'. timer_interrupt s = Some (INTRDEFR_NONE, s') \<and>
     sema_value s' (SleepSema 0x2000) = sema_value s (SleepSema 0x2000) + 1"
proof -
  obtain s :: timer and f where s: "sched_inv {} {} s f" "f SleepQueue = Some (map SleepElem [0x2000])"
    "f (Waiters (SleepSema 0x2000)) = Some []" "thread_ticks s = 0" "ticks s = 0"
    "sleep_end (threads s 0x2000) = 1" using demo_sleeping by blast
  have "\<forall>t \<in> set [0x2000]. \<exists>ws. f (Waiters (SleepSema t)) = Some ws" "distinct [0x2000 :: thr]"
    "thread_ticks s + 1 \<le> 100" using s(3,4) by simp_all
  from timer_tick_wakes [OF s(1,2) this(2,1,3)] obtain s' where "timer_interrupt s = Some (INTRDEFR_NONE, s')"
    "sema_value s' (SleepSema 0x2000) = sema_value s (SleepSema 0x2000) + 1" using s(5,6) by auto
  then show ?thesis by blast
qed

end
