(* ===== verification/Libc.thy ===== *)
theory Libc
  imports Prelude
begin

unbundle bit_operations_syntax

section \<open>Strings, bytes and hashes (shared/string.c, memsum.c, algo.h)\<close>

text \<open>
  Model of \<^verbatim>\<open>kern/lib/shared/string.c\<close>, \<^verbatim>\<open>memsum.c\<close> and the inline functions of
  \<^verbatim>\<open>include/shared/algo.h\<close>.  Memory is a total map from addresses to bytes; pointer
  arithmetic wraps.  A \<^verbatim>\<open>char\<close> is signed (x86), so a byte is sign extended where the code
  reads it into an \<^verbatim>\<open>int\<close>.  A loop that has no bound in the code is a partial function, with
  \<open>None\<close> for a run that does not end.
\<close>

type_synonym bytes = "u64 \<Rightarrow> u8"

subsection \<open>string.c\<close>

partial_function (option) strlen_loop :: "bytes \<Rightarrow> u64 \<Rightarrow> size_t \<Rightarrow> size_t option" where
  "strlen_loop m s result =
     (if m s \<noteq> 0 then strlen_loop m (s + 1) (result + 1) else Some result)"

definition strlen :: "bytes \<Rightarrow> u64 \<Rightarrow> size_t option" where
  "strlen m s = strlen_loop m s 0"

definition char_int :: "u8 \<Rightarrow> u32" where
  "char_int c = scast c"

partial_function (option) strchr :: "bytes \<Rightarrow> u64 \<Rightarrow> u32 \<Rightarrow> u64 option" where
  "strchr m str chr =
     (let c = char_int (m str)
      in if c \<noteq> chr then (if c = 0 then Some 0 else strchr m (str + 1) chr) else Some str)"

function memcpy_loop :: "bytes \<Rightarrow> u64 \<Rightarrow> u64 \<Rightarrow> size_t \<Rightarrow> bytes" where
  "memcpy_loop m pdest psrc n =
     (if n > 0 then memcpy_loop (m(pdest := m psrc)) (pdest + 1) (psrc + 1) (n - 1) else m)"
  by pat_completeness auto
termination
  by (relation "measure (\<lambda>(m, d, s, n). unat n)") (auto simp: measure_unat)

declare memcpy_loop.simps [simp del]

definition memcpy :: "bytes \<Rightarrow> u64 \<Rightarrow> u64 \<Rightarrow> size_t \<Rightarrow> bytes \<times> u64" where
  "memcpy m dest src n = (memcpy_loop m dest src n, dest)"

text \<open>
  \<^verbatim>\<open>memset\<close>: the byte loop, whose condition decrements \<^verbatim>\<open>len\<close> before it tests the remainder,
  and the loop over machine words.
\<close>

function memset_bytes :: "bytes \<Rightarrow> u64 \<Rightarrow> u8 \<Rightarrow> size_t \<Rightarrow> bytes \<times> u64 \<times> size_t" where
  "memset_bytes m ptr v len =
     (if len > 0 \<and> (len - 1) mod 8 > 0
      then memset_bytes (m(ptr := v)) (ptr + 1) v (len - 1)
      else (m, ptr, len - 1))"
  by pat_completeness auto
termination
  by (relation "measure (\<lambda>(m, p, v, len). unat len)") (auto simp: measure_unat)

declare memset_bytes.simps [simp del]

definition put_word :: "bytes \<Rightarrow> u64 \<Rightarrow> u8 \<Rightarrow> bytes" where
  "put_word m p v = (\<lambda>a. if a - p < 8 then v else m a)"

partial_function (option) memset_words :: "bytes \<Rightarrow> u64 \<Rightarrow> u8 \<Rightarrow> size_t \<Rightarrow> bytes option" where
  "memset_words m wptr v len =
     (if len > 0 then memset_words (put_word m wptr v) (wptr + 8) v (len - 8) else Some m)"

definition memset :: "bytes \<Rightarrow> u64 \<Rightarrow> u32 \<Rightarrow> size_t \<Rightarrow> (bytes \<times> u64) option" where
  "memset m dest val len = do {
     let v = (ucast val :: u8);
     let (m, ptr, len) = (if len mod 8 > 0 then memset_bytes m dest v len else (m, dest, len));
     m \<leftarrow> memset_words m ptr v len;
     Some (m, dest) }"

function strncmp_loop :: "bytes \<Rightarrow> u64 \<Rightarrow> u64 \<Rightarrow> size_t \<Rightarrow> u32 \<Rightarrow> u32 \<times> size_t" where
  "strncmp_loop m left right count cmp =
     (if cmp = 0 \<and> m left \<noteq> 0 \<and> m right \<noteq> 0 \<and> count > 0
      then strncmp_loop m (left + 1) (right + 1) (count - 1) (char_int (m left) - char_int (m right))
      else (cmp, count))"
  by pat_completeness auto
termination
  by (relation "measure (\<lambda>(m, l, r, count, c). unat count)") (auto simp: measure_unat)

declare strncmp_loop.simps [simp del]

definition strncmp :: "bytes \<Rightarrow> u64 \<Rightarrow> u64 \<Rightarrow> size_t \<Rightarrow> u32" where
  "strncmp m left right count =
     (let (cmp, count) = strncmp_loop m left right count 0
      in if cmp \<noteq> 0 then cmp else ucast count)"

subsection \<open>memsum.c\<close>

function memsum_loop :: "bytes \<Rightarrow> u64 \<Rightarrow> size_t \<Rightarrow> size_t \<Rightarrow> size_t" where
  "memsum_loop m bptr n acc =
     (if n > 0 then memsum_loop m (bptr + 1) (n - 1) (acc + ucast (m bptr)) else acc)"
  by pat_completeness auto
termination
  by (relation "measure (\<lambda>(m, p, n, s). unat n)") (auto simp: measure_unat)

declare memsum_loop.simps [simp del]

definition memsum :: "bytes \<Rightarrow> u64 \<Rightarrow> size_t \<Rightarrow> size_t" where
  "memsum m ptr n = memsum_loop m ptr n 0"

subsection \<open>algo.h\<close>

definition hash_uint64 :: "u64 \<Rightarrow> size_t" where
  "hash_uint64 h =
     (let h = h XOR drop_bit 33 h;
          h = h * 0xFF51AFD7ED558CCD;
          h = h XOR drop_bit 33 h;
          h = h * 0xC4CEB9FE1A85EC53;
          h = h XOR drop_bit 33 h
      in h)"

partial_function (option) hash_str_loop :: "bytes \<Rightarrow> u64 \<Rightarrow> size_t \<Rightarrow> size_t option" where
  "hash_str_loop m s h =
     (if m s \<noteq> 0
      then hash_str_loop m s (let h = (h XOR scast (m s)) * 0x5BD1E9955BD1E995 in h XOR drop_bit 47 h)
      else Some h)"

definition hash_str :: "bytes \<Rightarrow> u64 \<Rightarrow> size_t option" where
  "hash_str m s = hash_str_loop m s 525201411107845655"

definition getbyte :: "'a::len word \<Rightarrow> nat \<Rightarrow> 'a word" where
  "getbyte i n = drop_bit (n * 8) i AND 0xFF"

subsection \<open>Regions of memory\<close>

text \<open>The address \<open>a\<close> lies in the \<open>n\<close> bytes from \<open>p\<close> on (addresses wrap).\<close>

definition in_region :: "u64 \<Rightarrow> u64 \<Rightarrow> nat \<Rightarrow> bool" where
  "in_region a p n \<longleftrightarrow> unat (a - p) < n"

lemma in_region_0 [simp]: "\<not> in_region a p 0"
  by (simp add: in_region_def)

lemma offset_Suc: "a \<noteq> p \<Longrightarrow> unat (a - p) = Suc (unat (a - (p + 1)))" for a p :: u64
proof -
  assume "a \<noteq> p"
  then have "0 < a - p" by (simp add: word_gt_0)
  moreover have e: "a - (p + 1) = a - p - 1" by simp
  ultimately have "unat (a - p - 1) = unat (a - p) - 1" "0 < unat (a - p)"
    using unat_pred [of "a - p"] by (auto simp: unat_gt_0)
  then show ?thesis unfolding e by linarith
qed

lemma in_region_Suc: "in_region a p (Suc n) \<longleftrightarrow> a = p \<or> in_region a (p + 1) n"
  by (cases "a = p") (auto simp: in_region_def offset_Suc)

lemma unat_Suc_pred: "0 < (n :: size_t) \<Longrightarrow> unat n = Suc (unat (n - 1))"
  using unat_pred [of n] unat_gt_0 [of n] by simp

lemma in_region_add8:
  assumes "8 \<le> n" shows "in_region a p n \<longleftrightarrow> a - p < 8 \<or> in_region a (p + 8) (n - 8)"
proof (cases "a - p < 8")
  case True
  then have "unat (a - p) < 8" by (simp add: word_less_nat_alt)
  with assms True show ?thesis by (auto simp: in_region_def)
next
  case False
  then have "8 \<le> a - p" by simp
  have e: "a - (p + 8) = (a - p) - 8" by simp
  have "unat (a - (p + 8)) = unat (a - p) - 8" "8 \<le> unat (a - p)"
    unfolding e using unat_sub [of 8 "a - p"] \<open>8 \<le> a - p\<close> by (simp_all add: word_le_nat_alt)
  with False assms show ?thesis by (auto simp: in_region_def)
qed

lemma regions_apart:
  assumes "unat p + n \<le> unat q" "unat q + k \<le> 2 ^ 64" "in_region a q k"
  shows "\<not> in_region a p n"
proof -
  have "unat (q + (a - q)) = unat q + unat (a - q)"
    using assms(2,3) by (intro unat_add_no_overflow) (simp add: in_region_def)
  then have a: "unat a = unat q + unat (a - q)" by simp
  then have "p \<le> a" using assms(1) by (simp add: word_le_nat_alt)
  then have "unat (a - p) = unat a - unat p" by (simp add: unat_sub)
  then show ?thesis using a assms(1) by (simp add: in_region_def)
qed

subsection \<open>Filling and copying\<close>

lemma mod8_pos: "len mod 8 > 0 \<longleftrightarrow> 0 < unat len mod 8" for len :: size_t
proof -
  have "unat (len mod 8) = unat len mod 8" by (simp add: unat_mod)
  then show ?thesis by (metis unat_gt_0 word_gt_0)
qed

lemma memset_bytes_step:
  "0 < len \<Longrightarrow> 0 < unat (len - 1) mod 8
   \<Longrightarrow> memset_bytes m p v len = memset_bytes (m(p := v)) (p + 1) v (len - 1)"
  by (simp add: memset_bytes.simps [of m p v len] mod8_pos)

lemma memset_bytes_stop:
  "unat (len - 1) mod 8 = 0 \<Longrightarrow> memset_bytes m p v len = (m, p, len - 1)"
  by (simp add: memset_bytes.simps [of m p v len] mod8_pos)

lemma memset_bytes_spec:
  "0 < len \<Longrightarrow> unat len mod 8 = Suc q \<Longrightarrow>
   \<exists>len'. unat len' = unat len - Suc q \<and>
     memset_bytes m p v len = ((\<lambda>a. if in_region a p q then v else m a), p + of_nat q, len')"
proof (induction q arbitrary: m p len)
  case 0
  have len: "unat len = Suc (unat (len - 1))" using 0(1) by (rule unat_Suc_pred)
  then have "unat (len - 1) mod 8 = 0" using 0(2) by presburger
  then show ?case using len memset_bytes_stop [of len m p v] by auto
next
  case (Suc q)
  have len: "unat len = Suc (unat (len - 1))" using Suc.prems(1) by (rule unat_Suc_pred)
  then have md: "unat (len - 1) mod 8 = Suc q" using Suc.prems(2) by (simp add: mod_Suc split: if_splits)
  have "unat (len - 1) \<noteq> 0" using md by (cases "unat (len - 1) = 0") simp_all
  then have pos: "0 < len - 1" unfolding word_pos_iff by linarith
  obtain len' where l: "unat len' = unat (len - 1) - Suc q"
    "memset_bytes (m(p := v)) (p + 1) v (len - 1)
      = ((\<lambda>a. if in_region a (p + 1) q then v else (m(p := v)) a), p + 1 + of_nat q, len')"
    using Suc.IH [OF pos md] by blast
  have fn: "(\<lambda>a. if in_region a (p + 1) q then v else (m(p := v)) a)
      = (\<lambda>a. if in_region a p (Suc q) then v else m a)"
    by (auto simp: fun_eq_iff in_region_Suc)
  have pq: "p + 1 + of_nat q = p + of_nat (Suc q)" by simp
  have "memset_bytes m p v len = ((\<lambda>a. if in_region a p (Suc q) then v else m a), p + of_nat (Suc q), len')"
    using memset_bytes_step [OF Suc.prems(1), of m p v] l(2) md unfolding fn pq by simp
  then show ?case using l(1) len by auto
qed

lemma memset_words_step:
  "0 < len \<Longrightarrow> memset_words m p v len = memset_words (put_word m p v) (p + 8) v (len - 8)"
  by (subst memset_words.simps) (rule if_P)

lemma memset_words_0: "memset_words m p v 0 = Some m"
  by (subst memset_words.simps) simp

lemma memset_words_spec8:
  "unat len = 8 * k \<Longrightarrow> memset_words m p v len = Some (\<lambda>a. if in_region a p (8 * k) then v else m a)"
proof (induction k arbitrary: m p len)
  case 0
  then have "len = 0" by (metis mult_0_right unat_eq_zero)
  then show ?case by (simp add: memset_words_0)
next
  case (Suc k)
  have "8 \<le> len" using Suc.prems by (simp add: word_le_nat_alt)
  then have len8: "unat (len - 8) = 8 * k" using unat_sub [of 8 len] Suc.prems by simp
  have "len > 0" using Suc.prems by (auto simp: word_gt_0)
  then have "memset_words m p v len = Some (\<lambda>a. if in_region a (p + 8) (8 * k) then v else put_word m p v a)"
    using Suc.IH [OF len8] memset_words_step by metis
  moreover have "in_region a p (8 * Suc k) \<longleftrightarrow> a - p < 8 \<or> in_region a (p + 8) (8 * k)" for a
    using in_region_add8 [of "8 * Suc k" a p] by simp
  ultimately show ?case by (auto simp: put_word_def fun_eq_iff)
qed

lemma memset_words_spec:
  "8 dvd unat len \<Longrightarrow> memset_words m p v len = Some (\<lambda>a. if in_region a p (unat len) then v else m a)"
  by (erule dvdE) (simp add: memset_words_spec8)

lemma memset_spec:
  "memset m dest val len = Some (\<lambda>a. if in_region a dest (if unat len mod 8 = 0 then unat len else unat len - 1)
     then ucast val else m a, dest)"
proof (cases "unat len mod 8 = 0")
  case True
  then have "\<not> len mod 8 > 0" by (simp add: mod8_pos)
  with True show ?thesis using memset_words_spec [of len] by (simp add: memset_def mod_eq_0_iff_dvd)
next
  case False
  then have md: "len mod 8 > 0" by (simp add: mod8_pos)
  then have pos: "0 < len" by (auto simp: word_gt_0)
  define r where "r = unat len mod 8"
  then have "unat len mod 8 = Suc (r - 1)" using False by simp
  from memset_bytes_spec [OF pos this, of m dest "ucast val"] obtain m1 p1 l1 where
    b: "memset_bytes m dest (ucast val) len = (m1, p1, l1)"
    and s: "unat l1 = unat len - r" "p1 = dest + of_nat (r - 1)"
      "m1 = (\<lambda>a. if in_region a dest (r - 1) then ucast val else m a)"
    using False by (auto simp: r_def)
  have "8 dvd unat l1" unfolding s(1) r_def by (simp add: dvd_minus_mod)
  then have w: "memset_words m1 p1 (ucast val) l1 = Some (\<lambda>a. if in_region a p1 (unat l1) then ucast val else m1 a)"
    by (rule memset_words_spec)
  have "in_region a p1 (unat l1) \<or> in_region a dest (r - 1) \<longleftrightarrow> in_region a dest (unat len - 1)" for a
  proof (cases "in_region a dest (r - 1)")
    case True
    moreover have "r - 1 \<le> unat len - 1" by (simp add: r_def)
    ultimately show ?thesis by (auto simp: in_region_def)
  next
    case False
    have r8: "r - 1 < 8" by (simp add: r_def)
    have ge: "of_nat (r - 1) \<le> a - dest"
      using False r8 by (simp add: in_region_def word_le_nat_alt unat_of_nat)
    have e: "a - p1 = (a - dest) - of_nat (r - 1)" unfolding s(2) by simp
    have "unat (a - p1) = unat (a - dest) - (r - 1)"
      unfolding e using unat_sub [OF ge] r8 by (simp add: unat_of_nat)
    moreover have "r \<le> unat len" "0 < r" using \<open>unat len mod 8 \<noteq> 0\<close> by (simp_all add: r_def)
    ultimately show ?thesis
      using False s(1) by (auto simp: in_region_def)
  qed
  then have "(\<lambda>a. if in_region a p1 (unat l1) then ucast val else m1 a)
      = (\<lambda>a. if in_region a dest (unat len - 1) then ucast val else m a)"
    unfolding s(3) by (auto simp: fun_eq_iff)
  with w b md False show ?thesis by (simp add: memset_def)
qed

text \<open>\<^verbatim>\<open>memset\<close> returns for every length.  It fills the region when the length is a
  multiple of the word size; otherwise the condition of its byte loop drops one byte, and the
  last byte of the region keeps its value.\<close>

theorem memset_fills:
  "memset m dest val len = Some (\<lambda>a. if in_region a dest (if unat len mod 8 = 0 then unat len else unat len - 1)
     then ucast val else m a, dest)"
  by (rule memset_spec)

lemma memcpy_loop_spec:
  "memcpy_loop m d s n = m' \<Longrightarrow> (\<forall>a. in_region a d (unat n) \<longrightarrow> \<not> in_region a s (unat n)) \<Longrightarrow>
   m' = (\<lambda>a. if in_region a d (unat n) then m (s + (a - d)) else m a)"
proof (induction m d s n rule: memcpy_loop.induct)
  case (1 m d s n)
  show ?case
  proof (cases "n > 0")
    case True
    then have n: "unat n = Suc (unat (n - 1))" by (rule unat_Suc_pred)
    have rec: "memcpy_loop (m(d := m s)) (d + 1) (s + 1) (n - 1) = m'"
      using True 1(2) by (simp add: memcpy_loop.simps [of m d s n])
    have apart: "\<forall>a. in_region a (d + 1) (unat (n - 1)) \<longrightarrow> \<not> in_region a (s + 1) (unat (n - 1))"
      using 1(3) unfolding n by (auto simp: in_region_Suc)
    have d: "\<not> in_region d (s + 1) (unat (n - 1))"
      using 1(3) unfolding n by (auto simp: in_region_Suc)
    have src: "(s + 1) + (a - (d + 1)) = s + (a - d)" for a by simp
    have hit: "in_region (s + (a - d)) (s + 1) (unat (n - 1))" if "in_region a (d + 1) (unat (n - 1))" for a
    proof -
      have e: "s + (a - d) - (s + 1) = a - (d + 1)" by simp
      show ?thesis using that unfolding in_region_def e .
    qed
    have ne: "(m(d := m s)) (s + (a - d)) = m (s + (a - d))" if "in_region a (d + 1) (unat (n - 1))" for a
      using hit [OF that] d by (metis fun_upd_apply)
    have "m' = (\<lambda>a. if in_region a (d + 1) (unat (n - 1)) then (m(d := m s)) ((s + 1) + (a - (d + 1)))
        else (m(d := m s)) a)"
      by (rule 1(1) [OF True rec apart])
    then show ?thesis
      unfolding n src using ne by (auto simp: fun_eq_iff in_region_Suc)
  next
    case False
    then have "memcpy_loop m d s n = m" by (subst memcpy_loop.simps) simp
    moreover have "unat n = 0" using False by (simp add: word_gt_0)
    ultimately show ?thesis using 1(2) by simp
  qed
qed

text \<open>\<^verbatim>\<open>memcpy\<close> between disjoint regions copies every byte, changes nothing outside the
  destination and returns the destination.\<close>

theorem memcpy_copies:
  assumes "\<forall>a. in_region a dest (unat n) \<longrightarrow> \<not> in_region a src (unat n)"
  shows "memcpy m dest src n = ((\<lambda>a. if in_region a dest (unat n) then m (src + (a - dest)) else m a), dest)"
  using memcpy_loop_spec [OF refl assms] by (simp add: memcpy_def)

theorem memcpy_copies_witness:
  "memcpy (\<lambda>a. ucast a) 100 8 3 =
    ((\<lambda>a. if in_region a 100 (unat (3 :: size_t)) then ucast (8 + (a - 100)) else ucast a), 100)"
proof (rule memcpy_copies, intro allI impI)
  fix a :: u64
  assume "in_region a 100 (unat (3 :: size_t))"
  then have lt: "unat (a - 100) < 3" by (simp add: in_region_def)
  have "a - 8 = (a - 100) + 92" by simp
  moreover have "unat ((a - 100) + (92 :: u64)) = unat (a - 100) + unat (92 :: u64)"
    using lt by (intro unat_add_no_overflow) simp
  ultimately have "unat (a - 8) = unat (a - 100) + 92" by simp
  then show "\<not> in_region a 8 (unat (3 :: size_t))" by (simp add: in_region_def)
qed

subsection \<open>Comparing and measuring strings\<close>

lemma ucast_char_int: "(ucast (char_int c) :: u8) = c"
  unfolding char_int_def by (rule bit_word_eqI) (auto simp: bit_simps)

lemma char_int_inj: "char_int a = char_int b \<longleftrightarrow> a = b"
  by (metis ucast_char_int)

lemma char_int_0 [simp]: "char_int c = 0 \<longleftrightarrow> c = 0"
proof -
  have "char_int 0 = 0" by (simp add: char_int_def)
  then show ?thesis by (metis char_int_inj)
qed

text \<open>\<^verbatim>\<open>strncmp\<close> answers zero exactly when the first \<open>count\<close> bytes are pairwise equal and
  none of them is the terminator: two equal strings shorter than \<open>count\<close> compare as
  different, since the result is then the rest of the count.\<close>

lemma strncmp_step:
  "0 < count \<Longrightarrow> m l = m r \<Longrightarrow> m l \<noteq> 0 \<Longrightarrow>
   strncmp_loop m l r count 0 = strncmp_loop m (l + 1) (r + 1) (count - 1) 0"
  by (subst strncmp_loop.simps) simp

lemma strncmp_loop_zero:
  "(let (cmp, rest) = strncmp_loop m l r count 0 in cmp = 0 \<and> rest = 0) \<longleftrightarrow>
   (\<forall>k < unat count. m (l + of_nat k) = m (r + of_nat k) \<and> m (l + of_nat k) \<noteq> 0)"
proof (induction "unat count" arbitrary: l r count)
  case 0
  then have "count = 0" by (metis unat_eq_zero)
  then show ?case by (simp add: strncmp_loop.simps)
next
  case (Suc n)
  have pos: "0 < count" using Suc.hyps(2) by (simp add: word_pos_iff)
  have n: "unat (count - 1) = n" using Suc.hyps(2) unat_Suc_pred [OF pos] by simp
  have all: "(\<forall>k < unat count. m (l + of_nat k) = m (r + of_nat k) \<and> m (l + of_nat k) \<noteq> 0) \<longleftrightarrow>
      m l = m r \<and> m l \<noteq> 0 \<and> (\<forall>k < n. m (l + 1 + of_nat k) = m (r + 1 + of_nat k) \<and> m (l + 1 + of_nat k) \<noteq> 0)"
    unfolding Suc.hyps(2) [symmetric] by (auto simp: less_Suc_eq_0_disj add.assoc)
  consider "m l = 0 \<or> m r = 0" | "m l \<noteq> 0" "m r \<noteq> 0" "m l \<noteq> m r" | "m l \<noteq> 0" "m l = m r" by auto
  then show ?case
  proof cases
    case 1
    then have "strncmp_loop m l r count 0 = (0, count)" by (subst strncmp_loop.simps) auto
    then show ?thesis unfolding all using 1 pos by auto
  next
    case 2
    then have nz: "char_int (m l) - char_int (m r) \<noteq> 0" by (simp add: char_int_inj)
    have "strncmp_loop m l r count 0 = strncmp_loop m (l + 1) (r + 1) (count - 1) (char_int (m l) - char_int (m r))"
      using 2 pos by (subst strncmp_loop.simps) simp
    also have "\<dots> = (char_int (m l) - char_int (m r), count - 1)"
      using nz by (subst strncmp_loop.simps) simp
    finally show ?thesis unfolding all using 2 nz by simp
  next
    case 3
    then show ?thesis
      unfolding all strncmp_step [OF pos 3(2) 3(1)] using Suc.hyps(1) [of "count - 1" "l + 1" "r + 1"] n by simp
  qed
qed

lemma strncmp_loop_count: "unat (snd (strncmp_loop m l r count c)) \<le> unat count"
proof (induction m l r count c rule: strncmp_loop.induct)
  case (1 m l r count c)
  show ?case
  proof (cases "c = 0 \<and> m l \<noteq> 0 \<and> m r \<noteq> 0 \<and> count > 0")
    case True
    then have "unat (count - 1) \<le> unat count" using unat_Suc_pred [of count] by simp
    moreover have "strncmp_loop m l r count c
        = strncmp_loop m (l + 1) (r + 1) (count - 1) (char_int (m l) - char_int (m r))"
      using True by (subst strncmp_loop.simps) simp
    ultimately show ?thesis using 1 [OF True] by simp
  next
    case False
    then have "strncmp_loop m l r count c = (c, count)" by (subst strncmp_loop.simps) auto
    then show ?thesis by simp
  qed
qed

text \<open>\<^verbatim>\<open>strncmp\<close> answers zero exactly when the first \<open>count\<close> bytes are pairwise equal and
  none of them is the terminator: two equal strings shorter than \<open>count\<close> compare as
  different, since the result is then the rest of the count.\<close>

theorem strncmp_zero_iff:
  assumes "count < 2 ^ 32"
  shows "strncmp m l r count = 0 \<longleftrightarrow>
    (\<forall>k < unat count. m (l + of_nat k) = m (r + of_nat k) \<and> m (l + of_nat k) \<noteq> 0)"
proof -
  obtain c rest where p: "strncmp_loop m l r count 0 = (c, rest)" by fastforce
  have "unat count < 2 ^ 32" using assms by (simp add: word_less_nat_alt)
  then have "unat rest < 2 ^ 32" using strncmp_loop_count [of m l r count 0] p by simp
  moreover have "unat (ucast rest :: u32) = unat rest mod 2 ^ 32"
    by (simp add: unsigned_ucast_eq take_bit_eq_mod)
  ultimately have "(ucast rest :: u32) = 0 \<longleftrightarrow> rest = 0"
    by (metis mod_less unat_eq_zero)
  then show ?thesis using strncmp_loop_zero [of m l r count] p by (auto simp: strncmp_def)
qed

text \<open>A string in memory.\<close>

fun cstr :: "bytes \<Rightarrow> u64 \<Rightarrow> u8 list \<Rightarrow> bool" where
  "cstr m p [] \<longleftrightarrow> m p = 0"
| "cstr m p (c # cs) \<longleftrightarrow> c \<noteq> 0 \<and> m p = c \<and> cstr m (p + 1) cs"

lemma strlen_loop_cstr: "cstr m p cs \<Longrightarrow> strlen_loop m p n = Some (n + of_nat (length cs))"
proof (induction cs arbitrary: p n)
  case Nil
  then show ?case by (simp add: strlen_loop.simps)
next
  case (Cons c cs)
  then show ?case by (subst strlen_loop.simps) (simp add: add.assoc add.commute)
qed

lemma strlen_cstr: "cstr m p cs \<Longrightarrow> strlen m p = Some (of_nat (length cs))"
  using strlen_loop_cstr [of m p cs 0] by (simp add: strlen_def)

lemma strchr_cstr:
  "cstr m p cs \<Longrightarrow> strchr m p (char_int c)
    = Some (if c \<in> set cs \<or> c = 0 then p + of_nat (length (takeWhile (\<lambda>x. x \<noteq> c) cs)) else 0)"
proof (induction cs arbitrary: p)
  case Nil
  then show ?case by (subst strchr.simps) (auto simp: Let_def char_int_inj)
next
  case (Cons x xs)
  then show ?case by (subst strchr.simps) (auto simp: Let_def char_int_inj)
qed

text \<open>\<^verbatim>\<open>strlen\<close> and \<^verbatim>\<open>strchr\<close> end on a terminated string; they return its length, and the
  address of the first occurrence of the character (the terminator counts) or null.\<close>

theorem string_search:
  assumes "cstr m p cs"
  shows "strlen m p = Some (of_nat (length cs)) \<and>
    strchr m p (char_int c) = Some (if c \<in> set cs \<or> c = 0 then p + of_nat (length (takeWhile (\<lambda>x. x \<noteq> c) cs)) else 0)"
  using strlen_cstr [OF assms] strchr_cstr [OF assms] by blast

definition demo_mem :: bytes where
  "demo_mem = (\<lambda>a. if a = 16 then 72 else if a = 17 then 105 else if a = 32 then 72 else if a = 33 then 105 else 0)"

theorem string_search_witness:
  "strlen demo_mem 16 = Some (of_nat (length [72, 105 :: u8])) \<and>
   strchr demo_mem 16 (char_int 105)
     = Some (if 105 \<in> set [72, 105 :: u8] \<or> (105 :: u8) = 0
             then 16 + of_nat (length (takeWhile (\<lambda>x. x \<noteq> 105) [72, 105 :: u8])) else 0)"
  by (rule string_search) (simp add: demo_mem_def)

theorem strncmp_zero_iff_witness:
  "\<not> strncmp demo_mem 16 32 32 = 0"
proof -
  have "strncmp demo_mem 16 32 32 = 0 \<longleftrightarrow>
    (\<forall>k < unat (32 :: size_t). demo_mem (16 + of_nat k) = demo_mem (32 + of_nat k) \<and> demo_mem (16 + of_nat k) \<noteq> 0)"
    by (rule strncmp_zero_iff) simp
  moreover have "demo_mem (16 + of_nat 2) = 0" by (simp add: demo_mem_def)
  moreover have "2 < unat (32 :: size_t)" by simp
  ultimately show ?thesis by blast
qed

subsection \<open>Hashing\<close>

definition xorshift :: "u64 \<Rightarrow> u64" where
  "xorshift h = h XOR drop_bit 33 h"

lemma xorshift_involution: "xorshift (xorshift h) = h"
  unfolding xorshift_def by (rule bit_word_eqI) (auto simp: bit_simps)

lemma hash_uint64_stages:
  "hash_uint64 h = xorshift (xorshift (xorshift h * 0xFF51AFD7ED558CCD) * 0xC4CEB9FE1A85EC53)"
  by (simp only: hash_uint64_def xorshift_def Let_def)

definition unhash_uint64 :: "u64 \<Rightarrow> u64" where
  "unhash_uint64 h = xorshift (xorshift (xorshift h * 11291846944257947611) * 5725274745694666757)"

lemma odd_inverses:
  "(h :: u64) * 0xFF51AFD7ED558CCD * 5725274745694666757 = h" "(h :: u64) * 0xC4CEB9FE1A85EC53 * 11291846944257947611 = h"
  "(h :: u64) * 5725274745694666757 * 0xFF51AFD7ED558CCD = h" "(h :: u64) * 11291846944257947611 * 0xC4CEB9FE1A85EC53 = h"
proof -
  have 1: "(0xFF51AFD7ED558CCD :: u64) * 5725274745694666757 = 1" by simp
  have 2: "(0xC4CEB9FE1A85EC53 :: u64) * 11291846944257947611 = 1" by simp
  show "h * 0xFF51AFD7ED558CCD * 5725274745694666757 = h" "h * 0xC4CEB9FE1A85EC53 * 11291846944257947611 = h"
    unfolding mult.assoc 1 2 by (rule mult_1_right)+
  show "h * 5725274745694666757 * 0xFF51AFD7ED558CCD = h" "h * 11291846944257947611 * 0xC4CEB9FE1A85EC53 = h"
    unfolding mult.assoc mult.commute [of 5725274745694666757 "0xFF51AFD7ED558CCD"] mult.commute [of 11291846944257947611 "0xC4CEB9FE1A85EC53"] 1 2
    by (rule mult_1_right)+
qed

text \<open>C15: \<^verbatim>\<open>hash_uint64\<close> is a bijection of the 64-bit words with an explicit inverse, so two keys
  of the page table, the inode map or the descriptor table never have the same full hash.\<close>

theorem hash_uint64_bijective:
  "unhash_uint64 (hash_uint64 h) = h \<and> hash_uint64 (unhash_uint64 h) = h"
  unfolding hash_uint64_stages unhash_uint64_def by (simp only: xorshift_involution odd_inverses)

text \<open>C16: \<^verbatim>\<open>hash_str\<close> never advances its pointer: it returns on the empty string only.\<close>

theorem hash_str_returns_iff:
  "(\<exists>h. hash_str m s = Some h) \<longleftrightarrow> m s = 0"
proof
  have "hash_str_loop m s h = Some r \<Longrightarrow> m s = 0" for h r
    by (rule hash_str_loop.raw_induct [where P = "\<lambda>m s h r. m s = 0"]) (auto split: if_splits)
  then show "\<exists>h. hash_str m s = Some h \<Longrightarrow> m s = 0" by (auto simp: hash_str_def)
  show "m s = 0 \<Longrightarrow> \<exists>h. hash_str m s = Some h" by (simp add: hash_str_def hash_str_loop.simps)
qed

lemma memsum_loop_sum:
  "memsum_loop m p n acc = acc + (\<Sum>k < unat n. ucast (m (p + of_nat k)))"
proof (induction "unat n" arbitrary: p n acc)
  case 0
  then have "n = 0" by (metis unat_eq_zero)
  then show ?case by (simp add: memsum_loop.simps)
next
  case (Suc k)
  have pos: "0 < n" using Suc.hyps(2) by (simp add: word_pos_iff)
  have n1: "unat (n - 1) = k" using Suc.hyps(2) unat_Suc_pred [OF pos] by simp
  have "memsum_loop m p n acc = memsum_loop m (p + 1) (n - 1) (acc + ucast (m p))"
    using pos by (subst memsum_loop.simps) simp
  also have "\<dots> = acc + ucast (m p) + (\<Sum>i < k. ucast (m (p + 1 + of_nat i)))"
    using Suc.hyps(1) [of "n - 1" "p + 1" "acc + ucast (m p)"] n1 by simp
  also have "\<dots> = acc + (\<Sum>i < Suc k. ucast (m (p + of_nat i)))"
    unfolding sum.lessThan_Suc_shift by (simp add: add.assoc)
  finally show ?case using Suc.hyps(2) by simp
qed

text \<open>\<^verbatim>\<open>memsum\<close>, the checksum of the firmware tables, is the sum of the bytes of the region
  modulo the word size.\<close>

theorem memsum_is_sum: "memsum m p n = (\<Sum>k < unat n. ucast (m (p + of_nat k)))"
  by (simp add: memsum_def memsum_loop_sum)

lemma memcpy_elsewhere: "\<not> in_region a d (unat n) \<Longrightarrow> fst (memcpy m d s n) a = m a"
  unfolding memcpy_def fst_conv
proof (induction m d s n rule: memcpy_loop.induct)
  case (1 m d s n)
  show ?case
  proof (cases "n > 0")
    case True
    then have n: "unat n = Suc (unat (n - 1))" by (rule unat_Suc_pred)
    have "a \<noteq> d" "\<not> in_region a (d + 1) (unat (n - 1))" using 1(2) unfolding n by (auto simp: in_region_Suc)
    then show ?thesis using 1(1) [OF True] True by (simp add: memcpy_loop.simps [of m d s n] fun_upd_def)
  qed (simp add: memcpy_loop.simps [of m d s n])
qed

end
