(* ===== verification/Bitmap.thy ===== *)
theory Bitmap
  imports Prelude
begin

unbundle bit_operations_syntax

section \<open>The bitmap (util/bitmap.c)\<close>

text \<open>
  Model of \<^verbatim>\<open>kern/lib/util/bitmap.c\<close> and \<^verbatim>\<open>include/kern/util/bitmap.h\<close>.  A bitmap is its header
  and the array of machine words behind it; reading or writing a word outside that array
  is the fault \<open>None\<close>.  Bit indices and counts are \<^verbatim>\<open>size_t\<close> words and wrap as in C.
  The abstract view is the sequence of bits \<open>bit_at bm i\<close> for \<open>i\<close> below the bit count.
\<close>

subsection \<open>Operations\<close>

record bitmap =
  bitcount :: size_t
  bufsize :: size_t
  bits :: "size_t list"

definition BITMAP_NPOS :: size_t where
  "BITMAP_NPOS = -1"

definition ELEM_BITS :: size_t where
  "ELEM_BITS = 8 * 8"

definition div_rnd_up :: "size_t \<Rightarrow> size_t \<Rightarrow> size_t" where
  "div_rnd_up n d = (n + d - 1) div d"

definition bitmap_bufsize :: "size_t \<Rightarrow> size_t" where
  "bitmap_bufsize nbits = div_rnd_up nbits 8"

definition bit_to_elem :: "size_t \<Rightarrow> size_t" where
  "bit_to_elem bit_index = bit_index div ELEM_BITS"

definition bitmap_mask :: "size_t \<Rightarrow> size_t" where
  "bitmap_mask bit_index = push_bit (unat (bit_index mod ELEM_BITS)) 1"

text \<open>\<^verbatim>\<open>*bitmap_elem(bm, i)\<close> read, and written.\<close>

definition bitmap_elem :: "bitmap \<Rightarrow> size_t \<Rightarrow> size_t option" where
  "bitmap_elem bm i =
     (let k = unat (bit_to_elem i) in if k < length (bits bm) then Some (bits bm ! k) else None)"

definition bitmap_elem_put :: "bitmap \<Rightarrow> size_t \<Rightarrow> size_t \<Rightarrow> bitmap" where
  "bitmap_elem_put bm i w = bm\<lparr>bits := (bits bm)[unat (bit_to_elem i) := w]\<rparr>"

text \<open>
  \<^verbatim>\<open>bitmap_create\<close> gets a zeroed block from \<^verbatim>\<open>kmalloc\<close>.  A block is a power of two of at
  least 16 bytes, so the word that holds the last bits is inside it even where the byte
  size \<open>bufsize\<close> is not a multiple of eight.
\<close>

definition bitmap_create :: "size_t \<Rightarrow> bitmap" where
  "bitmap_create nbits =
     (let sz = bitmap_bufsize nbits
      in \<lparr>bitcount = nbits, bufsize = sz, bits = replicate (unat (div_rnd_up sz 8)) 0\<rparr>)"

text \<open>\<^verbatim>\<open>bitmap_create_buffer\<close> writes the header only; the words behind it keep their contents.\<close>

definition bitmap_create_buffer :: "size_t \<Rightarrow> size_t list \<Rightarrow> size_t \<Rightarrow> bitmap" where
  "bitmap_create_buffer nbits buf sz = \<lparr>bitcount = nbits, bufsize = sz, bits = buf\<rparr>"

definition bitmap_size :: "bitmap \<Rightarrow> size_t" where
  "bitmap_size bm = bitcount bm"

definition bitmap_test :: "bitmap \<Rightarrow> size_t \<Rightarrow> bool option" where
  "bitmap_test bm i = do { w \<leftarrow> bitmap_elem bm i; Some (w AND bitmap_mask i \<noteq> 0) }"

function bitmap_set :: "bitmap \<Rightarrow> size_t \<Rightarrow> size_t \<Rightarrow> bool \<Rightarrow> bitmap option" where
  "bitmap_set bm start nbits b =
     (if start < bitcount bm \<and> nbits > 0
      then (case bitmap_elem bm start of
              None \<Rightarrow> None
            | Some w \<Rightarrow>
                let mask = bitmap_mask start
                in bitmap_set (bitmap_elem_put bm start (if b then w OR mask else w AND NOT mask))
                     (start + 1) (nbits - 1) b)
      else Some bm)"
  by pat_completeness auto
termination
  by (relation "measure (\<lambda>(bm, start, nbits, b). unat nbits)")
    (auto simp: measure_unat word_gt_0)

function bitmap_flip :: "bitmap \<Rightarrow> size_t \<Rightarrow> size_t \<Rightarrow> bitmap option" where
  "bitmap_flip bm start nbits =
     (if start < bitcount bm \<and> nbits > 0
      then (case bitmap_elem bm start of
              None \<Rightarrow> None
            | Some w \<Rightarrow>
                bitmap_flip (bitmap_elem_put bm start (w XOR bitmap_mask start)) (start + 1) (nbits - 1))
      else Some bm)"
  by pat_completeness auto
termination
  by (relation "measure (\<lambda>(bm, start, nbits). unat nbits)") (auto simp: measure_unat word_gt_0)

declare bitmap_set.simps [simp del] bitmap_flip.simps [simp del]

text \<open>The inner loop of \<^verbatim>\<open>bitmap_scan\<close>: the number of bits equal to \<open>b\<close> from \<open>start\<close> on.\<close>

function scan_run :: "bitmap \<Rightarrow> size_t \<Rightarrow> size_t \<Rightarrow> bool \<Rightarrow> size_t \<Rightarrow> size_t option" where
  "scan_run bm start nbits b bits_scanned =
     (if start + bits_scanned < bitcount bm \<and> bits_scanned < nbits
      then (case bitmap_test bm (start + bits_scanned) of
              None \<Rightarrow> None
            | Some t \<Rightarrow> if t = b then scan_run bm start nbits b (bits_scanned + 1)
                        else Some bits_scanned)
      else Some bits_scanned)"
  by pat_completeness auto
termination
proof (relation "measure (\<lambda>(bm, start, nbits, b, k). unat nbits - unat k)")
qed (auto simp: unat_plus_one word_less_nat_alt)

declare scan_run.simps [simp del]

lemma scan_run_bound:
  "scan_run bm start nbits b k = Some r \<Longrightarrow> unat start + unat k \<le> unat (bitcount bm)
   \<Longrightarrow> unat start + unat r \<le> unat (bitcount bm)"
proof (induction bm start nbits b k rule: scan_run.induct)
  case (1 bm start nbits b k)
  show ?case
  proof (cases "start + k < bitcount bm \<and> k < nbits \<and> bitmap_test bm (start + k) = Some b")
    case True
    then have "unat start + unat (k + 1) \<le> unat (bitcount bm)"
      using unat_add_le_bound [of start k "bitcount bm"] 1(3)
      by (auto simp: unat_plus_one word_less_nat_alt)
    with True 1 show ?thesis by (auto simp: scan_run.simps [of bm start nbits b k])
  next
    case False
    with 1(2,3) show ?thesis
      by (auto simp: scan_run.simps [of bm start nbits b k] split: if_splits option.splits)
  qed
qed

lemma scan_skip:
  assumes "start < bitcount bm" "scan_run bm start nbits b 0 = Some k"
  shows "unat (start + max k 1) = unat start + unat (max k 1)"
    "unat start + unat (max k 1) \<le> unat (bitcount bm)" "0 < unat (max k (1 :: size_t))"
proof -
  have "unat start + unat k \<le> unat (bitcount bm)"
    using scan_run_bound [OF assms(2)] assms(1) by (simp add: word_less_nat_alt)
  then show le: "unat start + unat (max k 1) \<le> unat (bitcount bm)"
    using assms(1) by (auto simp: max_def word_less_nat_alt)
  then show "unat (start + max k 1) = unat start + unat (max k 1)"
    by (rule unat_add_le_bound)
  show "0 < unat (max k (1 :: size_t))"
    by (auto simp: max_def word_le_nat_alt)
qed

lemma scan_skip_decreases:
  assumes "start < bitcount bm" "scan_run bm start nbits b 0 = Some k"
  shows "unat (bitcount bm) - unat (start + max k 1) < unat (bitcount bm) - unat start"
  using scan_skip [OF assms] by linarith

text \<open>The outer loop: \<^verbatim>\<open>start\<close> skips the bits that the inner loop has seen, at least one.\<close>

function bitmap_scan :: "bitmap \<Rightarrow> size_t \<Rightarrow> size_t \<Rightarrow> bool \<Rightarrow> size_t option" where
  "bitmap_scan bm start nbits b =
     (if start < bitcount bm
      then (case scan_run bm start nbits b 0 of
              None \<Rightarrow> None
            | Some bits_scanned \<Rightarrow>
                if bits_scanned = nbits then Some start
                else bitmap_scan bm (start + max bits_scanned 1) nbits b)
      else Some BITMAP_NPOS)"
  by pat_completeness auto
termination
  by (relation "measure (\<lambda>(bm, start, nbits, b). unat (bitcount bm) - unat start)")
    (simp_all add: scan_skip_decreases)

declare bitmap_scan.simps [simp del]

definition bitmap_scan_and_flip ::
  "bitmap \<Rightarrow> size_t \<Rightarrow> size_t \<Rightarrow> bool \<Rightarrow> (size_t \<times> bitmap) option" where
  "bitmap_scan_and_flip bm start nbits b = do {
     index \<leftarrow> bitmap_scan bm start nbits b;
     bm \<leftarrow> (if index \<noteq> BITMAP_NPOS then bitmap_flip bm index nbits else Some bm);
     Some (index, bm) }"

definition bitmap_all :: "bitmap \<Rightarrow> size_t \<Rightarrow> size_t \<Rightarrow> bool \<Rightarrow> bool option" where
  "bitmap_all bm start nbits b = do { i \<leftarrow> bitmap_scan bm start nbits b; Some (i = start) }"

subsection \<open>The bits of a bitmap\<close>

definition bit_at :: "bitmap \<Rightarrow> nat \<Rightarrow> bool" where
  "bit_at bm i \<longleftrightarrow> bit (bits bm ! (i div 64)) (i mod 64)"

definition bm_ok :: "bitmap \<Rightarrow> bool" where
  "bm_ok bm \<longleftrightarrow> unat (bitcount bm) \<le> 64 * length (bits bm)"

abbreviation nbits_of :: "bitmap \<Rightarrow> nat" where
  "nbits_of bm \<equiv> unat (bitcount bm)"

lemma elem_index [simp]:
  "unat (bit_to_elem i) = unat i div 64" "unat (i mod ELEM_BITS) = unat i mod 64"
  by (simp_all add: bit_to_elem_def ELEM_BITS_def unat_div unat_mod)

lemma mask_bit: "bit (bitmap_mask i) j \<longleftrightarrow> j = unat i mod 64"
  by (auto simp: bitmap_mask_def bit_simps)

lemma elem_in_range: "bm_ok bm \<Longrightarrow> i < bitcount bm \<Longrightarrow> bitmap_elem bm i = Some (bits bm ! (unat i div 64))"
  by (auto simp: bitmap_elem_def bm_ok_def word_less_nat_alt Let_def)

lemma elem_put:
  "bitcount (bitmap_elem_put bm i w) = bitcount bm" "bufsize (bitmap_elem_put bm i w) = bufsize bm"
  "bm_ok (bitmap_elem_put bm i w) = bm_ok bm"
  by (simp_all add: bitmap_elem_put_def bm_ok_def)

lemma bit_at_put:
  assumes "bm_ok bm" "i < bitcount bm"
    and "\<And>k. k < 64 \<Longrightarrow> bit w k \<longleftrightarrow> (if k = unat i mod 64 then v else bit (bits bm ! (unat i div 64)) k)"
  shows "bit_at (bitmap_elem_put bm i w) j \<longleftrightarrow> (if j = unat i then v else bit_at bm j)"
proof -
  have "unat i div 64 < length (bits bm)" using assms by (auto simp: bm_ok_def word_less_nat_alt)
  moreover have "j = unat i" if "j div 64 = unat i div 64" "j mod 64 = unat i mod 64"
    using that by (metis div_mult_mod_eq)
  ultimately show ?thesis
    using assms(3) [of "j mod 64"] by (auto simp: bit_at_def bitmap_elem_put_def nth_list_update)
qed

lemma bitmap_test_bit: "bm_ok bm \<Longrightarrow> i < bitcount bm \<Longrightarrow> bitmap_test bm i = Some (bit_at bm (unat i))"
proof -
  assume "bm_ok bm" "i < bitcount bm"
  moreover have "(w AND bitmap_mask i \<noteq> 0) = bit w (unat i mod 64)" for w :: size_t
  proof
    assume "bit w (unat i mod 64)"
    then have "bit (w AND bitmap_mask i) (unat i mod 64)" by (simp add: bit_simps mask_bit)
    then show "w AND bitmap_mask i \<noteq> 0" by auto
  next
    assume "w AND bitmap_mask i \<noteq> 0"
    then obtain k where "bit (w AND bitmap_mask i) k" by (metis bit_eqI bit_0_eq bot_apply bot_bool_def)
    then show "bit w (unat i mod 64)" by (auto simp: bit_simps mask_bit)
  qed
  ultimately show ?thesis by (simp add: bitmap_test_def elem_in_range bit_at_def)
qed

text \<open>What setting and flipping do to every bit below the bit count.\<close>

lemma in_run_step:
  "unat (start + 1) = Suc (unat (start :: size_t)) \<Longrightarrow> unat (n - 1) = unat n - 1 \<Longrightarrow> 0 < unat (n :: size_t) \<Longrightarrow>
   (i = unat start \<or> (unat (start + 1) \<le> i \<and> i < unat (start + 1) + unat (n - 1)))
     \<longleftrightarrow> (unat start \<le> i \<and> i < unat start + unat n)"
  by auto

lemma bitmap_set_bits:
  assumes "bm_ok bm"
  shows "\<exists>bm'. bitmap_set bm start n b = Some bm' \<and> bm_ok bm' \<and> bitcount bm' = bitcount bm \<and>
    bufsize bm' = bufsize bm \<and>
    (\<forall>i < nbits_of bm. bit_at bm' i \<longleftrightarrow> (if unat start \<le> i \<and> i < unat start + unat n then b else bit_at bm i))"
  using assms
proof (induction bm start n b rule: bitmap_set.induct)
  case (1 bm start n b)
  show ?case
  proof (cases "start < bitcount bm \<and> n > 0")
    case True
    define w where "w = bits bm ! (unat start div 64)"
    define w' where "w' = (if b then w OR bitmap_mask start else w AND NOT (bitmap_mask start))"
    define bm1 where "bm1 = bitmap_elem_put bm start w'"
    have el: "bitmap_elem bm start = Some w" using elem_in_range 1(2) True by (simp add: w_def)
    have b1: "bit_at bm1 j \<longleftrightarrow> (if j = unat start then b else bit_at bm j)" for j
      unfolding bm1_def
      by (rule bit_at_put) (use 1(2) True in \<open>auto simp: w'_def w_def mask_bit bit_simps\<close>)
    have run: "(i = unat start \<or> (unat (start + 1) \<le> i \<and> i < unat (start + 1) + unat (n - 1)))
        \<longleftrightarrow> (unat start \<le> i \<and> i < unat start + unat n)" for i
      by (rule in_run_step) (use True in \<open>auto simp: unat_plus_one [of start "bitcount bm"] unat_pred unat_gt_0\<close>)
    have unf: "bitmap_set bm start n b = bitmap_set bm1 (start + 1) (n - 1) b"
      using True el by (simp add: bitmap_set.simps [of bm start n b] bm1_def w'_def)
    have "bm_ok bm1" "bitcount bm1 = bitcount bm" "bufsize bm1 = bufsize bm" using 1(2) by (simp_all add: bm1_def elem_put)
    with 1(1) [OF True el refl, folded w'_def, folded bm1_def] obtain bm' where
      "bitmap_set bm1 (start + 1) (n - 1) b = Some bm'" "bm_ok bm'" "bitcount bm' = bitcount bm" "bufsize bm' = bufsize bm"
      "\<forall>i < nbits_of bm. bit_at bm' i
         \<longleftrightarrow> (if unat (start + 1) \<le> i \<and> i < unat (start + 1) + unat (n - 1) then b else bit_at bm1 i)"
      by auto
    with unf b1 run show ?thesis by (metis (no_types, lifting))
  next
    case False
    then have "bitmap_set bm start n b = Some bm" by (auto simp: bitmap_set.simps [of bm start n b])
    with False 1(2) show ?thesis by (auto simp: word_less_nat_alt)
  qed
qed

lemma bitmap_flip_bits:
  assumes "bm_ok bm"
  shows "\<exists>bm'. bitmap_flip bm start n = Some bm' \<and> bm_ok bm' \<and> bitcount bm' = bitcount bm \<and>
    bufsize bm' = bufsize bm \<and>
    (\<forall>i < nbits_of bm. bit_at bm' i \<longleftrightarrow>
       (if unat start \<le> i \<and> i < unat start + unat n then \<not> bit_at bm i else bit_at bm i))"
  using assms
proof (induction bm start n rule: bitmap_flip.induct)
  case (1 bm start n)
  show ?case
  proof (cases "start < bitcount bm \<and> n > 0")
    case True
    define w where "w = bits bm ! (unat start div 64)"
    define bm1 where "bm1 = bitmap_elem_put bm start (w XOR bitmap_mask start)"
    have el: "bitmap_elem bm start = Some w" using elem_in_range 1(2) True by (simp add: w_def)
    have b1: "bit_at bm1 j \<longleftrightarrow> (if j = unat start then \<not> bit_at bm (unat start) else bit_at bm j)" for j
      unfolding bm1_def
      by (rule bit_at_put) (use 1(2) True in \<open>auto simp: w_def mask_bit bit_simps bit_at_def\<close>)
    have run: "(i = unat start \<or> (unat (start + 1) \<le> i \<and> i < unat (start + 1) + unat (n - 1)))
        \<longleftrightarrow> (unat start \<le> i \<and> i < unat start + unat n)" for i
      by (rule in_run_step) (use True in \<open>auto simp: unat_plus_one [of start "bitcount bm"] unat_pred unat_gt_0\<close>)
    have self: "\<not> (unat (start + 1) \<le> unat start)" using True by (simp add: unat_plus_one [of start "bitcount bm"])
    have unf: "bitmap_flip bm start n = bitmap_flip bm1 (start + 1) (n - 1)"
      using True el by (simp add: bitmap_flip.simps [of bm start n] bm1_def)
    have "bm_ok bm1" "bitcount bm1 = bitcount bm" "bufsize bm1 = bufsize bm" using 1(2) by (simp_all add: bm1_def elem_put)
    with 1(1) [OF True el, folded bm1_def] obtain bm' where
      "bitmap_flip bm1 (start + 1) (n - 1) = Some bm'" "bm_ok bm'" "bitcount bm' = bitcount bm" "bufsize bm' = bufsize bm"
      "\<forall>i < nbits_of bm. bit_at bm' i
         \<longleftrightarrow> (if unat (start + 1) \<le> i \<and> i < unat (start + 1) + unat (n - 1) then \<not> bit_at bm1 i else bit_at bm1 i)"
      by auto
    with unf b1 run self show ?thesis by (metis (no_types, lifting))
  next
    case False
    then have "bitmap_flip bm start n = Some bm" by (auto simp: bitmap_flip.simps [of bm start n])
    with False 1(2) show ?thesis by (auto simp: word_less_nat_alt)
  qed
qed

text \<open>Flipping leaves every bit of the buffer outside the run alone, also those behind the bit count,
  so that flipping twice gives back the whole bitmap, word by word.\<close>

lemma bitmap_flip_buffer:
  assumes "bm_ok bm" "bitmap_flip bm start n = Some bm'"
  shows "length (bits bm') = length (bits bm) \<and>
    (\<forall>i. bit_at bm' i \<longleftrightarrow> bit_at bm i \<noteq> (unat start \<le> i \<and> i < unat start + unat n \<and> i < nbits_of bm))"
  using assms
proof (induction bm start n rule: bitmap_flip.induct)
  case (1 bm start n)
  show ?case
  proof (cases "start < bitcount bm \<and> n > 0")
    case True
    define w where "w = bits bm ! (unat start div 64)"
    define bm1 where "bm1 = bitmap_elem_put bm start (w XOR bitmap_mask start)"
    have el: "bitmap_elem bm start = Some w" using elem_in_range 1(2) True by (simp add: w_def)
    have b1: "bit_at bm1 j \<longleftrightarrow> (if j = unat start then \<not> bit_at bm (unat start) else bit_at bm j)" for j
      unfolding bm1_def
      by (rule bit_at_put) (use 1(2) True in \<open>auto simp: w_def mask_bit bit_simps bit_at_def\<close>)
    have run: "(i = unat start \<or> (unat (start + 1) \<le> i \<and> i < unat (start + 1) + unat (n - 1)))
        \<longleftrightarrow> (unat start \<le> i \<and> i < unat start + unat n)" for i
      by (rule in_run_step) (use True in \<open>auto simp: unat_plus_one [of start "bitcount bm"] unat_pred unat_gt_0\<close>)
    have self: "\<not> (unat (start + 1) \<le> unat start)" "unat start < nbits_of bm"
      using True by (simp_all add: unat_plus_one [of start "bitcount bm"] word_less_nat_alt)
    have unf: "bitmap_flip bm1 (start + 1) (n - 1) = Some bm'"
      using True el 1(3) by (simp add: bitmap_flip.simps [of bm start n] bm1_def)
    have same: "bm_ok bm1" "bitcount bm1 = bitcount bm" "length (bits bm1) = length (bits bm)"
      using 1(2) by (simp_all add: bm1_def elem_put) (simp add: bitmap_elem_put_def)
    from 1(1) [OF True el, folded bm1_def, OF same(1) unf] same(2,3) b1 run self show ?thesis
      by (metis (no_types, lifting))
  next
    case False
    then have "bm' = bm" using 1(3) by (auto simp: bitmap_flip.simps [of bm start n])
    with False show ?thesis by (auto simp: word_less_nat_alt)
  qed
qed

lemma bitmap_eqI:
  assumes "bitcount a = bitcount b" "bufsize a = bufsize b" "length (bits a) = length (bits b)"
    and bit: "\<And>i. i < 64 * length (bits a) \<Longrightarrow> bit_at a i = bit_at b i"
  shows "(a :: bitmap) = b"
proof -
  have "bits a ! k = bits b ! k" if "k < length (bits a)" for k
  proof (rule bit_word_eqI)
    fix j assume "j < LENGTH(64)"
    then show "bit (bits a ! k) j = bit (bits b ! k) j" using bit [of "64 * k + j"] that by (simp add: bit_at_def)
  qed
  then have "bits a = bits b" using assms(3) by (simp add: list_eq_iff_nth_eq)
  then show ?thesis using assms(1,2) by simp
qed

lemma bitmap_flip_flip:
  assumes "bm_ok bm" "bitmap_flip bm start n = Some bm1"
  shows "bitmap_flip bm1 start n = Some bm"
proof -
  have 1: "bm_ok bm1" "bitcount bm1 = bitcount bm" "bufsize bm1 = bufsize bm"
    using bitmap_flip_bits [OF assms(1), of start n] assms(2) by auto
  obtain bm2 where 2: "bitmap_flip bm1 start n = Some bm2" "bitcount bm2 = bitcount bm" "bufsize bm2 = bufsize bm"
    using bitmap_flip_bits [OF 1(1), of start n] 1 by auto
  have "bm2 = bm"
    using bitmap_flip_buffer [OF assms] bitmap_flip_buffer [OF 1(1) 2(1)] 2 1 by (intro bitmap_eqI) auto
  with 2 show ?thesis by simp
qed

subsection \<open>Scanning\<close>

definition run_at :: "bitmap \<Rightarrow> nat \<Rightarrow> nat \<Rightarrow> bool \<Rightarrow> bool" where
  "run_at bm i n b \<longleftrightarrow> i + n \<le> nbits_of bm \<and> (\<forall>j. i \<le> j \<and> j < i + n \<longrightarrow> bit_at bm j = b)"

lemma scan_run_spec:
  assumes "bm_ok bm" "unat start + unat k \<le> nbits_of bm" "unat k \<le> unat n"
    "\<forall>j. unat start \<le> j \<and> j < unat start + unat k \<longrightarrow> bit_at bm j = b"
  shows "\<exists>r. scan_run bm start n b k = Some r \<and> unat r \<le> unat n \<and> unat start + unat r \<le> nbits_of bm \<and>
    (\<forall>j. unat start \<le> j \<and> j < unat start + unat r \<longrightarrow> bit_at bm j = b) \<and>
    (r = n \<or> unat start + unat r = nbits_of bm \<or> bit_at bm (unat start + unat r) \<noteq> b)"
  using assms
proof (induction bm start n b k rule: scan_run.induct)
  case (1 bm start n b k)
  have add: "unat (start + k) = unat start + unat k" using 1(3) by (rule unat_add_le_bound)
  show ?case
  proof (cases "start + k < bitcount bm \<and> k < n")
    case True
    have t: "bitmap_test bm (start + k) = Some (bit_at bm (unat start + unat k))"
      using bitmap_test_bit [OF 1(2)] True add by simp
    show ?thesis
    proof (cases "bit_at bm (unat start + unat k) = b")
      case bit: True
      have k1: "unat (k + 1) = Suc (unat k)" using True by (blast intro: unat_plus_one)
      have "scan_run bm start n b k = scan_run bm start n b (k + 1)"
        using True t bit by (simp add: scan_run.simps [of bm start n b k])
      moreover have "\<forall>j. unat start \<le> j \<and> j < unat start + unat (k + 1) \<longrightarrow> bit_at bm j = b"
        using 1(5) bit k1 by (auto simp: less_Suc_eq)
      ultimately show ?thesis
        using 1(1) [OF True t] bit 1(2) True add k1 by (simp add: word_less_nat_alt)
    next
      case False
      then have "scan_run bm start n b k = Some k"
        using True t by (simp add: scan_run.simps [of bm start n b k])
      with False 1 show ?thesis by auto
    qed
  next
    case False
    then have "scan_run bm start n b k = Some k" by (auto simp: scan_run.simps [of bm start n b k])
    moreover have "k = n \<or> unat start + unat k = nbits_of bm"
      using False 1(3,4) add by (auto simp: word_less_nat_alt intro!: word_unat_eq_iff [THEN iffD2])
    ultimately show ?thesis using 1 by auto
  qed
qed

lemma bitmap_scan_spec:
  assumes "bm_ok bm"
  shows "\<exists>r. bitmap_scan bm start n b = Some r \<and>
    (if r = BITMAP_NPOS then \<forall>i. unat start \<le> i \<and> i < nbits_of bm \<longrightarrow> \<not> run_at bm i (unat n) b
     else start \<le> r \<and> r < bitcount bm \<and> run_at bm (unat r) (unat n) b \<and>
       (\<forall>i. unat start \<le> i \<and> i < unat r \<longrightarrow> \<not> run_at bm i (unat n) b))"
  using assms
proof (induction bm start n b rule: bitmap_scan.induct)
  case (1 bm start n b)
  show ?case
  proof (cases "start < bitcount bm")
    case True
    then obtain k where k: "scan_run bm start n b 0 = Some k" "unat k \<le> unat n"
      "unat start + unat k \<le> nbits_of bm"
      "\<forall>j. unat start \<le> j \<and> j < unat start + unat k \<longrightarrow> bit_at bm j = b"
      "k = n \<or> unat start + unat k = nbits_of bm \<or> bit_at bm (unat start + unat k) \<noteq> b"
    proof -
      have "unat start + unat (0 :: size_t) \<le> nbits_of bm" using True by (simp add: word_less_nat_alt)
      moreover have "\<forall>j. unat start \<le> j \<and> j < unat start + unat (0 :: size_t) \<longrightarrow> bit_at bm j = b" by auto
      ultimately show ?thesis using scan_run_spec [OF 1(2), of start 0 n b] that by auto
    qed
    have npos: "start \<noteq> BITMAP_NPOS"
      using True word_order.extremum_strict by (auto simp: BITMAP_NPOS_def)
    show ?thesis
    proof (cases "k = n")
      case eq: True
      then have "bitmap_scan bm start n b = Some start"
        using True k(1) by (simp add: bitmap_scan.simps [of bm start n b])
      with True k eq npos show ?thesis by (auto simp: run_at_def word_less_nat_alt)
    next
      case False
      let ?s = "start + max k 1"
      have un: "bitmap_scan bm start n b = bitmap_scan bm ?s n b"
        using True k(1) False by (simp add: bitmap_scan.simps [of bm start n b])
      have s: "unat ?s = unat start + unat (max k 1)" using scan_skip [OF True k(1)] by simp
      have kn: "unat k < unat n" using k(2) False by (meson le_neq_implies_less word_unat_eq_iff)
      have none: "\<not> run_at bm i (unat n) b" if "unat start \<le> i" "i < unat ?s" for i
      proof
        assume run: "run_at bm i (unat n) b"
        have i: "i \<le> unat start + unat k"
          using that s by (auto simp: max_def word_le_nat_alt split: if_splits)
        show False
        proof (cases "unat start + unat k < i + unat n")
          case True
          then show ?thesis using run k(5) False i by (auto simp: run_at_def)
        next
          case False
          then show ?thesis using that(1) kn by linarith
        qed
      qed
      obtain r where r: "bitmap_scan bm ?s n b = Some r"
        "if r = BITMAP_NPOS then \<forall>i. unat ?s \<le> i \<and> i < nbits_of bm \<longrightarrow> \<not> run_at bm i (unat n) b
         else ?s \<le> r \<and> r < bitcount bm \<and> run_at bm (unat r) (unat n) b \<and>
           (\<forall>i. unat ?s \<le> i \<and> i < unat r \<longrightarrow> \<not> run_at bm i (unat n) b)"
        using 1(1) [OF True k(1) False 1(2)] by blast
      have "start \<le> ?s" using s by (simp add: word_le_nat_alt)
      then have "if r = BITMAP_NPOS then \<forall>i. unat start \<le> i \<and> i < nbits_of bm \<longrightarrow> \<not> run_at bm i (unat n) b
         else start \<le> r \<and> r < bitcount bm \<and> run_at bm (unat r) (unat n) b \<and>
           (\<forall>i. unat start \<le> i \<and> i < unat r \<longrightarrow> \<not> run_at bm i (unat n) b)"
        using r(2) none by (meson not_le order_trans)
      with un r(1) show ?thesis by auto
    qed
  next
    case False
    then show ?thesis by (auto simp: bitmap_scan.simps [of bm start n b] word_less_nat_alt)
  qed
qed

text \<open>A run that was found and flipped.\<close>

lemma scan_and_flip_run:
  assumes "bm_ok bm" "bitmap_scan_and_flip bm start n b = Some (i, bm1)" "i \<noteq> BITMAP_NPOS"
  shows "start \<le> i" "bitmap_flip bm i n = Some bm1" "run_at bm (unat i) (unat n) b" "bm_ok bm1"
    "unat i \<le> j \<Longrightarrow> j < unat i + unat n \<Longrightarrow> bit_at bm1 j = (\<not> b)"
proof -
  have sc: "bitmap_scan bm start n b = Some i" and fl: "bitmap_flip bm i n = Some bm1"
    using assms(2,3) by (auto simp: bitmap_scan_and_flip_def split: bind_splits if_splits)
  show "bitmap_flip bm i n = Some bm1" by (rule fl)
  show le: "start \<le> i" and run: "run_at bm (unat i) (unat n) b"
    using bitmap_scan_spec [OF assms(1), of start n b] sc assms(3) by auto
  show "bm_ok bm1" using bitmap_flip_bits [OF assms(1), of i n] fl by auto
  show "bit_at bm1 j = (\<not> b)" if "unat i \<le> j" "j < unat i + unat n"
    using bitmap_flip_buffer [OF assms(1) fl] run that by (auto simp: run_at_def)
qed

subsection \<open>Allocation: the interface of a pool of numbered units\<close>

text \<open>
  Page pools, sector maps and descriptor tables use a bitmap as a pool of numbered units:
  allocate a run of clear bits, release a run.  The contract, and what follows from it.
\<close>

locale bit_pool =
  fixes ok :: "'p \<Rightarrow> bool"
    and cap :: "'p \<Rightarrow> nat"
    and used :: "'p \<Rightarrow> nat \<Rightarrow> bool"
    and alloc :: "'p \<Rightarrow> size_t \<Rightarrow> (size_t \<times> 'p) option"
    and release :: "'p \<Rightarrow> size_t \<Rightarrow> size_t \<Rightarrow> 'p option"
  assumes alloc: "ok p \<Longrightarrow> \<exists>i p'. alloc p n = Some (i, p') \<and> ok p' \<and> cap p' = cap p \<and>
      (if i = BITMAP_NPOS
       then p' = p \<and> (\<forall>i < cap p. i + unat n \<le> cap p \<longrightarrow> (\<exists>j. i \<le> j \<and> j < i + unat n \<and> used p j))
       else unat i < cap p \<and> unat i + unat n \<le> cap p \<and>
         (\<forall>j. unat i \<le> j \<and> j < unat i + unat n \<longrightarrow> \<not> used p j) \<and>
         (\<forall>j < cap p. used p' j \<longleftrightarrow> used p j \<or> (unat i \<le> j \<and> j < unat i + unat n)))"
    and release: "ok p \<Longrightarrow> \<exists>p'. release p i n = Some p' \<and> ok p' \<and> cap p' = cap p \<and>
      (\<forall>j < cap p. used p' j \<longleftrightarrow> used p j \<and> \<not> (unat i \<le> j \<and> j < unat i + unat n))"
begin

lemma allocD:
  assumes "ok p" "alloc p n = Some (i, p')"
  shows "ok p'" "cap p' = cap p"
    "i \<noteq> BITMAP_NPOS \<Longrightarrow> unat i < cap p" "i \<noteq> BITMAP_NPOS \<Longrightarrow> unat i + unat n \<le> cap p"
    "i \<noteq> BITMAP_NPOS \<Longrightarrow> unat i \<le> j \<Longrightarrow> j < unat i + unat n \<Longrightarrow> \<not> used p j"
    "i \<noteq> BITMAP_NPOS \<Longrightarrow> j < cap p \<Longrightarrow> used p' j \<longleftrightarrow> used p j \<or> (unat i \<le> j \<and> j < unat i + unat n)"
    "i = BITMAP_NPOS \<Longrightarrow> p' = p"
  using alloc [OF assms(1), of n] assms(2) by (auto split: if_splits)

lemma releaseD:
  assumes "ok p" "release p i n = Some p'"
  shows "ok p'" "cap p' = cap p"
    "j < cap p \<Longrightarrow> used p' j \<longleftrightarrow> used p j \<and> \<not> (unat i \<le> j \<and> j < unat i + unat n)"
  using release [OF assms(1), of i n] assms(2) by auto

text \<open>Two allocations with no release in between never overlap.\<close>

lemma alloc_disjoint:
  assumes "ok p" "alloc p n = Some (i, p1)" "i \<noteq> BITMAP_NPOS" "alloc p1 m = Some (k, p2)" "k \<noteq> BITMAP_NPOS"
    and j: "unat i \<le> j" "j < unat i + unat n"
  shows "\<not> (unat k \<le> j \<and> j < unat k + unat m)"
  using allocD(4,6) [OF assms(1,2,3)] allocD(5) [OF allocD(1) [OF assms(1,2)] assms(4,5), of j] j
  by auto

text \<open>Releasing what was just allocated restores every unit.\<close>

lemma release_restores:
  assumes "ok p" "alloc p n = Some (i, p1)" "i \<noteq> BITMAP_NPOS" "release p1 i n = Some p2" "j < cap p"
  shows "used p2 j = used p j"
  using allocD(2) [OF assms(1,2)] allocD(5,6) [OF assms(1-3)] releaseD(3) [OF allocD(1) [OF assms(1,2)] assms(4)] assms(5)
  by auto

text \<open>Allocating single units again and again.\<close>

primrec alloc_ones :: "nat \<Rightarrow> 'p \<Rightarrow> (size_t list \<times> 'p) option" where
  "alloc_ones 0 p = Some ([], p)"
| "alloc_ones (Suc k) p = Option.bind (alloc p 1) (\<lambda>(i, p).
     Option.bind (alloc_ones k p) (\<lambda>(is, p). Some (i # is, p)))"

definition free_units :: "'p \<Rightarrow> nat set" where
  "free_units p = {j. j < cap p \<and> \<not> used p j}"

lemma finite_free_units [simp]: "finite (free_units p)"
  by (simp add: free_units_def)

lemma alloc_one:
  assumes "ok p" "0 < card (free_units p)"
  shows "\<exists>i p'. alloc p 1 = Some (i, p') \<and> ok p' \<and> cap p' = cap p \<and> i \<noteq> BITMAP_NPOS \<and> unat i \<in> free_units p \<and>
    free_units p' = free_units p - {unat i}"
proof -
  obtain i p' where a: "alloc p 1 = Some (i, p')" using alloc [OF assms(1)] by blast
  obtain u where u: "u \<in> free_units p" using assms(2) by fastforce
  have ne: "i \<noteq> BITMAP_NPOS"
  proof
    assume "i = BITMAP_NPOS"
    then have "\<forall>i < cap p. i + unat (1 :: size_t) \<le> cap p \<longrightarrow> (\<exists>j. i \<le> j \<and> j < i + unat (1 :: size_t) \<and> used p j)"
      using alloc [OF assms(1), of 1] a by auto
    then have "used p u" using u by (auto simp: free_units_def less_Suc_eq)
    then show False using u by (simp add: free_units_def)
  qed
  show ?thesis
    using a ne allocD(1,2) [OF assms(1) a] allocD(3,5,6) [OF assms(1) a ne]
    by (auto simp: free_units_def less_Suc_eq)
qed

lemma alloc_ones_distinct:
  assumes "ok p" "k \<le> card (free_units p)"
  shows "\<exists>is p'. alloc_ones k p = Some (is, p') \<and> ok p' \<and> length is = k \<and> BITMAP_NPOS \<notin> set is \<and>
    distinct is \<and> unat ` set is \<subseteq> free_units p \<and> free_units p' = free_units p - unat ` set is"
  using assms
proof (induction k arbitrary: p)
  case 0
  then show ?case by simp
next
  case (Suc k)
  from alloc_one [OF Suc.prems(1)] Suc.prems(2) obtain i p1 where i: "alloc p 1 = Some (i, p1)" "ok p1"
    "i \<noteq> BITMAP_NPOS" "unat i \<in> free_units p" "free_units p1 = free_units p - {unat i}"
    by auto
  then have "k \<le> card (free_units p1)" using Suc.prems(2) by simp
  from Suc.IH [OF i(2) this] obtain "is" p2 where r: "alloc_ones k p1 = Some (is, p2)" "ok p2" "length is = k"
    "BITMAP_NPOS \<notin> set is" "distinct is" "unat ` set is \<subseteq> free_units p1"
    "free_units p2 = free_units p1 - unat ` set is" by auto
  then have "i \<notin> set is" using i(5) by auto
  then show ?case using i r by auto
qed

end

lemma bitmap_alloc_spec:
  assumes "bm_ok bm"
  shows "\<exists>i bm'. bitmap_scan_and_flip bm 0 n False = Some (i, bm') \<and> bm_ok bm' \<and> nbits_of bm' = nbits_of bm \<and>
      (if i = BITMAP_NPOS
       then bm' = bm \<and> (\<forall>i < nbits_of bm. i + unat n \<le> nbits_of bm \<longrightarrow> (\<exists>j. i \<le> j \<and> j < i + unat n \<and> bit_at bm j))
       else unat i < nbits_of bm \<and> unat i + unat n \<le> nbits_of bm \<and>
         (\<forall>j. unat i \<le> j \<and> j < unat i + unat n \<longrightarrow> \<not> bit_at bm j) \<and>
         (\<forall>j < nbits_of bm. bit_at bm' j \<longleftrightarrow> bit_at bm j \<or> (unat i \<le> j \<and> j < unat i + unat n)))"
proof -
  obtain r where r: "bitmap_scan bm 0 n False = Some r"
    "if r = BITMAP_NPOS then \<forall>i. unat (0 :: size_t) \<le> i \<and> i < nbits_of bm \<longrightarrow> \<not> run_at bm i (unat n) False
     else 0 \<le> r \<and> r < bitcount bm \<and> run_at bm (unat r) (unat n) False \<and>
       (\<forall>i. unat (0 :: size_t) \<le> i \<and> i < unat r \<longrightarrow> \<not> run_at bm i (unat n) False)"
    using bitmap_scan_spec [OF assms, of 0 n False] by blast
  show ?thesis
  proof (cases "r = BITMAP_NPOS")
    case True
    with r assms show ?thesis by (auto simp: bitmap_scan_and_flip_def run_at_def)
  next
    case False
    obtain bm' where f: "bitmap_flip bm r n = Some bm'" "bm_ok bm'" "bitcount bm' = bitcount bm"
      "\<forall>i < nbits_of bm. bit_at bm' i \<longleftrightarrow>
         (if unat r \<le> i \<and> i < unat r + unat n then \<not> bit_at bm i else bit_at bm i)"
      using bitmap_flip_bits [OF assms, of r n] by blast
    with r False show ?thesis by (auto simp: bitmap_scan_and_flip_def run_at_def word_less_nat_alt)
  qed
qed

interpretation bp: bit_pool bm_ok nbits_of bit_at "\<lambda>bm n. bitmap_scan_and_flip bm 0 n False"
  "\<lambda>bm i n. bitmap_set bm i n False"
proof unfold_locales
  fix bm i n
  assume "bm_ok bm"
  from bitmap_set_bits [OF this, of i n False]
  show "\<exists>bm'. bitmap_set bm i n False = Some bm' \<and> bm_ok bm' \<and> nbits_of bm' = nbits_of bm \<and>
      (\<forall>j < nbits_of bm. bit_at bm' j \<longleftrightarrow> bit_at bm j \<and> \<not> (unat i \<le> j \<and> j < unat i + unat n))"
    by auto
qed (rule bitmap_alloc_spec)

subsection \<open>Creation\<close>

lemma div_rnd_up_nat:
  assumes "unat n + 8 \<le> 18446744073709551616"
  shows "unat (div_rnd_up n 8) = (unat n + 7) div 8"
proof -
  have seven: "unat (7 :: size_t) = 7" by simp
  have "n + 8 - 1 = n + 7" by simp
  moreover have "unat (n + 7) = unat n + unat (7 :: size_t)"
    using assms seven by (intro unat_add_no_overflow) (simp del: unat_numeral)
  ultimately have "unat (n + 8 - 1) = unat n + 7" unfolding seven by metis
  then show ?thesis by (simp add: div_rnd_up_def unat_div)
qed

lemma bitmap_create_words:
  assumes "unat n + 64 \<le> 18446744073709551616"
  shows "length (bits (bitmap_create n)) = ((unat n + 7) div 8 + 7) div 8"
    "unat (bufsize (bitmap_create n)) = (unat n + 7) div 8" "bitcount (bitmap_create n) = n"
proof -
  have 1: "unat (bitmap_bufsize n) = (unat n + 7) div 8"
    unfolding bitmap_bufsize_def using assms by (intro div_rnd_up_nat) simp
  have 2: "unat (div_rnd_up (bitmap_bufsize n) 8) = ((unat n + 7) div 8 + 7) div 8"
    unfolding 1 [symmetric] using 1 assms by (intro div_rnd_up_nat) linarith
  show "length (bits (bitmap_create n)) = ((unat n + 7) div 8 + 7) div 8"
    "unat (bufsize (bitmap_create n)) = (unat n + 7) div 8" "bitcount (bitmap_create n) = n"
    using 1 2 by (simp_all add: bitmap_create_def Let_def)
qed

lemma bitmap_create_ok:
  assumes "unat n + 64 \<le> 18446744073709551616"
  shows "bm_ok (bitmap_create n)" "nbits_of (bitmap_create n) = unat n"
    "i < unat n \<Longrightarrow> \<not> bit_at (bitmap_create n) i"
proof -
  show ok: "bm_ok (bitmap_create n)"
    unfolding bm_ok_def bitmap_create_words [OF assms] by linarith
  show "nbits_of (bitmap_create n) = unat n" using bitmap_create_words [OF assms] by simp
  show "\<not> bit_at (bitmap_create n) i" if "i < unat n"
  proof -
    have "i div 64 < length (bits (bitmap_create n))"
      unfolding bitmap_create_words [OF assms] using that by linarith
    then have "bits (bitmap_create n) ! (i div 64) = 0" by (simp add: bitmap_create_def Let_def)
    then show ?thesis by (simp add: bit_at_def)
  qed
qed

subsection \<open>Properties\<close>

definition demo_bitmap :: bitmap where
  "demo_bitmap = bitmap_create 70"

lemma demo_bitmap_ok: "bm_ok demo_bitmap" "nbits_of demo_bitmap = 70"
  using bitmap_create_ok [of 70] by (simp_all add: demo_bitmap_def)

lemma bitmap_alloc_succeeds:
  assumes "bm_ok bm" "\<And>j. j < nbits_of bm \<Longrightarrow> \<not> bit_at bm j" "unat n \<le> nbits_of bm" "0 < nbits_of bm"
  shows "\<exists>i bm'. bitmap_scan_and_flip bm 0 n False = Some (i, bm') \<and> i \<noteq> BITMAP_NPOS"
proof (rule ccontr)
  assume no: "\<not> ?thesis"
  from bitmap_alloc_spec [OF assms(1), of n] no
  have "\<forall>i < nbits_of bm. i + unat n \<le> nbits_of bm \<longrightarrow> (\<exists>j. i \<le> j \<and> j < i + unat n \<and> bit_at bm j)"
    by (auto split: if_splits)
  with assms(3,4) obtain j where "j < unat n" "bit_at bm j" by fastforce
  with assms(2,3) show False by simp
qed

text \<open>Setting and flipping change exactly the bits of the requested run that lie below
  the bit count, never touch memory outside the bitmap and always return.\<close>

theorem bitmap_update_exact:
  assumes "bm_ok bm"
  shows "(\<exists>bm'. bitmap_set bm start n b = Some bm' \<and> bm_ok bm' \<and> bitcount bm' = bitcount bm \<and>
      (\<forall>i < nbits_of bm. bit_at bm' i \<longleftrightarrow> (if unat start \<le> i \<and> i < unat start + unat n then b else bit_at bm i))) \<and>
    (\<exists>bm'. bitmap_flip bm start n = Some bm' \<and> bm_ok bm' \<and> bitcount bm' = bitcount bm \<and>
      (\<forall>i < nbits_of bm. bit_at bm' i \<longleftrightarrow>
         (if unat start \<le> i \<and> i < unat start + unat n then \<not> bit_at bm i else bit_at bm i)))"
  using bitmap_set_bits [OF assms, of start n b] bitmap_flip_bits [OF assms, of start n] by blast

theorem bitmap_update_exact_witness:
  "\<exists>bm'. bitmap_set demo_bitmap 60 20 True = Some bm' \<and> bm_ok bm' \<and> bit_at bm' 65 \<and> bit_at bm' 59 = bit_at demo_bitmap 59"
proof -
  obtain bm' where "bitmap_set demo_bitmap 60 20 True = Some bm'" "bm_ok bm'"
    "\<forall>i < nbits_of demo_bitmap. bit_at bm' i \<longleftrightarrow>
      (if unat (60 :: size_t) \<le> i \<and> i < unat (60 :: size_t) + unat (20 :: size_t) then True else bit_at demo_bitmap i)"
    using bitmap_update_exact [OF demo_bitmap_ok(1), of 60 20 True] by blast
  then show ?thesis by (intro exI [of _ bm']) (simp add: demo_bitmap_ok(2))
qed

text \<open>C6: \<^verbatim>\<open>bitmap_scan\<close> returns the least index, from \<open>start\<close> on, at which a run of \<open>n\<close> bits
  equal to \<open>b\<close> fits below the bit count, and \<^verbatim>\<open>BITMAP_NPOS\<close> exactly when there is none; the
  skip of the bits already seen misses no run.\<close>

theorem bitmap_scan_least:
  assumes "bm_ok bm"
  shows "\<exists>r. bitmap_scan bm start n b = Some r \<and>
    (if r = BITMAP_NPOS then \<forall>i. unat start \<le> i \<and> i < nbits_of bm \<longrightarrow> \<not> run_at bm i (unat n) b
     else start \<le> r \<and> r < bitcount bm \<and> run_at bm (unat r) (unat n) b \<and>
       (\<forall>i. unat start \<le> i \<and> i < unat r \<longrightarrow> \<not> run_at bm i (unat n) b))"
  using assms by (rule bitmap_scan_spec)

theorem bitmap_scan_least_witness:
  "\<exists>r. bitmap_scan demo_bitmap 3 8 True = Some r \<and> (r = BITMAP_NPOS \<or> run_at demo_bitmap (unat r) 8 True)"
proof -
  obtain r where "bitmap_scan demo_bitmap 3 8 True = Some r"
    "if r = BITMAP_NPOS then \<forall>i. unat (3 :: size_t) \<le> i \<and> i < nbits_of demo_bitmap \<longrightarrow> \<not> run_at demo_bitmap i (unat (8 :: size_t)) True
     else 3 \<le> r \<and> r < bitcount demo_bitmap \<and> run_at demo_bitmap (unat r) (unat (8 :: size_t)) True \<and>
       (\<forall>i. unat (3 :: size_t) \<le> i \<and> i < unat r \<longrightarrow> \<not> run_at demo_bitmap i (unat (8 :: size_t)) True)"
    using bitmap_scan_least [OF demo_bitmap_ok(1), of 3 8 True] by blast
  then show ?thesis by (intro exI [of _ r]) (simp split: if_splits)
qed

text \<open>C5: whatever \<open>start\<close>, \<open>n\<close> and \<open>b\<close>: a run that \<^verbatim>\<open>bitmap_scan_and_flip\<close> finds lies below the bit
  count, its bits were all \<open>b\<close> and now are not, no run found in the new bitmap for the same value
  overlaps it, and \<^verbatim>\<open>bitmap_flip\<close> of the run gives back the bitmap as it was, word by word.\<close>

theorem bitmap_alloc_release:
  assumes "bm_ok bm" "bitmap_scan_and_flip bm start n b = Some (i, bm1)" "i \<noteq> BITMAP_NPOS"
  shows "start \<le> i \<and> bm_ok bm1 \<and> unat i + unat n \<le> nbits_of bm \<and>
    (\<forall>j. unat i \<le> j \<and> j < unat i + unat n \<longrightarrow> bit_at bm j = b \<and> bit_at bm1 j = (\<not> b)) \<and>
    (\<forall>start' m k bm2 j. bitmap_scan_and_flip bm1 start' m b = Some (k, bm2) \<longrightarrow> k \<noteq> BITMAP_NPOS \<longrightarrow>
       unat i \<le> j \<and> j < unat i + unat n \<longrightarrow> \<not> (unat k \<le> j \<and> j < unat k + unat m)) \<and>
    bitmap_flip bm1 i n = Some bm"
proof -
  note r = scan_and_flip_run [OF assms]
  have "\<not> (unat k \<le> j \<and> j < unat k + unat m)"
    if "bitmap_scan_and_flip bm1 start' m b = Some (k, bm2)" "k \<noteq> BITMAP_NPOS" "unat i \<le> j \<and> j < unat i + unat n"
    for start' m k bm2 j
    using scan_and_flip_run(3) [OF r(4) that(1,2)] r(5) [of j] that(3) by (auto simp: run_at_def)
  moreover have "bitmap_flip bm1 i n = Some bm" by (rule bitmap_flip_flip [OF assms(1) r(2)])
  ultimately show ?thesis using r(1,3,4,5) by (auto simp: run_at_def)
qed

theorem bitmap_alloc_release_witness:
  "\<exists>i bm1. bitmap_scan_and_flip demo_bitmap 2 65 False = Some (i, bm1) \<and> 2 \<le> i \<and> bitmap_flip bm1 i 65 = Some demo_bitmap"
proof -
  have clear: "\<not> bit_at demo_bitmap j" if "j < nbits_of demo_bitmap" for j
    using bitmap_create_ok(3) [of 70] that by (simp add: demo_bitmap_ok(2)) (simp add: demo_bitmap_def)
  then have "run_at demo_bitmap 2 (unat (65 :: size_t)) False" by (simp add: run_at_def demo_bitmap_ok(2))
  then have "\<exists>i. unat (2 :: size_t) \<le> i \<and> i < nbits_of demo_bitmap \<and> run_at demo_bitmap i (unat (65 :: size_t)) False"
    by (intro exI [of _ 2]) (simp add: demo_bitmap_ok(2))
  then obtain r where r: "bitmap_scan demo_bitmap 2 65 False = Some r" "r \<noteq> BITMAP_NPOS"
    using bitmap_scan_spec [OF demo_bitmap_ok(1), of 2 65 False] by (metis (no_types, lifting))
  then obtain bm1 where a: "bitmap_scan_and_flip demo_bitmap 2 65 False = Some (r, bm1)"
    using bitmap_flip_bits [OF demo_bitmap_ok(1), of r 65] by (auto simp: bitmap_scan_and_flip_def)
  with bitmap_alloc_release [OF demo_bitmap_ok(1) a r(2)] show ?thesis by blast
qed

text \<open>The sequence of \<open>k\<close> requests of one clear bit each.\<close>

fun take_units :: "nat \<Rightarrow> bitmap \<Rightarrow> (size_t list \<times> bitmap) option" where
  "take_units 0 bm = Some ([], bm)"
| "take_units (Suc k) bm = do {
     (i, bm) \<leftarrow> bitmap_scan_and_flip bm 0 1 False;
     (is, bm) \<leftarrow> take_units k bm;
     Some (i # is, bm) }"

lemma take_units_eq: "take_units k bm = bp.alloc_ones k bm"
  by (induction k arbitrary: bm) auto

text \<open>Single units are handed out without repetition as long as one is free: the first
  \<open>k\<close> requests of one clear bit succeed when \<open>k\<close> bits are clear.\<close>

theorem bitmap_units_distinct:
  assumes "bm_ok bm" "k \<le> card {j. j < nbits_of bm \<and> \<not> bit_at bm j}"
  shows "\<exists>is bm'. take_units k bm = Some (is, bm') \<and> bm_ok bm' \<and> length is = k \<and> distinct is \<and>
    BITMAP_NPOS \<notin> set is \<and> (\<forall>i \<in> set is. unat i < nbits_of bm \<and> \<not> bit_at bm (unat i))"
  using bp.alloc_ones_distinct [OF assms(1), of k] assms(2)
  unfolding take_units_eq bp.free_units_def by blast

theorem bitmap_units_distinct_witness:
  "\<exists>is bm'. take_units 3 demo_bitmap = Some (is, bm') \<and> bm_ok bm' \<and> length is = 3 \<and> distinct is"
proof -
  have "{j. j < nbits_of demo_bitmap \<and> \<not> bit_at demo_bitmap j} = {..<70}"
    using bitmap_create_ok(3) [of 70] by (auto simp: demo_bitmap_ok(2)) (simp add: demo_bitmap_def)
  then have "3 \<le> card {j. j < nbits_of demo_bitmap \<and> \<not> bit_at demo_bitmap j}" by simp
  from bitmap_units_distinct [OF demo_bitmap_ok(1) this] show ?thesis by blast
qed

text \<open>A fresh bitmap has every bit clear, and all the words its bits need lie inside the
  block of memory (a power of two of at least eight bytes) that holds its 16 byte header and
  its \<open>bufsize\<close> bytes.\<close>

theorem bitmap_create_in_block:
  assumes "unat n + 64 \<le> 2 ^ 64" "16 + unat (bufsize (bitmap_create n)) \<le> 2 ^ k" "3 \<le> k"
  shows "bm_ok (bitmap_create n) \<and> nbits_of (bitmap_create n) = unat n \<and>
    (\<forall>i < unat n. \<not> bit_at (bitmap_create n) i) \<and> 16 + 8 * length (bits (bitmap_create n)) \<le> 2 ^ k"
proof -
  have n: "unat n + 64 \<le> 18446744073709551616" using assms(1) by simp
  obtain q where q: "2 ^ k = 8 * (q :: nat)"
    using assms(3) by (metis dvd_def le_imp_power_dvd power3_eq_cube mult_2_right numeral_Bit0 numeral_times_numeral semiring_norm(11))
  have "16 + (unat n + 7) div 8 \<le> 8 * q" using assms(2) bitmap_create_words(2) [OF n] q by simp
  moreover have "16 + y \<le> 8 * q \<Longrightarrow> 16 + 8 * ((y + 7) div 8) \<le> 8 * q" for y :: nat by presburger
  ultimately have "16 + 8 * (((unat n + 7) div 8 + 7) div 8) \<le> 2 ^ k" unfolding q by blast
  with bitmap_create_words(1) [OF n] bitmap_create_ok [OF n] show ?thesis by simp
qed

theorem bitmap_create_in_block_witness:
  "bm_ok (bitmap_create 128) \<and> nbits_of (bitmap_create 128) = 128 \<and> \<not> bit_at (bitmap_create 128) 100 \<and>
    16 + 8 * length (bits (bitmap_create 128)) \<le> 2 ^ 5"
  using bitmap_create_in_block [of 128 5] by (simp add: bitmap_create_words)

text \<open>\<^verbatim>\<open>bitmap_all\<close> answers whether the run at \<open>start\<close> has the requested value throughout
  and fits below the bit count.\<close>

theorem bitmap_all_iff:
  assumes "bm_ok bm" "start < bitcount bm"
  shows "bitmap_all bm start n b = Some (run_at bm (unat start) (unat n) b)"
proof -
  obtain r where r: "bitmap_scan bm start n b = Some r"
    "if r = BITMAP_NPOS then \<forall>i. unat start \<le> i \<and> i < nbits_of bm \<longrightarrow> \<not> run_at bm i (unat n) b
     else start \<le> r \<and> r < bitcount bm \<and> run_at bm (unat r) (unat n) b \<and>
       (\<forall>i. unat start \<le> i \<and> i < unat r \<longrightarrow> \<not> run_at bm i (unat n) b)"
    using bitmap_scan_spec [OF assms(1), of start n b] by blast
  have "start \<noteq> BITMAP_NPOS"
    using assms(2) word_order.extremum_strict by (auto simp: BITMAP_NPOS_def)
  then have "r = start \<longleftrightarrow> run_at bm (unat start) (unat n) b"
    using r(2) assms(2) by (auto simp: word_le_nat_alt word_less_nat_alt word_unat_eq_iff split: if_splits)
  with r(1) show ?thesis by (simp add: bitmap_all_def)
qed

theorem bitmap_all_iff_witness:
  "bitmap_all demo_bitmap 5 10 False = Some (run_at demo_bitmap (unat (5 :: size_t)) (unat (10 :: size_t)) False)"
  by (rule bitmap_all_iff) (simp_all add: demo_bitmap_ok word_less_nat_alt)

subsection \<open>Taking a set bit\<close>

text \<open>The positions of the bits that are set, and the scan for one such bit.\<close>

definition set_bits :: "bitmap \<Rightarrow> nat set" where
  "set_bits bm = {i. i < nbits_of bm \<and> bit_at bm i}"

lemma finite_set_bits [simp]: "finite (set_bits bm)"
  by (simp add: set_bits_def)

lemma take_set_bit:
  assumes "bm_ok bm"
  shows "\<exists>n bm'. bitmap_scan_and_flip bm 0 1 True = Some (n, bm') \<and> bm_ok bm' \<and> bitcount bm' = bitcount bm \<and>
    (if set_bits bm = {} then n = BITMAP_NPOS \<and> bm' = bm
     else n = of_nat (Min (set_bits bm)) \<and> set_bits bm' = set_bits bm - {Min (set_bits bm)})"
proof -
  obtain r where r: "bitmap_scan bm 0 1 True = Some r"
    "if r = BITMAP_NPOS then \<forall>i. unat (0 :: size_t) \<le> i \<and> i < nbits_of bm \<longrightarrow> \<not> run_at bm i (unat (1 :: size_t)) True
     else 0 \<le> r \<and> r < bitcount bm \<and> run_at bm (unat r) (unat (1 :: size_t)) True \<and>
       (\<forall>i. unat (0 :: size_t) \<le> i \<and> i < unat r \<longrightarrow> \<not> run_at bm i (unat (1 :: size_t)) True)"
    using bitmap_scan_spec [OF assms, of 0 1 True] by blast
  have run: "run_at bm i 1 True \<longleftrightarrow> i \<in> set_bits bm" for i
    by (auto simp: run_at_def set_bits_def le_less_Suc_eq)
  show ?thesis
  proof (cases "r = BITMAP_NPOS")
    case True
    then have "set_bits bm = {}" using r(2) run by (auto simp: set_bits_def)
    then show ?thesis using r(1) True assms by (simp add: bitmap_scan_and_flip_def)
  next
    case False
    have m: "unat r \<in> set_bits bm" "\<forall>i < unat r. i \<notin> set_bits bm" using r(2) False run by auto
    then have min: "Min (set_bits bm) = unat r" by (intro Min_eqI) (auto simp: not_less [symmetric])
    obtain bm' where f: "bitmap_flip bm r 1 = Some bm'" "bm_ok bm'" "bitcount bm' = bitcount bm"
      "\<forall>i < nbits_of bm. bit_at bm' i \<longleftrightarrow>
         (if unat r \<le> i \<and> i < unat r + unat (1 :: size_t) then \<not> bit_at bm i else bit_at bm i)"
      using bitmap_flip_bits [OF assms, of r 1] by blast
    have "set_bits bm' = set_bits bm - {unat r}" using f(3,4) m(1) by (auto simp: set_bits_def le_less_Suc_eq split: if_splits)
    then show ?thesis using r(1) False f m min by (auto simp: bitmap_scan_and_flip_def)
  qed
qed

end
