(* ===== verification/Memory.thy ===== *)
theory Memory
  imports Libc Bitmap
begin

unbundle bit_operations_syntax

section \<open>Physical pages (memory.h, paging.c)\<close>

text \<open>
  Model of \<^verbatim>\<open>include/kern/memory.h\<close>, \<^verbatim>\<open>include/shared/memunit.h\<close> and of the page pools of
  \<^verbatim>\<open>kern/lib/mem/paging.c\<close>: the address arithmetic between physical and kernel addresses, the
  two pools with their occupancy bitmaps, and allocation, reservation and release of pages.
  The bitmap of a pool is kept as a typed object beside the byte memory (in the code it lives
  at the start of the pool's own region).  The pool locks are taken nowhere in the code (the
  calls are commented out) and are left out.  An assertion that fails halts the kernel (the
  build defines \<^verbatim>\<open>_DEBUG\<close>): the result is \<open>None\<close>.
\<close>

subsection \<open>Address arithmetic\<close>

definition PAGESIZE :: u64 where
  "PAGESIZE = 2 * (0x400 * 0x400)"

definition PHYSSIZE :: u64 where
  "PHYSSIZE = 0x100000000"

definition PHYSBASE :: u64 where
  "PHYSBASE = 0xFFFF800000000000"

definition phys_to_kernel :: "u64 \<Rightarrow> u64" where
  "phys_to_kernel frame = frame + PHYSBASE"

definition kernel_to_phys :: "u64 \<Rightarrow> u64" where
  "kernel_to_phys kern = kern - PHYSBASE"

definition page_round_down :: "u64 \<Rightarrow> u64" where
  "page_round_down addr = addr AND (NOT PAGESIZE + 1)"

definition page_round_up :: "u64 \<Rightarrow> u64" where
  "page_round_up addr = (addr AND (NOT PAGESIZE + 1)) + PAGESIZE"

subsection \<open>Page pools\<close>

record page_pool =
  pages :: size_t
  occupancy_map :: bitmap
  base :: u64

text \<open>
  \<^verbatim>\<open>page_pool_init\<close> reads \<^verbatim>\<open>p->pages\<close> before it sets it; \<open>buf\<close> are the words found behind the
  bitmap header in the pool's first page.
\<close>

definition page_pool_init :: "page_pool \<Rightarrow> size_t \<Rightarrow> u64 \<Rightarrow> size_t list \<Rightarrow> page_pool" where
  "page_pool_init p npages bs buf =
     (let bitmap_pages = page_round_up (pages p) div PAGESIZE
      in p\<lparr>occupancy_map := bitmap_create_buffer npages buf npages,
           base := bs + bitmap_pages * PAGESIZE,
           pages := npages - bitmap_pages\<rparr>)"

definition page_pool_alloc :: "page_pool \<Rightarrow> size_t \<Rightarrow> (u64 \<times> page_pool) option" where
  "page_pool_alloc p npages = do {
     (pg_no, bm) \<leftarrow> bitmap_scan_and_flip (occupancy_map p) 0 npages False;
     let p = p\<lparr>occupancy_map := bm\<rparr>;
     Some (if pg_no = BITMAP_NPOS then 0 else base p + pg_no * PAGESIZE, p) }"

definition page_pool_reserve :: "page_pool \<Rightarrow> u64 \<Rightarrow> page_pool option" where
  "page_pool_reserve p ph = do {
     let pgnum = phys_to_kernel ph div PAGESIZE - base p div PAGESIZE;
     taken \<leftarrow> bitmap_all (occupancy_map p) pgnum 1 True;
     if taken then None
     else do {
       bm \<leftarrow> bitmap_set (occupancy_map p) pgnum 1 True;
       Some (p\<lparr>occupancy_map := bm\<rparr>) } }"

definition page_pool_free :: "page_pool \<Rightarrow> u64 \<Rightarrow> size_t \<Rightarrow> page_pool option" where
  "page_pool_free p pg npages = do {
     let pg_no = (pg - base p) div PAGESIZE;
     bm \<leftarrow> bitmap_set (occupancy_map p) pg_no npages False;
     Some (p\<lparr>occupancy_map := bm\<rparr>) }"

definition page_pool_contains :: "page_pool \<Rightarrow> u64 \<Rightarrow> bool" where
  "page_pool_contains pool p \<longleftrightarrow> base pool \<le> p \<and> p < base pool + pages pool * PAGESIZE"

subsection \<open>The page allocator\<close>

record paging =
  mem :: bytes
  kernel_pool :: page_pool
  user_pool :: page_pool

definition PAL_ZERO :: u32 where
  "PAL_ZERO = 1"

definition PAL_USER :: u32 where
  "PAL_USER = 2"

definition get_user_base :: "('a) paging_scheme \<Rightarrow> u64" where
  "get_user_base s = base (user_pool s)"

definition get_kernel_base :: "('a) paging_scheme \<Rightarrow> u64" where
  "get_kernel_base s = base (kernel_pool s)"

definition get_user_pages :: "('a) paging_scheme \<Rightarrow> size_t" where
  "get_user_pages s = pages (user_pool s)"

definition get_kernel_pages :: "('a) paging_scheme \<Rightarrow> size_t" where
  "get_kernel_pages s = pages (kernel_pool s)"

definition page_allocate_multiple ::
  "('a) paging_scheme \<Rightarrow> u32 \<Rightarrow> size_t \<Rightarrow> (u64 \<times> ('a) paging_scheme) option" where
  "page_allocate_multiple s flags npages = do {
     (page, s) \<leftarrow> (if flags AND PAL_USER \<noteq> 0
        then do { (pg, p) \<leftarrow> page_pool_alloc (user_pool s) npages; Some (pg, s\<lparr>user_pool := p\<rparr>) }
        else do { (pg, p) \<leftarrow> page_pool_alloc (kernel_pool s) npages; Some (pg, s\<lparr>kernel_pool := p\<rparr>) });
     if page \<noteq> 0 \<and> flags AND PAL_ZERO \<noteq> 0
     then do { (m, _) \<leftarrow> memset (mem s) page 0 (PAGESIZE * npages); Some (page, s\<lparr>mem := m\<rparr>) }
     else Some (page, s) }"

definition page_allocate ::
  "('a) paging_scheme \<Rightarrow> u32 \<Rightarrow> (u64 \<times> ('a) paging_scheme) option" where
  "page_allocate s flags = do {
     (page, s) \<leftarrow> (if flags AND PAL_USER \<noteq> 0
        then do { (pg, p) \<leftarrow> page_pool_alloc (user_pool s) 1; Some (pg, s\<lparr>user_pool := p\<rparr>) }
        else do { (pg, p) \<leftarrow> page_pool_alloc (kernel_pool s) 1; Some (pg, s\<lparr>kernel_pool := p\<rparr>) });
     if page \<noteq> 0 \<and> flags AND PAL_ZERO \<noteq> 0
     then do { (m, _) \<leftarrow> memset (mem s) page 0 PAGESIZE; Some (page, s\<lparr>mem := m\<rparr>) }
     else Some (page, s) }"

definition page_free :: "('a) paging_scheme \<Rightarrow> u64 \<Rightarrow> ('a) paging_scheme option" where
  "page_free s page =
     (let frame = kernel_to_phys page
      in if page_pool_contains (kernel_pool s) frame
         then do { p \<leftarrow> page_pool_free (kernel_pool s) frame 1; Some (s\<lparr>kernel_pool := p\<rparr>) }
         else do { p \<leftarrow> page_pool_free (user_pool s) frame 1; Some (s\<lparr>user_pool := p\<rparr>) })"

text \<open>\<^verbatim>\<open>page_reserve\<close> halts when the frame belongs to neither pool.\<close>

definition page_reserve :: "('a) paging_scheme \<Rightarrow> u64 \<Rightarrow> (u64 \<times> ('a) paging_scheme) option" where
  "page_reserve s phys = do {
     let kern = phys_to_kernel phys;
     s \<leftarrow> (if get_kernel_base s \<le> kern \<and> kern < get_kernel_base s + get_kernel_pages s * PAGESIZE
          then do { p \<leftarrow> page_pool_reserve (kernel_pool s) phys; Some (s\<lparr>kernel_pool := p\<rparr>) }
          else if get_user_base s \<le> kern \<and> kern < get_user_base s + get_user_pages s * PAGESIZE
          then do { p \<leftarrow> page_pool_reserve (user_pool s) phys; Some (s\<lparr>user_pool := p\<rparr>) }
          else None);
     Some (phys_to_kernel phys, s) }"

text \<open>
  The pool layout that \<^verbatim>\<open>init_paging\<close> computes from the end of the kernel image: half of the
  pages, rounded up, go to the kernel pool, the user pool follows it.  The bitmaps' contents
  are what the memory holds.
\<close>

definition init_pools ::
  "('a) paging_scheme \<Rightarrow> u64 \<Rightarrow> size_t list \<Rightarrow> size_t list \<Rightarrow> ('a) paging_scheme" where
  "init_pools s reserved_end kbuf ubuf =
     (let total_pages = (PHYSSIZE - reserved_end) div PAGESIZE;
          user_pages = total_pages div 2;
          kernel_pages = total_pages - user_pages;
          bs = phys_to_kernel reserved_end
      in s\<lparr>kernel_pool := page_pool_init (kernel_pool s) kernel_pages bs kbuf,
           user_pool := page_pool_init (user_pool s) user_pages (bs + kernel_pages * PAGESIZE) ubuf\<rparr>)"

subsection \<open>Rounding and translation of addresses\<close>

lemma PAGESIZE_unat [simp]: "unat PAGESIZE = 2097152"
  by (simp add: PAGESIZE_def)

lemma page_mask: "NOT PAGESIZE + 1 = NOT (mask 21 :: u64)"
  by (simp add: PAGESIZE_def mask_eq_decr_exp)

lemma unat_page_round_down: "unat (page_round_down a) = unat a div 2097152 * 2097152"
proof -
  have e: "page_round_down a = push_bit 21 (drop_bit 21 a)"
    unfolding page_round_down_def page_mask by (rule bit_word_eqI) (auto simp: bit_simps)
  have "unat a div 2097152 * 2097152 \<le> unat a" by simp
  then have "unat a div 2097152 * 2097152 < 2 ^ 64" using u64_unat_bound [of a] by simp
  moreover have "unat (drop_bit 21 a) = unat a div 2097152"
    by (simp add: drop_bit_eq_div unat_div)
  moreover have "page_round_down a = drop_bit 21 a * 2097152"
    unfolding e push_bit_eq_mult by simp
  ultimately show ?thesis by (simp add: unat_word_ariths)
qed

lemma page_round_up_down: "page_round_up a = page_round_down a + PAGESIZE"
  by (simp add: page_round_up_def page_round_down_def)

text \<open>Rounding down gives the page that contains the address; rounding up gives the next
  page even for an address that is already page aligned, so it always moves past the
  address; the kernel mapping of physical memory is translated back exactly.\<close>

theorem page_rounding:
  "unat (page_round_down a) mod 2097152 = 0 \<and> page_round_down a \<le> a \<and>
   unat a - unat (page_round_down a) < 2097152 \<and>
   page_round_up a = page_round_down a + PAGESIZE \<and>
   (unat a < 2 ^ 64 - 2097152 \<longrightarrow> a < page_round_up a \<and> unat (page_round_up a) - unat a \<le> 2097152) \<and>
   kernel_to_phys (phys_to_kernel a) = a \<and> phys_to_kernel (kernel_to_phys a) = a"
proof -
  let ?d = "unat (page_round_down a)"
  have d: "?d = unat a div 2097152 * 2097152" by (rule unat_page_round_down)
  have le: "?d \<le> unat a" "unat a - ?d < 2097152" unfolding d by (simp_all add: minus_div_mult_eq_mod)
  have "a < page_round_up a \<and> unat (page_round_up a) - unat a \<le> 2097152" if "unat a < 2 ^ 64 - 2097152"
  proof -
    have "unat (page_round_up a) = ?d + 2097152"
      unfolding page_round_up_down using that le by (subst unat_add_no_overflow) simp_all
    with le show ?thesis unfolding word_less_nat_alt by linarith
  qed
  with le d show ?thesis
    by (simp add: word_le_nat_alt page_round_up_down kernel_to_phys_def phys_to_kernel_def)
qed

theorem page_rounding_witness:
  "0x200000 < page_round_up 0x200000 \<and> unat (page_round_up 0x200000) - unat (0x200000 :: u64) \<le> 2097152"
proof -
  have "unat (0x200000 :: u64) < 2 ^ 64 - 2097152" by simp
  with page_rounding show ?thesis by blast
qed

subsection \<open>Pools\<close>

text \<open>A pool is sound when its bitmap is, and every page it can name fits the address space.\<close>

definition pool_ok :: "page_pool \<Rightarrow> bool" where
  "pool_ok p \<longleftrightarrow> bm_ok (occupancy_map p) \<and> base p \<noteq> 0 \<and>
     unat (base p) + nbits_of (occupancy_map p) * 2097152 \<le> 18446744073709551616"

definition page_index :: "page_pool \<Rightarrow> u64 \<Rightarrow> nat" where
  "page_index p a = (unat a - unat (base p)) div 2097152"

lemma page_address:
  assumes "pool_ok p" "unat i < nbits_of (occupancy_map p)"
  shows "unat (base p + i * PAGESIZE) = unat (base p) + unat i * 2097152"
proof -
  have "unat i * 2097152 + 2097152 \<le> nbits_of (occupancy_map p) * 2097152" using assms(2) by simp
  then have b: "unat (base p) + unat i * 2097152 < 18446744073709551616"
    using assms(1) by (simp add: pool_ok_def)
  then have "unat (i * PAGESIZE) = unat i * 2097152"
    by (simp add: unat_word_ariths)
  with b show ?thesis by (subst unat_add_no_overflow) simp_all
qed

lemma page_pool_alloc_spec:
  assumes "pool_ok p"
  shows "\<exists>i bm. bitmap_scan_and_flip (occupancy_map p) 0 n False = Some (i, bm) \<and>
    (if i = BITMAP_NPOS then page_pool_alloc p n = Some (0, p)
     else page_pool_alloc p n = Some (base p + i * PAGESIZE, p\<lparr>occupancy_map := bm\<rparr>) \<and>
       pool_ok (p\<lparr>occupancy_map := bm\<rparr>) \<and> base p + i * PAGESIZE \<noteq> 0)"
proof -
  have ok: "bm_ok (occupancy_map p)" using assms by (simp add: pool_ok_def)
  obtain i bm where a: "bitmap_scan_and_flip (occupancy_map p) 0 n False = Some (i, bm)"
    using bp.alloc [OF ok] by blast
  note alloc = bp.allocD [OF ok a]
  show ?thesis
  proof (cases "i = BITMAP_NPOS")
    case True
    with a alloc show ?thesis by (simp add: page_pool_alloc_def)
  next
    case False
    have "unat (base p + i * PAGESIZE) \<noteq> 0"
      using page_address [OF assms alloc(3) [OF False]] assms by (simp add: pool_ok_def unat_eq_zero)
    then have "base p + i * PAGESIZE \<noteq> 0" by (metis unat_0)
    with a False alloc assms show ?thesis by (simp add: page_pool_alloc_def pool_ok_def)
  qed
qed

text \<open>C7: two runs of pages taken from a pool without a release in between lie apart: no byte
  belongs to both, for any lengths.\<close>

theorem page_allocations_disjoint:
  assumes "pool_ok p" "page_pool_alloc p n = Some (a, p1)" "a \<noteq> 0" "0 < n"
    and "page_pool_alloc p1 m = Some (b, p2)" "b \<noteq> 0" "0 < m"
  shows "unat a + unat n * 2097152 \<le> unat b \<or> unat b + unat m * 2097152 \<le> unat a"
proof -
  have ok: "bm_ok (occupancy_map p)" using assms by (simp add: pool_ok_def)
  obtain i bm where i: "bitmap_scan_and_flip (occupancy_map p) 0 n False = Some (i, bm)" "i \<noteq> BITMAP_NPOS"
    "a = base p + i * PAGESIZE" "p1 = p\<lparr>occupancy_map := bm\<rparr>" "pool_ok p1"
    using page_pool_alloc_spec [OF assms(1), of n] assms(2,3) by (auto split: if_splits)
  obtain k bm2 where k: "bitmap_scan_and_flip bm 0 m False = Some (k, bm2)" "k \<noteq> BITMAP_NPOS"
    "b = base p + k * PAGESIZE"
    using page_pool_alloc_spec [OF i(5), of m] assms(5,6) i(4) by (auto split: if_splits)
  note d1 = bp.allocD [OF ok i(1)] note d2 = bp.allocD [OF d1(1) k(1)]
  have addr: "unat a = unat (base p) + unat i * 2097152" "unat b = unat (base p) + unat k * 2097152"
    using page_address [OF assms(1) d1(3) [OF i(2)]] page_address [OF assms(1), of k] d2(3) [OF k(2)] d1(2) i(3) k(3)
    by simp_all
  note dis = bp.alloc_disjoint [OF ok i(1,2) k(1,2)]
  have nm: "0 < unat n" "0 < unat m" using assms(4,7) by (simp_all add: word_pos_iff)
  have "unat i + unat n \<le> unat k \<or> unat k + unat m \<le> unat i"
    using dis [of "unat i"] dis [of "unat k"] nm by linarith
  then show ?thesis unfolding addr by (metis add_mult_distrib add_le_cancel_left add.assoc mult_le_mono1)
qed

definition demo_pool :: page_pool where
  "demo_pool = \<lparr>pages = 6, occupancy_map = bitmap_create 7, base = 0xFFFF800000400000\<rparr>"

lemma demo_pool_ok: "pool_ok demo_pool"
  using bitmap_create_ok [of 7] by (simp add: pool_ok_def demo_pool_def)

lemma demo_pool_alloc:
  "\<exists>p1. page_pool_alloc demo_pool 2 = Some (0xFFFF800000400000, p1) \<and>
     page_pool_alloc p1 1 = Some (0xFFFF800000800000, p1\<lparr>occupancy_map := (occupancy_map p1)\<lparr>bits := [7]\<rparr>\<rparr>)"
  by (simp add: page_pool_alloc_def demo_pool_def bitmap_scan_and_flip_def bitmap_scan.simps scan_run.simps
      bitmap_test_def bitmap_elem_def bitmap_elem_put_def bitmap_mask_def bit_to_elem_def ELEM_BITS_def bitmap_flip.simps
      bitmap_create_def bitmap_bufsize_def div_rnd_up_def BITMAP_NPOS_def PAGESIZE_def Let_def)

theorem page_allocations_disjoint_witness:
  "unat (0xFFFF800000400000 :: u64) + unat (2 :: size_t) * 2097152 \<le> unat (0xFFFF800000800000 :: u64) \<or>
   unat (0xFFFF800000800000 :: u64) + unat (1 :: size_t) * 2097152 \<le> unat (0xFFFF800000400000 :: u64)"
proof -
  obtain p1 p2 where "page_pool_alloc demo_pool 2 = Some (0xFFFF800000400000, p1)"
    "page_pool_alloc p1 1 = Some (0xFFFF800000800000, p2)" using demo_pool_alloc by blast
  then show ?thesis by (intro page_allocations_disjoint [OF demo_pool_ok]) simp_all
qed

lemma zero_byte: "(ucast (0 :: u32) :: u8) = 0"
  by simp

lemma page_allocate_zero:
  assumes "page_pool_alloc (kernel_pool s) 1 = Some (a, p)" "a \<noteq> 0"
  shows "page_allocate s PAL_ZERO = Some (a, s\<lparr>kernel_pool := p,
      mem := (\<lambda>x. if in_region x a 2097152 then 0 else mem s x)\<rparr>)"
proof -
  have md: "(2097152 :: nat) mod 8 = 0" by simp
  have "memset (mem s) a 0 PAGESIZE = Some (\<lambda>x. if in_region x a 2097152 then 0 else mem s x, a)"
    using memset_spec [of "mem s" a 0 PAGESIZE] unfolding PAGESIZE_unat if_P [OF md] zero_byte .
  with assms show ?thesis by (simp add: page_allocate_def PAL_ZERO_def PAL_USER_def)
qed

text \<open>A page asked for with \<^verbatim>\<open>PAL_ZERO\<close> has every byte zero, no other byte of memory
  changes, and the pool's record of it is the one of the plain allocation.\<close>

theorem page_allocate_zeroed:
  assumes "page_pool_alloc (kernel_pool s) 1 = Some (a, p)" "a \<noteq> 0"
  shows "page_allocate s PAL_ZERO = Some (a, s\<lparr>kernel_pool := p,
      mem := (\<lambda>x. if in_region x a 2097152 then 0 else mem s x)\<rparr>)"
  using page_allocate_zero [OF assms] .

theorem page_allocate_zeroed_witness:
  "\<exists>p. page_allocate \<lparr>mem = (\<lambda>_. 0xAA), kernel_pool = demo_pool, user_pool = demo_pool\<rparr> PAL_ZERO
     = Some (0xFFFF800000400000, \<lparr>mem = (\<lambda>x. if in_region x 0xFFFF800000400000 2097152 then 0 else 0xAA),
         kernel_pool = p, user_pool = demo_pool\<rparr>)"
proof -
  have "\<exists>p. page_pool_alloc demo_pool 1 = Some (0xFFFF800000400000, p)"
    by (simp add: page_pool_alloc_def demo_pool_def bitmap_scan_and_flip_def bitmap_scan.simps scan_run.simps
      bitmap_test_def bitmap_elem_def bitmap_elem_put_def bitmap_mask_def bit_to_elem_def ELEM_BITS_def bitmap_flip.simps
      bitmap_create_def bitmap_bufsize_def div_rnd_up_def BITMAP_NPOS_def PAGESIZE_def Let_def)
  then obtain p where "page_pool_alloc demo_pool 1 = Some (0xFFFF800000400000, p)" by blast
  then have "page_pool_alloc (kernel_pool \<lparr>mem = (\<lambda>_. 0xAA), kernel_pool = demo_pool, user_pool = demo_pool\<rparr>) 1
      = Some (0xFFFF800000400000, p)" by simp
  from page_allocate_zeroed [OF this] show ?thesis by (intro exI [of _ p]) (simp cong: if_cong)
qed

subsection \<open>Releasing pages\<close>

lemma bitmap_set_beyond: "bitcount bm \<le> start \<Longrightarrow> bitmap_set bm start n b = Some bm"
  by (subst bitmap_set.simps) auto

text \<open>
  The layout the kernel runs in: both pools start in the kernel's mapping of the first four
  gigabytes and have at most one bit for each of its pages.
\<close>

definition layout_ok :: "('a) paging_scheme \<Rightarrow> bool" where
  "layout_ok s \<longleftrightarrow> (\<forall>p \<in> {kernel_pool s, user_pool s}.
     PHYSBASE \<le> base p \<and> base p - PHYSBASE \<le> PHYSSIZE \<and> bitcount (occupancy_map p) \<le> 2048)"

text \<open>\<^verbatim>\<open>page_free\<close> translates the page to its physical address before it looks for the
  pool and for the bit, both of which are kept in kernel addresses; for every page of the
  kernel mapping it therefore releases nothing.\<close>

theorem page_free_releases_nothing:
  assumes "layout_ok s" "PHYSBASE \<le> page" "page - PHYSBASE < PHYSSIZE"
  shows "page_free s page = Some s"
proof -
  define f where "f = page - PHYSBASE"
  define u where "u = base (user_pool s) - PHYSBASE"
  have f: "unat f < 4294967296" using assms(3) by (simp add: f_def PHYSSIZE_def word_less_nat_alt)
  have u: "unat u \<le> 4294967296" "base (user_pool s) = PHYSBASE + u"
    using assms(1) by (simp_all add: layout_ok_def u_def PHYSSIZE_def word_le_nat_alt)
  have "unat PHYSBASE \<le> unat (base (kernel_pool s))"
    using assms(1) by (simp add: layout_ok_def word_le_nat_alt)
  then have "\<not> base (kernel_pool s) \<le> f"
    using f by (simp add: word_le_nat_alt PHYSBASE_def)
  then have out: "\<not> page_pool_contains (kernel_pool s) f" by (simp add: page_pool_contains_def)
  have e: "f - base (user_pool s) = f + (0x800000000000 - u)"
    unfolding u(2) PHYSBASE_def by simp
  have "unat (0x800000000000 - u) = 0x800000000000 - unat u"
    using u(1) by (subst unat_sub) (simp_all add: word_le_nat_alt)
  then have "unat (f + (0x800000000000 - u)) = unat f + (0x800000000000 - unat u)"
    using f u(1) by (subst unat_add_no_overflow) simp_all
  then have "unat ((f - base (user_pool s)) div PAGESIZE) = (unat f + (0x800000000000 - unat u)) div 2097152"
    unfolding e unat_div PAGESIZE_unat by (rule arg_cong)
  moreover have "2048 * 2097152 \<le> unat f + (0x800000000000 - unat u)" using u(1) by simp
  then have "2048 \<le> (unat f + (0x800000000000 - unat u)) div 2097152" by (simp add: less_eq_div_iff_mult_less_eq)
  ultimately have "bitcount (occupancy_map (user_pool s)) \<le> (f - base (user_pool s)) div PAGESIZE"
    using assms(1) by (simp add: layout_ok_def word_le_nat_alt)
  then have "page_pool_free (user_pool s) f 1 = Some (user_pool s)"
    by (simp add: page_pool_free_def bitmap_set_beyond)
  with out show ?thesis by (simp add: page_free_def kernel_to_phys_def f_def)
qed

definition demo_paging :: paging where
  "demo_paging = \<lparr>mem = (\<lambda>_. 0), kernel_pool = demo_pool,
     user_pool = \<lparr>pages = 6, occupancy_map = bitmap_create 7, base = 0xFFFF800001200000\<rparr>\<rparr>"

theorem page_free_releases_nothing_witness:
  "page_free demo_paging 0xFFFF800000600000 = Some demo_paging"
  by (rule page_free_releases_nothing)
    (simp_all add: layout_ok_def demo_paging_def demo_pool_def PHYSBASE_def PHYSSIZE_def bitmap_create_def
      Let_def word_le_nat_alt word_less_nat_alt)

lemma page_round_up_0: "page_round_up 0 div PAGESIZE = 1"
  by (simp add: page_round_up_def PAGESIZE_def)

text \<open>From zeroed pools, the layout of \<^verbatim>\<open>init_paging\<close> gives each pool one page for its
  bitmap and one bit more than it has pages.  The page of the kernel pool's last bit is the
  first page of the user region, the one that holds the bitmap of the user pool.\<close>

theorem init_pools_last_bit:
  assumes "pages (kernel_pool s) = 0" "pages (user_pool s) = 0" "s' = init_pools s reserved_end kbuf ubuf"
  shows "pages (kernel_pool s') = bitcount (occupancy_map (kernel_pool s')) - 1 \<and>
    pages (user_pool s') = bitcount (occupancy_map (user_pool s')) - 1 \<and>
    base (kernel_pool s') = phys_to_kernel reserved_end + PAGESIZE \<and>
    base (kernel_pool s') + (bitcount (occupancy_map (kernel_pool s')) - 1) * PAGESIZE
      = base (user_pool s') - PAGESIZE"
  using assms
  by (simp add: init_pools_def page_pool_init_def Let_def page_round_up_0 bitmap_create_buffer_def
      algebra_simps)

definition demo_boot :: paging where
  "demo_boot = \<lparr>mem = (\<lambda>_. 0), kernel_pool = demo_pool\<lparr>pages := 0\<rparr>, user_pool = demo_pool\<lparr>pages := 0\<rparr>\<rparr>"

theorem init_pools_last_bit_witness:
  "\<exists>s'. s' = init_pools demo_boot 0x400000 [0] [0] \<and>
     base (kernel_pool s') + (bitcount (occupancy_map (kernel_pool s')) - 1) * PAGESIZE = base (user_pool s') - PAGESIZE"
proof -
  have "pages (kernel_pool demo_boot) = 0" "pages (user_pool demo_boot) = 0" by (simp_all add: demo_boot_def)
  from init_pools_last_bit [OF this refl] show ?thesis by blast
qed

end
