(* ===== verification/Interrupt.thy ===== *)
theory Interrupt
  imports Timer Memory
begin

unbundle bit_operations_syntax

section \<open>Interrupts (intr/interrupt.c, idt.c, tss.c, apic.c)\<close>

text \<open>
  Model of \<^verbatim>\<open>kern/lib/intr\<close>: the descriptors of the interrupt table and of the task state
  segment, the table of handlers, the dispatch of an interrupt, and what the local timer is
  programmed with.  A handler that executes \<^verbatim>\<open>hlt\<close> inside an interrupt gate never goes on, since
  the gate has cleared the interrupt flag: \<open>None\<close>.  The handlers that only print and halt
  are that.  The registers of the local controller are a map from the index of a 32-bit
  register; \<^verbatim>\<open>cpuid\<close> and \<^verbatim>\<open>rdmsr\<close> are arguments.  The addresses of the stubs of
  \<^verbatim>\<open>isrstub.s\<close> and of the task state segment are arguments.
\<close>

subsection \<open>Descriptors\<close>

record idt_reference =
  idt_limit :: u16
  idt_offset :: u64

record idt_descriptor =
  offsetl :: u16
  selector :: u16
  ist :: u8
  typeattr :: u8
  offsetm :: u16
  offseth :: u32
  idt_reserved :: u32

definition INTR_COUNT :: nat where
  "INTR_COUNT = 0x100"

definition idt_descriptor_of :: "u64 \<Rightarrow> u16 \<Rightarrow> u32 \<Rightarrow> idt_descriptor" where
  "idt_descriptor_of offset sel flags =
     \<lparr>offsetl = ucast (offset AND 0xFFFF), selector = sel, ist = 0, typeattr = ucast flags,
      offsetm = ucast (drop_bit 16 offset AND 0xFFFF), offseth = ucast (drop_bit 32 offset), idt_reserved = 0\<rparr>"

definition init_idt :: "u64 \<Rightarrow> idt_reference \<times> (nat \<Rightarrow> idt_descriptor)" where
  "init_idt table =
     (\<lparr>idt_limit = of_nat (INTR_COUNT * 16 - 1), idt_offset = table\<rparr>,
      \<lambda>_. \<lparr>offsetl = 0, selector = 0, ist = 0, typeattr = 0, offsetm = 0, offseth = 0, idt_reserved = 0\<rparr>)"

text \<open>\<^verbatim>\<open>_install_stubs\<close> fills every entry with a 64-bit interrupt gate for its stub.\<close>

definition install_stubs :: "(nat \<Rightarrow> u64) \<Rightarrow> (nat \<Rightarrow> idt_descriptor) \<Rightarrow> (nat \<Rightarrow> idt_descriptor)" where
  "install_stubs stub t = (\<lambda>n. if n < INTR_COUNT then idt_descriptor_of (stub n) 0x08 0x8E else t n)"

record tss_descriptor =
  limitl :: u16
  basel :: u16
  basem1 :: u8
  tss_typeattr :: u8
  limith :: u8
  basem2 :: u8
  baseh :: u32
  tss_reserved :: u32

text \<open>The members of \<^verbatim>\<open>struct task_state_segment\<close>, which is packed, with their sizes in bytes.\<close>

definition task_state_segment :: "(string \<times> nat) list" where
  "task_state_segment =
     [(''reserved1'', 4), (''rsp0l'', 4), (''rsp0h'', 4), (''rsp1l'', 4), (''rsp1h'', 4), (''rsp2l'', 4), (''rsp2h'', 4),
      (''reserved2'', 4), (''reserved3'', 4), (''ist1l'', 4), (''ist1h'', 4), (''ist2l'', 4), (''ist2h'', 4),
      (''ist3l'', 4), (''ist3h'', 4), (''ist4l'', 4), (''ist4h'', 4), (''ist5l'', 4), (''ist5h'', 4), (''ist6l'', 4),
      (''ist6h'', 4), (''ist7l'', 4), (''ist7h'', 4), (''reserved4'', 4), (''reserved5'', 4), (''reserved6'', 2),
      (''iomapbase'', 2)]"

definition TSS_SIZE :: u64 where
  "TSS_SIZE = of_nat (sum_list (map snd task_state_segment))"

definition init_tss :: "u64 \<Rightarrow> tss_descriptor \<Rightarrow> tss_descriptor" where
  "init_tss tss d =
     (let limit = TSS_SIZE - 1
      in d\<lparr>limitl := ucast (limit AND 0xFFFF),
           basel := ucast (tss AND 0xFFFF),
           basem1 := ucast (drop_bit 16 (tss AND 0xFF0000)),
           tss_typeattr := 0x89,
           limith := ucast (drop_bit 16 (limit AND 0xF0000)),
           basem2 := ucast (drop_bit 24 (tss AND 0xFF000000)),
           baseh := ucast (drop_bit 32 tss)\<rparr>)"

subsection \<open>The handler table\<close>

datatype handler = IntrDefault | DoubleFault | GpFault | PageFault | TimerInterrupt | DmaHandler

record interrupt =
  iname :: string
  iid :: nat
  ihandler :: handler

definition INTR_TYPE_DIV0 :: nat where "INTR_TYPE_DIV0 = 0"
definition INTR_TYPE_DBLFAULT :: nat where "INTR_TYPE_DBLFAULT = 8"
definition INTR_TYPE_GPFAULT :: nat where "INTR_TYPE_GPFAULT = 13"
definition INTR_TYPE_PGFAULT :: nat where "INTR_TYPE_PGFAULT = 14"
definition INTR_TYPE_TIMER :: nat where "INTR_TYPE_TIMER = 0x20"
definition INTR_TYPE_SPURIOUS :: nat where "INTR_TYPE_SPURIOUS = 0x27"

text \<open>
  The state of the machine: the kernel of the scheduler and the timer, and the tables and
  registers of this component.
\<close>

record machine =
  kern :: timer
  intr_table :: "nat \<Rightarrow> interrupt"
  intr_index :: int
  isr_init :: bool
  pidt :: idt_reference
  idt :: "nat \<Rightarrow> idt_descriptor"
  gdt64tss :: tss_descriptor
  apic :: "nat \<Rightarrow> u32"

definition install_interrupt_handler :: "nat \<Rightarrow> handler \<Rightarrow> ('a) machine_scheme \<Rightarrow> ('a) machine_scheme" where
  "install_interrupt_handler which h s =
     s\<lparr>intr_table := (intr_table s)(which := (intr_table s which)\<lparr>ihandler := h\<rparr>)\<rparr>"

definition name_interrupt :: "nat \<Rightarrow> string \<Rightarrow> ('a) machine_scheme \<Rightarrow> ('a) machine_scheme" where
  "name_interrupt which nm s = s\<lparr>intr_table := (intr_table s)(which := (intr_table s which)\<lparr>iname := nm\<rparr>)\<rparr>"

definition init_interrupts :: "u64 \<Rightarrow> u64 \<Rightarrow> (nat \<Rightarrow> u64) \<Rightarrow> ('a) machine_scheme \<Rightarrow> ('a) machine_scheme" where
  "init_interrupts table tss stub s =
     (let s = s\<lparr>isr_init := True, intr_index := 0\<rparr>;
          (ref, t) = init_idt table;
          s = s\<lparr>pidt := ref, idt := t\<rparr>;
          s = s\<lparr>gdt64tss := init_tss tss (gdt64tss s)\<rparr>;
          s = s\<lparr>idt := install_stubs stub (idt s)\<rparr>;
          s = s\<lparr>intr_table := \<lambda>i. if i < INTR_COUNT
                 then \<lparr>iname = ''Unknown interrupt'', iid = i, ihandler = IntrDefault\<rparr> else intr_table s i\<rparr>;
          s = name_interrupt INTR_TYPE_DIV0 ''Division by zero'' s;
          s = name_interrupt INTR_TYPE_DBLFAULT ''Double fault'' s;
          s = name_interrupt INTR_TYPE_GPFAULT ''General protection fault'' s;
          s = name_interrupt INTR_TYPE_PGFAULT ''Page fault'' s;
          s = name_interrupt INTR_TYPE_TIMER ''Timer interrupt'' s;
          s = name_interrupt INTR_TYPE_SPURIOUS ''Spurious interrupt'' s;
          s = install_interrupt_handler INTR_TYPE_DBLFAULT DoubleFault s;
          s = install_interrupt_handler INTR_TYPE_GPFAULT GpFault s
      in s\<lparr>kern := (kern s)\<lparr>intr_level := INTR_DISABLED\<rparr>\<rparr>)"

definition get_interrupt_level :: "('a) machine_scheme \<Rightarrow> interrupt_level" where
  "get_interrupt_level s = intr_level (kern s)"

definition in_interrupt :: "('a) machine_scheme \<Rightarrow> bool" where
  "in_interrupt s \<longleftrightarrow> intr_level (kern s) = INTR_CONTEXT"

subsection \<open>The local controller\<close>

definition APIC_BASE :: u64 where "APIC_BASE = 0xFEE00000"
definition APIC_SPINT_OFS :: nat where "APIC_SPINT_OFS = 0x0F0 div 4"
definition APIC_TIMER_OFS :: nat where "APIC_TIMER_OFS = 0x320 div 4"
definition APIC_COUNT_OFS :: nat where "APIC_COUNT_OFS = 0x380 div 4"
definition APIC_DVCFG_OFS :: nat where "APIC_DVCFG_OFS = 0x3E0 div 4"
definition APIC_TIMER_PRD :: u32 where "APIC_TIMER_PRD = push_bit 17 1"
definition APIC_MASK_BIT :: u32 where "APIC_MASK_BIT = push_bit 16 1"

definition set_apic :: "nat \<Rightarrow> u32 \<Rightarrow> ('a) machine_scheme \<Rightarrow> ('a) machine_scheme" where
  "set_apic what v s = (let ofs = what div 4 in s\<lparr>apic := (apic s)(ofs := apic s ofs OR v)\<rparr>)"

definition enable_apic_timer :: "int \<Rightarrow> ('a) machine_scheme \<Rightarrow> ('a) machine_scheme" where
  "enable_apic_timer quantum s =
     (let r = apic s;
          r = r(APIC_SPINT_OFS := r APIC_SPINT_OFS AND NOT 0xFF);
          r = r(APIC_SPINT_OFS := r APIC_SPINT_OFS OR of_nat INTR_TYPE_SPURIOUS);
          r = r(APIC_SPINT_OFS := r APIC_SPINT_OFS AND NOT APIC_MASK_BIT);
          r = r(APIC_TIMER_OFS := r APIC_TIMER_OFS AND NOT 0xFF);
          r = r(APIC_TIMER_OFS := r APIC_TIMER_OFS OR (APIC_TIMER_PRD OR of_nat INTR_TYPE_TIMER));
          r = r(APIC_TIMER_OFS := r APIC_TIMER_OFS AND NOT APIC_MASK_BIT);
          r = r(APIC_COUNT_OFS := of_int quantum);
          r = r(APIC_DVCFG_OFS := 0x0B)
      in s\<lparr>apic := r\<rparr>)"

text \<open>\<open>edx\<close> is what \<^verbatim>\<open>cpuid\<close> leaves there and \<open>msr\<close> the base register of the controller.\<close>

definition enable_apic :: "u32 \<Rightarrow> u64 \<Rightarrow> ('b) paging_scheme \<Rightarrow> (bool \<times> ('b) paging_scheme) option" where
  "enable_apic edx msr p =
     (if edx AND push_bit 9 1 \<noteq> 0
      then if msr AND NOT 0xFFF = APIC_BASE
           then map_option (\<lambda>(_, p). (True, p)) (page_reserve p (msr AND NOT 0xFFF))
           else None
      else Some (False, p))"

definition signal_eoi :: "('a) machine_scheme \<Rightarrow> ('a) machine_scheme" where
  "signal_eoi s = s\<lparr>apic := (apic s)(0xB0 := 0)\<rparr>"

subsection \<open>Dispatch\<close>

text \<open>
  \<open>pf\<close> is the effect of the page fault handler, which works on the page tables.
\<close>

fun run_handler ::
  "(timer \<Rightarrow> timer option) \<Rightarrow> handler \<Rightarrow> timer \<Rightarrow> (interrupt_defer \<times> timer) option" where
  "run_handler pf TimerInterrupt k = timer_interrupt k"
| "run_handler pf PageFault k = map_option (\<lambda>k. (INTRDEFR_NONE, k)) (pf k)"
| "run_handler pf DmaHandler k = Some (INTRDEFR_NONE, k)"
| "run_handler pf _ k = None"

text \<open>
  \<^verbatim>\<open>isr_common_stub\<close>.  A handler that asked for a switch would leave the rest of the function
  to the moment its thread runs again; no handler does (\<open>no_handler_yields\<close>).
\<close>

definition isr_common_stub ::
  "(timer \<Rightarrow> timer option) \<Rightarrow> nat \<Rightarrow> machine \<Rightarrow> machine option" where
  "isr_common_stub pf intr s = do {
     let old_level = intr_level (kern s);
     let s = s\<lparr>kern := set_interrupt_level INTR_CONTEXT (kern s)\<rparr>;
     (action, k) \<leftarrow> run_handler pf (ihandler (intr_table s intr)) (kern s);
     case action of
       INTRDEFR_YIELD \<Rightarrow> map_option (\<lambda>k. s\<lparr>kern := k\<rparr>) (yield_current k)
     | INTRDEFR_NONE \<Rightarrow> Some (signal_eoi (s\<lparr>kern := set_interrupt_level old_level k\<rparr>)) }"

subsection \<open>Properties of the descriptors\<close>

text \<open>How the processor puts the fields of a gate and of the segment descriptor together.\<close>

definition gate_address :: "idt_descriptor \<Rightarrow> u64" where
  "gate_address d = push_bit 32 (ucast (offseth d)) OR push_bit 16 (ucast (offsetm d)) OR ucast (offsetl d)"

definition segment_base :: "tss_descriptor \<Rightarrow> u64" where
  "segment_base d = push_bit 32 (ucast (baseh d)) OR push_bit 24 (ucast (basem2 d)) OR
     push_bit 16 (ucast (basem1 d)) OR ucast (basel d)"

definition segment_limit :: "tss_descriptor \<Rightarrow> u32" where
  "segment_limit d = push_bit 16 (ucast (limith d)) OR ucast (limitl d)"

lemma and_masks:
  "x AND 0xFFFF = take_bit 16 x" "drop_bit 16 (x AND 0xFF0000) = take_bit 8 (drop_bit 16 x)"
  "drop_bit 24 (x AND 0xFF000000) = take_bit 8 (drop_bit 24 x)" for x :: u64
  by (simp_all add: take_bit_eq_mask mask_eq_exp_minus_1)

lemma gate_address_of: "gate_address (idt_descriptor_of offset sel flags) = offset"
proof (rule bit_word_eqI)
  fix n :: nat
  assume "n < LENGTH(64)"
  then consider "n < 16" | "16 \<le> n" "n < 32" | "32 \<le> n" "n < 64" by fastforce
  then show "bit (gate_address (idt_descriptor_of offset sel flags)) n = bit offset n"
    unfolding gate_address_def idt_descriptor_of_def and_masks by cases (auto simp: bit_simps)
qed

lemma segment_base_init: "segment_base (init_tss tss d) = tss"
proof (rule bit_word_eqI)
  fix n :: nat
  assume "n < LENGTH(64)"
  then consider "n < 16" | "16 \<le> n" "n < 24" | "24 \<le> n" "n < 32" | "32 \<le> n" "n < 64" by fastforce
  then show "bit (segment_base (init_tss tss d)) n = bit tss n"
    unfolding segment_base_def init_tss_def Let_def and_masks by cases (auto simp: bit_simps)
qed

lemma segment_limit_init: "segment_limit (init_tss tss d) = 103"
  by (simp add: segment_limit_def init_tss_def Let_def TSS_SIZE_def task_state_segment_def)


subsection \<open>Properties of dispatch\<close>

lemma no_handler_yields: "run_handler pf h k = Some (a, k') \<Longrightarrow> a = INTRDEFR_NONE"
  by (cases h) (auto simp: timer_interrupt_def Let_def split: if_splits bind_splits prod.splits)

text \<open>C20: an interrupt that a handler finishes leaves the interrupt level as it was, with the
  processor's flag set as that level says; the kernel is in interrupt context when the handler starts,
  and the handler is the one installed last.  The one register of the controller that is written
  is word 0xB0: that is byte 0x2C0, not the register at byte 0xB0 (word 0x2C) that acknowledges.\<close>

theorem dispatch_restores_level:
  assumes "isr_common_stub pf n (install_interrupt_handler n h s) = Some s'"
  shows "get_interrupt_level s' = get_interrupt_level s \<and>
    (get_interrupt_level s = INTR_CONTEXT \<or> rflags_if (kern s') = get_interrupt_level s) \<and>
    apic s' = (apic s)(0xB0 := 0) \<and> apic s' (0xB0 div 4) = apic s (0xB0 div 4) \<and>
    (\<exists>k. run_handler pf h (set_interrupt_level INTR_CONTEXT (kern s)) = Some (INTRDEFR_NONE, k) \<and>
      kern s' = set_interrupt_level (get_interrupt_level s) k) \<and>
    in_interrupt (s\<lparr>kern := set_interrupt_level INTR_CONTEXT (kern s)\<rparr>)"
proof -
  let ?k = "set_interrupt_level INTR_CONTEXT (kern s)"
  from assms obtain a k where r: "run_handler pf h ?k = Some (a, k)"
    by (auto simp: isr_common_stub_def install_interrupt_handler_def Let_def split: bind_splits)
  then have a: "a = INTRDEFR_NONE" by (rule no_handler_yields)
  have "kern s' = set_interrupt_level (intr_level (kern s)) k" "apic s' = (apic s)(0xB0 := 0)"
    using assms r a by (auto simp: isr_common_stub_def install_interrupt_handler_def Let_def signal_eoi_def)
  then show ?thesis using r a
    by (auto simp: get_interrupt_level_def in_interrupt_def set_interrupt_level_def split: interrupt_level.split)
qed

text \<open>A machine.\<close>

definition demo_machine :: machine where
  "demo_machine = \<lparr>kern = demo_clock, intr_table = (\<lambda>i. \<lparr>iname = [], iid = i, ihandler = IntrDefault\<rparr>),
     intr_index = 0, isr_init = False, pidt = \<lparr>idt_limit = 0, idt_offset = 0\<rparr>, idt = snd (init_idt 0),
     gdt64tss = \<lparr>limitl = 0, basel = 0, basem1 = 0, tss_typeattr = 0, limith = 0, basem2 = 0, baseh = 0, tss_reserved = 0\<rparr>,
     apic = (\<lambda>_. 0)\<rparr>"

theorem dispatch_restores_level_witness:
  "\<exists>s'. isr_common_stub Some 0x76 (install_interrupt_handler 0x76 DmaHandler demo_machine) = Some s' \<and>
    get_interrupt_level s' = get_interrupt_level demo_machine \<and> apic s' = apic demo_machine"
proof -
  obtain s' where s': "isr_common_stub Some 0x76 (install_interrupt_handler 0x76 DmaHandler demo_machine) = Some s'"
    by (simp add: isr_common_stub_def install_interrupt_handler_def Let_def)
  show ?thesis using s' dispatch_restores_level [OF s'] by (auto simp: demo_machine_def)
qed

lemma ihandler_name [simp]: "ihandler (intr_table (name_interrupt w nm s) n) = ihandler (intr_table s n)"
  by (simp add: name_interrupt_def)

lemma ihandler_install [simp]:
  "ihandler (intr_table (install_interrupt_handler w h s) n) = (if n = w then h else ihandler (intr_table s n))"
  by (simp add: install_interrupt_handler_def)

text \<open>After \<^verbatim>\<open>init_interrupts\<close> the kernel does not survive an interrupt before its handler is
  installed: every vector of the table stops it.\<close>

theorem unhandled_interrupt_stops:
  assumes "n < INTR_COUNT"
  shows "isr_common_stub pf n (init_interrupts table tss stub s) = None"
proof -
  let ?h = "ihandler (intr_table (init_interrupts table tss stub s) n)"
  have "?h = DoubleFault \<or> ?h = GpFault \<or> ?h = IntrDefault"
    using assms by (simp add: init_interrupts_def Let_def init_idt_def)
  then show ?thesis unfolding isr_common_stub_def Let_def by auto
qed

theorem unhandled_interrupt_stops_witness:
  "isr_common_stub Some INTR_TYPE_TIMER (init_interrupts 0x200000 0x300000 (\<lambda>n. of_nat n) demo_machine) = None"
  by (rule unhandled_interrupt_stops) (simp add: INTR_TYPE_TIMER_def INTR_COUNT_def)

lemma low8: "x AND 0xFF = take_bit 8 x" for x :: u32
  by (simp add: take_bit_eq_mask mask_eq_exp_minus_1)

text \<open>What \<^verbatim>\<open>_enable_apic_timer\<close> leaves in the registers: the timer is periodic, unmasked and
  raises the timer vector, the count is the quantum; the spurious vector is set and the mask
  bit cleared, but the bit that enables the controller keeps the value it had.\<close>

theorem apic_timer_programmed:
  "let r = apic (enable_apic_timer QUANTUM s) in
   r APIC_TIMER_OFS AND 0xFF = of_nat INTR_TYPE_TIMER \<and> bit (r APIC_TIMER_OFS) 17 \<and> \<not> bit (r APIC_TIMER_OFS) 16 \<and>
   r APIC_COUNT_OFS = 100000 \<and> r APIC_SPINT_OFS AND 0xFF = of_nat INTR_TYPE_SPURIOUS \<and>
   bit (r APIC_SPINT_OFS) 8 = bit (apic s APIC_SPINT_OFS) 8 \<and>
   (\<forall>i. i = APIC_TIMER_OFS \<or> i = APIC_COUNT_OFS \<or> i = APIC_SPINT_OFS \<or> i = APIC_DVCFG_OFS \<or> r i = apic s i)"
proof -
  have r: "apic (enable_apic_timer QUANTUM s) = (apic s)
    (APIC_SPINT_OFS := ((apic s APIC_SPINT_OFS AND NOT 0xFF) OR 0x27) AND NOT 0x10000,
     APIC_TIMER_OFS := ((apic s APIC_TIMER_OFS AND NOT 0xFF) OR (0x20000 OR 0x20)) AND NOT 0x10000,
     APIC_COUNT_OFS := 100000, APIC_DVCFG_OFS := 0x0B)"
    by (simp add: enable_apic_timer_def Let_def APIC_SPINT_OFS_def APIC_TIMER_OFS_def APIC_COUNT_OFS_def
        APIC_DVCFG_OFS_def APIC_TIMER_PRD_def APIC_MASK_BIT_def INTR_TYPE_SPURIOUS_def INTR_TYPE_TIMER_def QUANTUM_def)
  have t: "(((x AND NOT 0xFF) OR (0x20000 OR 0x20)) AND NOT 0x10000) AND 0xFF = 0x20"
    "bit (((x AND NOT 0xFF) OR (0x20000 OR 0x20)) AND NOT 0x10000) 17"
    "\<not> bit (((x AND NOT 0xFF) OR (0x20000 OR 0x20)) AND NOT 0x10000) 16"
    "(((x AND NOT 0xFF) OR 0x27) AND NOT 0x10000) AND 0xFF = 0x27"
    "bit (((x AND NOT 0xFF) OR 0x27) AND NOT 0x10000) 8 = bit x 8" for x :: u32
    unfolding low8 by (simp_all add: take_bit_or take_bit_and bit_simps)
  show ?thesis
    unfolding Let_def r using t
    by (simp add: APIC_SPINT_OFS_def APIC_TIMER_OFS_def APIC_COUNT_OFS_def APIC_DVCFG_OFS_def INTR_TYPE_SPURIOUS_def INTR_TYPE_TIMER_def)
qed

end
