(* ===== verification/Heap.thy ===== *)
theory Heap
  imports Memory Klist
begin

unbundle bit_operations_syntax

section \<open>The kernel heap (mem/heap.c, heapstruct.h)\<close>

text \<open>
  Model of \<^verbatim>\<open>kern/lib/mem/heap.c\<close> and \<^verbatim>\<open>include/shared/heapstruct.h\<close>.  The sixteen free lists
  are lists of the intrusive list memory, named by the index of their descriptor; the element
  of a block is at its start, so that an element is the address of its block.  An arena header
  is at the start of its page.  Headers and list elements are kept as typed objects beside the
  byte memory.  The smallest blocks have eight bytes, half the size of a list element: there the
  elements of neighbours overlap, what the code does is not described by typed lists, and the
  model stops (\<open>None\<close>) when such a block is asked for.  The descriptor locks, which are taken
  around the whole work on a descriptor once threads run, are left out.  \<open>junk\<close> is the value
  of the variable that \<^verbatim>\<open>kmalloc\<close> returns unset for a request above the largest block.
\<close>

subsection \<open>State\<close>

record heap_desc =
  block_size :: size_t
  arena_size :: size_t

record heap_arena =
  amagic :: size_t
  desc :: nat
  free_count :: size_t

definition ARENA_MAGIC :: size_t where
  "ARENA_MAGIC = 0x9A548EED"

definition HEAP_ARENA_SIZE :: size_t where
  "HEAP_ARENA_SIZE = 24"

definition LIST_ELEM_SIZE :: size_t where
  "LIST_ELEM_SIZE = 16"

definition HEAPBLOCKSZ :: size_t where
  "HEAPBLOCKSZ = PAGESIZE"

record heap = paging +
  descriptors :: "nat \<Rightarrow> heap_desc"
  free_lists :: "(nat, u64) lheap"
  arenas :: "u64 \<Rightarrow> heap_arena"

definition NDESC :: nat where
  "NDESC = 16"

definition block_get_arena :: "u64 \<Rightarrow> u64" where
  "block_get_arena b = b div HEAPBLOCKSZ * HEAPBLOCKSZ"

definition arena_get_block :: "heap \<Rightarrow> u64 \<Rightarrow> size_t \<Rightarrow> u64" where
  "arena_get_block s a i = a + HEAP_ARENA_SIZE + i * block_size (descriptors s (desc (arenas s a)))"

definition init_desc :: "nat \<Rightarrow> heap_desc" where
  "init_desc i = (let bs = push_bit i 8 in \<lparr>block_size = bs, arena_size = (PAGESIZE - HEAP_ARENA_SIZE) div bs\<rparr>)"

definition init_heap :: "heap \<Rightarrow> heap" where
  "init_heap s =
     s\<lparr>descriptors := (\<lambda>i. if i < NDESC then init_desc i else descriptors s i),
       free_lists := foldl list_init (free_lists s) [0..<NDESC]\<rparr>"

subsection \<open>Allocation\<close>

definition find_desc :: "heap \<Rightarrow> size_t \<Rightarrow> nat option" where
  "find_desc s sz = find (\<lambda>i. block_size (descriptors s i) \<ge> sz) [0..<NDESC]"

definition push_block :: "nat \<Rightarrow> u64 \<Rightarrow> heap \<Rightarrow> heap option" where
  "push_block d b s = do { h \<leftarrow> list_push_back (free_lists s) d (Elem b); Some (s\<lparr>free_lists := h\<rparr>) }"

definition remove_block :: "nat \<Rightarrow> u64 \<Rightarrow> heap \<Rightarrow> heap option" where
  "remove_block d b s = do { h \<leftarrow> list_remove (free_lists s) d (Elem b); Some (s\<lparr>free_lists := h\<rparr>) }"

text \<open>A fresh page as an arena of the descriptor \<open>d\<close>; a write to the null page faults.\<close>

definition new_arena :: "nat \<Rightarrow> heap \<Rightarrow> heap option" where
  "new_arena d s = do {
     (a, s) \<leftarrow> page_allocate s PAL_ZERO;
     if a = 0 then None
     else do {
       let n = arena_size (descriptors s d);
       let s = s\<lparr>arenas := (arenas s)(a := \<lparr>amagic = ARENA_MAGIC, desc = d, free_count = n\<rparr>)\<rparr>;
       ofold (\<lambda>i s. push_block d (arena_get_block s a (of_nat i)) s) [0..<unat n] s } }"

text \<open>
  \<^verbatim>\<open>memset\<close> of a block also clears the list elements in it: the element of the block itself, which is at
  its start, and every other element that starts inside.
\<close>

definition erase_elems :: "u64 \<Rightarrow> nat \<Rightarrow> (nat, u64) lheap \<Rightarrow> (nat, u64) lheap" where
  "erase_elems b n h =
     (let inside = (\<lambda>p. case p of Elem e \<Rightarrow> in_region e b n | _ \<Rightarrow> False)
      in h\<lparr>prev := (\<lambda>p. if inside p then NULL else prev h p), nxt := (\<lambda>p. if inside p then NULL else nxt h p)\<rparr>)"

text \<open>The block at the front of the free list: it is cleared, its list element with it, and counted.\<close>

definition take_block :: "nat \<Rightarrow> heap \<Rightarrow> (u64 \<times> heap) option" where
  "take_block d s = do {
     (p, h) \<leftarrow> list_pop_front (free_lists s) d;
     b \<leftarrow> elem_value p;
     let s = s\<lparr>free_lists := h\<rparr>;
     (m, _) \<leftarrow> memset (mem s) b 0 (block_size (descriptors s d));
     let s = s\<lparr>mem := m, free_lists := erase_elems b (unat (block_size (descriptors s d))) (free_lists s)\<rparr>;
     let a = block_get_arena b;
     if amagic (arenas s a) \<noteq> ARENA_MAGIC then None
     else Some (b, s\<lparr>arenas := (arenas s)(a := (arenas s a)\<lparr>free_count := free_count (arenas s a) - 1\<rparr>)\<rparr>) }"

definition kmalloc :: "u64 \<Rightarrow> size_t \<Rightarrow> heap \<Rightarrow> (u64 \<times> heap) option" where
  "kmalloc junk sz s =
     (if sz = 0 then Some (0, s)
      else case find_desc s sz of
        None \<Rightarrow> Some (junk, s)
      | Some d \<Rightarrow>
          if block_size (descriptors s d) < LIST_ELEM_SIZE then None
          else do {
            s \<leftarrow> (if list_empty (free_lists s) d then new_arena d s else Some s);
            take_block d s })"

definition kcalloc :: "u64 \<Rightarrow> size_t \<Rightarrow> size_t \<Rightarrow> heap \<Rightarrow> (u64 \<times> heap) option" where
  "kcalloc junk nmemb sz s = kmalloc junk (nmemb * sz) s"

subsection \<open>Release\<close>

definition kfree :: "u64 \<Rightarrow> heap \<Rightarrow> heap option" where
  "kfree p s =
     (if p = 0 then Some s
      else do {
        let a = block_get_arena p;
        let d = desc (arenas s a);
        s \<leftarrow> push_block d p s;
        let s = s\<lparr>arenas := (arenas s)(a := (arenas s a)\<lparr>free_count := free_count (arenas s a) + 1\<rparr>)\<rparr>;
        if free_count (arenas s a) = arena_size (descriptors s d)
        then do {
          s \<leftarrow> ofold (\<lambda>i s. remove_block d (arena_get_block s a (of_nat i)) s)
                 [0..<unat (arena_size (descriptors s d))] s;
          page_free s a }
        else push_block d p s })"

subsection \<open>Pages of the kernel pool\<close>

definition taken :: "page_pool \<Rightarrow> u64 \<Rightarrow> bool" where
  "taken p a \<longleftrightarrow> (\<exists>k < nbits_of (occupancy_map p). bit_at (occupancy_map p) k \<and> unat a = unat (base p) + k * 2097152)"

text \<open>The pool is sound, page aligned and in the kernel's half of the address space.\<close>

definition kpool_ok :: "page_pool \<Rightarrow> bool" where
  "kpool_ok p \<longleftrightarrow> pool_ok p \<and> 2097152 dvd unat (base p) \<and> PHYSBASE \<le> base p"

lemma taken_page:
  assumes "kpool_ok p" "taken p a"
  shows "2097152 dvd unat a" "unat a + 2097152 \<le> 18446744073709551616" "a \<noteq> 0" "PHYSBASE \<le> a"
proof -
  obtain k where k: "k < nbits_of (occupancy_map p)" "unat a = unat (base p) + k * 2097152"
    using assms(2) by (auto simp: taken_def)
  then have "Suc k * 2097152 \<le> nbits_of (occupancy_map p) * 2097152" by (intro mult_le_mono1) simp
  then show "unat a + 2097152 \<le> 18446744073709551616" using assms(1) k(2) by (simp add: kpool_ok_def pool_ok_def)
  show "2097152 dvd unat a" using assms(1) k(2) by (simp add: kpool_ok_def)
  have "unat (base p) \<noteq> 0" using assms(1) by (simp add: kpool_ok_def pool_ok_def unat_eq_zero)
  then have "unat a \<noteq> 0" unfolding k(2) by simp
  then show "a \<noteq> 0" by (metis unat_0)
  show "PHYSBASE \<le> a" using assms(1) k(2) by (simp add: kpool_ok_def word_le_nat_alt)
qed

lemma page_allocate_page:
  assumes "kpool_ok (kernel_pool s)"
  obtains "page_allocate s PAL_ZERO = Some (0, s)"
  | a p where "page_allocate s PAL_ZERO = Some (a, s\<lparr>kernel_pool := p,
        mem := (\<lambda>x. if in_region x a 2097152 then 0 else mem s x)\<rparr>)"
      "kpool_ok p" "taken p a" "\<not> taken (kernel_pool s) a" "\<And>x. taken (kernel_pool s) x \<Longrightarrow> taken p x"
proof -
  let ?p = "kernel_pool s"
  have po: "pool_ok ?p" and ok: "bm_ok (occupancy_map ?p)" using assms by (simp_all add: kpool_ok_def pool_ok_def)
  obtain i bm where i: "bitmap_scan_and_flip (occupancy_map ?p) 0 1 False = Some (i, bm)"
    "if i = BITMAP_NPOS then page_pool_alloc ?p 1 = Some (0, ?p)
     else page_pool_alloc ?p 1 = Some (base ?p + i * PAGESIZE, ?p\<lparr>occupancy_map := bm\<rparr>) \<and>
       pool_ok (?p\<lparr>occupancy_map := bm\<rparr>) \<and> base ?p + i * PAGESIZE \<noteq> 0"
    using page_pool_alloc_spec [OF po, of 1] by blast
  note al = bp.allocD [OF ok i(1)]
  show thesis
  proof (cases "i = BITMAP_NPOS")
    case True
    then have "page_allocate s PAL_ZERO = Some (0, s)"
      using i(2) by (simp add: page_allocate_def PAL_ZERO_def PAL_USER_def)
    then show thesis by (rule that(1))
  next
    case False
    let ?a = "base ?p + i * PAGESIZE" and ?q = "?p\<lparr>occupancy_map := bm\<rparr>"
    have r: "page_pool_alloc ?p 1 = Some (?a, ?q)" "pool_ok ?q" "?a \<noteq> 0" using i(2) False by simp_all
    have addr: "unat ?a = unat (base ?p) + unat i * 2097152" by (rule page_address [OF po al(3) [OF False]])
    have used: "bit_at bm j \<longleftrightarrow> bit_at (occupancy_map ?p) j \<or> j = unat i" if "j < nbits_of (occupancy_map ?p)" for j
      using al(6) [OF False that] by auto
    have "kpool_ok ?q" using r(2) assms by (simp add: kpool_ok_def)
    moreover have "taken ?q ?a" using used [OF al(3) [OF False]] al(3) [OF False] al(2) addr
      by (auto simp: taken_def)
    moreover have "\<not> taken ?p ?a" using al(5) [OF False, of "unat i"] addr by (auto simp: taken_def)
    moreover have "taken ?q x" if "taken ?p x" for x using that used al(2) by (auto simp: taken_def)
    ultimately show thesis using that(2) [OF page_allocate_zero [OF r(1,3)]] by blast
  qed
qed

subsection \<open>Blocks and arenas\<close>

lemma init_desc_sizes:
  assumes "i < NDESC"
  shows "unat (block_size (init_desc i)) = 2 ^ (i + 3)" "unat (arena_size (init_desc i)) = 2097128 div 2 ^ (i + 3)"
proof -
  have i: "i < 16" using assms by (simp add: NDESC_def)
  then have "(2 :: nat) ^ (i + 3) < 2 ^ 64" by (intro power_strict_increasing) simp_all
  moreover have "unat (push_bit i 8 :: size_t) = 2 ^ (i + 3) mod 2 ^ 64"
  proof -
    have "(push_bit i 8 :: size_t) = word_of_nat (2 ^ (i + 3))" by (simp add: push_bit_eq_mult power_add)
    then have "unat (push_bit i 8 :: size_t) = unat (word_of_nat (2 ^ (i + 3)) :: size_t)" by (rule arg_cong)
    also have "\<dots> = 2 ^ (i + 3) mod 2 ^ LENGTH(64)" by (rule unat_of_nat)
    finally show ?thesis by simp
  qed
  ultimately have sz: "unat (push_bit i 8 :: size_t) = 2 ^ (i + 3)" by simp
  then show "unat (block_size (init_desc i)) = 2 ^ (i + 3)" by (simp add: init_desc_def Let_def)
  have "unat (PAGESIZE - HEAP_ARENA_SIZE) = 2097128" by (simp add: PAGESIZE_def HEAP_ARENA_SIZE_def)
  then show "unat (arena_size (init_desc i)) = 2097128 div 2 ^ (i + 3)"
    using sz by (simp add: init_desc_def Let_def unat_div)
qed

text \<open>\<open>b\<close> is a block of an arena of the descriptor \<open>i\<close>.\<close>

definition block_in :: "nat \<Rightarrow> u64 \<Rightarrow> u64 \<Rightarrow> bool" where
  "block_in i a b \<longleftrightarrow> (\<exists>k < 2097128 div 2 ^ (i + 3). unat b = unat a + 24 + k * 2 ^ (i + 3))"

definition is_arena :: "heap \<Rightarrow> nat \<Rightarrow> u64 \<Rightarrow> bool" where
  "is_arena s i a \<longleftrightarrow> taken (kernel_pool s) a \<and> amagic (arenas s a) = ARENA_MAGIC \<and> desc (arenas s a) = i"

definition heap_block :: "heap \<Rightarrow> nat \<Rightarrow> u64 \<Rightarrow> bool" where
  "heap_block s i b \<longleftrightarrow> i < NDESC \<and> (\<exists>a. is_arena s i a \<and> block_in i a b)"

lemma block_in_bounds: "block_in i a b \<Longrightarrow> unat a + 24 \<le> unat b \<and> unat b + 2 ^ (i + 3) \<le> unat a + 2097152"
proof -
  assume "block_in i a b"
  then obtain k where k: "Suc k \<le> 2097128 div 2 ^ (i + 3)" "unat b = unat a + 24 + k * 2 ^ (i + 3)"
    by (auto simp: block_in_def)
  have "Suc k * 2 ^ (i + 3) \<le> 2097128 div 2 ^ (i + 3) * 2 ^ (i + 3)" using k(1) by (rule mult_le_mono1)
  also have "\<dots> \<le> 2097128" by simp
  finally show ?thesis using k(2) by simp
qed

lemma block_arena:
  assumes "kpool_ok p" "taken p a" "block_in i a b"
  shows "block_get_arena b = a"
proof -
  have a: "unat b div 2097152 * 2097152 = unat a"
  proof -
    obtain q where q: "unat a = 2097152 * q" using taken_page(1) [OF assms(1,2)] by blast
    have "2097152 * q \<le> unat b" "unat b < 2097152 * q + 2097152"
      using block_in_bounds [OF assms(3)] zero_less_power [of "2 :: nat" "i + 3"] unfolding q by linarith+
    then have "unat b div 2097152 = q" by (simp add: div_nat_eqI)
    then show ?thesis using q by simp
  qed
  have "unat (block_get_arena b) = (unat b div 2097152 * 2097152) mod 2 ^ 64"
    unfolding block_get_arena_def HEAPBLOCKSZ_def unat_word_ariths(2) unat_div PAGESIZE_unat by simp
  also have "\<dots> = unat b div 2097152 * 2097152"
    unfolding a using unat_less_2p [of a] by simp
  finally have "unat (block_get_arena b) = unat b div 2097152 * 2097152" .
  then show ?thesis using a by (metis word_unat_eq_iff)
qed

text \<open>Different blocks share no byte.\<close>

lemma blocks_apart:
  assumes "kpool_ok (kernel_pool s)" "heap_block s i b" "heap_block s j c" "b \<noteq> c"
  shows "unat b + 2 ^ (i + 3) \<le> unat c \<or> unat c + 2 ^ (j + 3) \<le> unat b"
proof -
  obtain a a' where a: "is_arena s i a" "block_in i a b" "is_arena s j a'" "block_in j a' c"
    using assms(2,3) by (auto simp: heap_block_def)
  note bounds = block_in_bounds [OF a(2)] block_in_bounds [OF a(4)]
  show ?thesis
  proof (cases "a = a'")
    case True
    then have ij: "i = j" using a(1,3) by (simp add: is_arena_def)
    define P :: nat where "P = 2 ^ (i + 3)"
    obtain k l where k: "unat b = unat a + 24 + k * P" "unat c = unat a + 24 + l * P"
      using a(2,4) True ij by (auto simp: block_in_def P_def)
    have "k \<noteq> l" using k assms(4) by (metis word_unat_eq_iff)
    then consider "Suc k \<le> l" | "Suc l \<le> k" by linarith
    then have "unat b + P \<le> unat c \<or> unat c + P \<le> unat b"
    proof cases
      case 1
      then have "Suc k * P \<le> l * P" by (rule mult_le_mono1)
      then show ?thesis using k by simp
    next
      case 2
      then have "Suc l * P \<le> k * P" by (rule mult_le_mono1)
      then show ?thesis using k by simp
    qed
    then show ?thesis using ij by (simp add: P_def)
  next
    case False
    have "2097152 dvd unat a" "2097152 dvd unat a'"
      using taken_page(1) [OF assms(1)] a(1,3) unfolding is_arena_def by blast+
    then obtain q q' where q: "unat a = 2097152 * q" "unat a' = 2097152 * q'" by (elim dvdE)
    have "q \<noteq> q'" using q False by (metis word_unat_eq_iff)
    then have "unat a + 2097152 \<le> unat a' \<or> unat a' + 2097152 \<le> unat a" unfolding q by linarith
    then show ?thesis using bounds by linarith
  qed
qed

subsection \<open>The invariant\<close>

text \<open>
  \<open>U\<close> are the blocks that are in use: every free or used block is a block of an arena of the
  kernel pool, and no block in use is on a free list.
\<close>

definition heap_inv :: "u64 set \<Rightarrow> heap \<Rightarrow> (nat \<rightharpoonup> u64 list) \<Rightarrow> bool" where
  "heap_inv U s f \<longleftrightarrow>
     (\<forall>i < NDESC. descriptors s i = init_desc i) \<and> lists_rep (free_lists s) f \<and> (\<forall>i. f i \<noteq> None \<longleftrightarrow> i < NDESC) \<and>
     kpool_ok (kernel_pool s) \<and> (\<forall>i xs b. f i = Some xs \<longrightarrow> b \<in> set xs \<longrightarrow> heap_block s i b) \<and>
     (\<forall>b \<in> U. \<exists>i. heap_block s i b) \<and> U \<inter> linked f = {}"

lemma heap_invD:
  assumes "heap_inv U s f"
  shows "i < NDESC \<Longrightarrow> descriptors s i = init_desc i" "lists_rep (free_lists s) f" "i < NDESC \<Longrightarrow> \<exists>xs. f i = Some xs"
    "kpool_ok (kernel_pool s)" "f i = Some xs \<Longrightarrow> b \<in> set xs \<Longrightarrow> heap_block s i b"
    "b \<in> U \<Longrightarrow> \<exists>i. heap_block s i b" "U \<inter> linked f = {}" "f i = Some xs \<Longrightarrow> i < NDESC"
  using assms unfolding heap_inv_def by blast+

lemma heap_invI:
  assumes "\<And>i. i < NDESC \<Longrightarrow> descriptors s i = init_desc i" "lists_rep (free_lists s) f" "\<And>i. f i \<noteq> None \<longleftrightarrow> i < NDESC"
    "kpool_ok (kernel_pool s)" "\<And>i xs b. f i = Some xs \<Longrightarrow> b \<in> set xs \<Longrightarrow> heap_block s i b"
    "\<And>b. b \<in> U \<Longrightarrow> \<exists>i. heap_block s i b" "U \<inter> linked f = {}"
  shows "heap_inv U s f"
  using assms unfolding heap_inv_def by blast

lemma heap_inv_linked: "heap_inv U s f \<Longrightarrow> b \<in> linked f \<Longrightarrow> \<exists>i. heap_block s i b"
  using heap_invD(5) unfolding linked_iff by blast

text \<open>The blocks of a fresh arena.\<close>

definition arena_blocks :: "nat \<Rightarrow> u64 \<Rightarrow> u64 list" where
  "arena_blocks d a = map (\<lambda>k. a + HEAP_ARENA_SIZE + of_nat k * block_size (init_desc d)) [0..<2097128 div 2 ^ (d + 3)]"

lemma arena_block_address:
  assumes "d < NDESC" "unat a + 2097152 \<le> 18446744073709551616" "k < 2097128 div 2 ^ (d + 3)"
  shows "unat (a + HEAP_ARENA_SIZE + of_nat k * block_size (init_desc d)) = unat a + 24 + k * 2 ^ (d + 3)"
proof -
  have "Suc k * 2 ^ (d + 3) \<le> 2097128 div 2 ^ (d + 3) * 2 ^ (d + 3)" using assms(3) by (intro mult_le_mono1) simp
  also have "\<dots> \<le> 2097128" by simp
  finally have k: "k * 2 ^ (d + 3) + 2 ^ (d + 3) \<le> 2097128" by simp
  have "2097128 div 2 ^ (d + 3) \<le> (2097128 :: nat)" by (rule div_le_dividend)
  then have "k < 18446744073709551616" using assms(3) by linarith
  then have "unat (of_nat k :: u64) = k" by (intro unat_eq_of_nat) simp
  then have m: "unat (of_nat k * block_size (init_desc d)) = k * 2 ^ (d + 3)"
    using k init_desc_sizes(1) [OF assms(1)] by (simp add: unat_word_ariths)
  have h: "unat (a + HEAP_ARENA_SIZE) = unat a + 24"
    using assms(2) by (subst unat_add_no_overflow) (simp_all add: HEAP_ARENA_SIZE_def)
  have "(0 :: nat) < 2 ^ (d + 3)" by simp
  then have "unat a + 24 + k * 2 ^ (d + 3) < 18446744073709551616" using k assms(2) by linarith
  then show ?thesis using h m by (subst unat_add_no_overflow) simp_all
qed

lemma arena_blocks_in:
  assumes "d < NDESC" "unat a + 2097152 \<le> 18446744073709551616"
  shows "b \<in> set (arena_blocks d a) \<Longrightarrow> block_in d a b" "distinct (arena_blocks d a)" "arena_blocks d a \<noteq> []"
    "length (arena_blocks d a) < 18446744073709551615"
proof -
  let ?n = "2097128 div 2 ^ (d + 3) :: nat"
  note addr = arena_block_address [OF assms]
  show "b \<in> set (arena_blocks d a) \<Longrightarrow> block_in d a b"
    using addr by (fastforce simp: arena_blocks_def block_in_def)
  have "inj_on (\<lambda>k. a + HEAP_ARENA_SIZE + of_nat k * block_size (init_desc d)) {0..<?n}"
  proof (rule inj_onI)
    fix k l
    assume kl: "k \<in> {0..<?n}" "l \<in> {0..<?n}"
      "a + HEAP_ARENA_SIZE + of_nat k * block_size (init_desc d) = a + HEAP_ARENA_SIZE + of_nat l * block_size (init_desc d)"
    then have "unat a + 24 + k * 2 ^ (d + 3) = unat a + 24 + l * 2 ^ (d + 3)"
      using addr [of k] addr [of l] by (metis atLeastLessThan_iff)
    then show "k = l" by simp
  qed
  then show "distinct (arena_blocks d a)" by (simp add: arena_blocks_def distinct_map)
  have "(2 :: nat) ^ (d + 3) \<le> 2 ^ 18" using assms(1) by (intro power_increasing) (simp_all add: NDESC_def)
  then have "2 ^ (d + 3) \<le> (2097128 :: nat)" by simp
  then have "0 < ?n" by (simp add: div_greater_zero_iff)
  then show "arena_blocks d a \<noteq> []" by (simp add: arena_blocks_def)
  have "?n \<le> 2097128" by (rule div_le_dividend)
  then have "?n < 18446744073709551615" by linarith
  then show "length (arena_blocks d a) < 18446744073709551615" by (simp add: arena_blocks_def)
qed

lemma push_blocks:
  assumes "lists_rep (free_lists s) f" "f d = Some xs" "distinct (map g ks)" "set (map g ks) \<inter> linked f = {}"
    "length xs + length ks < 18446744073709551616" "\<And>h k. arena_get_block (s\<lparr>free_lists := h\<rparr>) a (of_nat k) = g k"
  shows "\<exists>h. ofold (\<lambda>i s. push_block d (arena_get_block s a (of_nat i)) s) ks s = Some (s\<lparr>free_lists := h\<rparr>) \<and>
    lists_rep h (f(d \<mapsto> xs @ map g ks))"
  using assms
proof (induction ks arbitrary: s f xs)
  case Nil
  then have "f(d \<mapsto> xs) = f" by (simp add: map_upd_triv)
  then show ?case using Nil by (intro exI [of _ "free_lists s"]) simp
next
  case (Cons k ks)
  have g: "arena_get_block s a (of_nat k) = g k" using Cons.prems(6) [of "free_lists s" k] by simp
  obtain h where h: "list_push_back (free_lists s) d (Elem (g k)) = Some h" "lists_rep h (f(d \<mapsto> xs @ [g k]))"
    using kl.push [OF Cons.prems(1,2), of "g k"] Cons.prems(4,5) by auto
  have "set (map g ks) \<inter> linked (f(d \<mapsto> xs @ [g k])) = {}"
    unfolding linked_upd [OF Cons.prems(1,2)] using Cons.prems(3,4) linked_sub [of f, OF Cons.prems(2)] by auto
  then have "\<exists>h'. ofold (\<lambda>i s. push_block d (arena_get_block s a (of_nat i)) s) ks (s\<lparr>free_lists := h\<rparr>)
      = Some (s\<lparr>free_lists := h, free_lists := h'\<rparr>) \<and> lists_rep h' (f(d \<mapsto> xs @ [g k], d \<mapsto> (xs @ [g k]) @ map g ks))"
    using Cons.prems(3,5,6) h(2) by (intro Cons.IH) (simp_all del: fun_upd_apply add: fun_upd_same)
  then obtain h' where "ofold (\<lambda>i s. push_block d (arena_get_block s a (of_nat i)) s) ks (s\<lparr>free_lists := h\<rparr>)
      = Some (s\<lparr>free_lists := h'\<rparr>)" "lists_rep h' (f(d \<mapsto> xs @ map g (k # ks)))" by auto
  then show ?case using h(1) g by (intro exI [of _ h']) (simp add: push_block_def del: fun_upd_apply)
qed

text \<open>A fresh arena: its blocks are all new, and the memory outside its page is unchanged.\<close>

lemma new_arena_inv:
  assumes inv: "heap_inv U s f" and d: "d < NDESC" "f d = Some []"
  obtains "page_allocate s PAL_ZERO = Some (0, s)" "new_arena d s = None"
  | a s1 where "new_arena d s = Some s1" "heap_inv U s1 (f(d \<mapsto> arena_blocks d a))" "arena_blocks d a \<noteq> []"
      "\<And>b i. heap_block s i b \<Longrightarrow> heap_block s1 i b" "\<And>x. \<not> in_region x a 2097152 \<Longrightarrow> mem s1 x = mem s x"
      "\<not> taken (kernel_pool s) a" "taken (kernel_pool s1) a"
proof -
  note D = heap_invD [OF inv]
  note desc = D(1) [OF d(1)]
  from page_allocate_page [OF D(4)] show thesis
  proof cases
    case 1
    then have "new_arena d s = None" by (simp add: new_arena_def)
    with 1 show thesis by (rule that(1))
  next
    case (2 a p)
    let ?m = "\<lambda>x. if in_region x a 2097152 then 0 else mem s x"
    let ?s = "s\<lparr>kernel_pool := p, mem := ?m,
        arenas := (arenas s)(a := \<lparr>amagic = ARENA_MAGIC, desc = d, free_count = arena_size (init_desc d)\<rparr>)\<rparr>"
    note page = taken_page [OF 2(2,3)]
    note bl = arena_blocks_in [OF d(1) page(2)]
    have keep: "heap_block (?s\<lparr>free_lists := h\<rparr>) i b" if hb: "heap_block s i b" for h i b
    proof -
      obtain a' where a': "i < NDESC" "is_arena s i a'" "block_in i a' b" using hb by (auto simp: heap_block_def)
      then have "a' \<noteq> a" using 2(4) by (auto simp: is_arena_def)
      then show ?thesis using a' 2(5) unfolding heap_block_def is_arena_def by (intro conjI exI [of _ a']) simp_all
    qed
    have new: "heap_block (?s\<lparr>free_lists := h\<rparr>) d b" if "b \<in> set (arena_blocks d a)" for h b
      using bl(1) [OF that] d(1) 2(3) by (auto simp: heap_block_def is_arena_def)
    have fresh: "b \<notin> set (arena_blocks d a)" if hb: "heap_block s i b" for i b
    proof
      assume "b \<in> set (arena_blocks d a)"
      then have "block_get_arena b = a" using block_arena [OF 2(2,3) bl(1)] by blast
      moreover obtain a' where "is_arena s i a'" "block_in i a' b" using hb by (auto simp: heap_block_def)
      moreover have "block_get_arena b = a'"
        using calculation(2,3) block_arena [OF D(4)] by (auto simp: is_arena_def)
      ultimately show False using 2(4) by (auto simp: is_arena_def)
    qed
    have g: "arena_get_block (?s\<lparr>free_lists := h\<rparr>) a (of_nat k)
        = a + HEAP_ARENA_SIZE + of_nat k * block_size (init_desc d)" for h k
      using desc by (simp add: arena_get_block_def)
    let ?ks = "[0..<2097128 div 2 ^ (d + 3)]"
    have lists: "lists_rep (free_lists ?s) f" using D(2) by simp
    have disj: "set (arena_blocks d a) \<inter> linked f = {}"
      using fresh heap_inv_linked [OF inv] by blast
    obtain h where h: "ofold (\<lambda>i s. push_block d (arena_get_block s a (of_nat i)) s) ?ks ?s = Some (?s\<lparr>free_lists := h\<rparr>)"
      "lists_rep h (f(d \<mapsto> arena_blocks d a))"
      using push_blocks [OF lists d(2) _ _ _ g, of ?ks] bl(2,4) disj unfolding arena_blocks_def by auto
    have "new_arena d s = Some (?s\<lparr>free_lists := h\<rparr>)"
      using 2(1) page(3) h(1) desc init_desc_sizes(2) [OF d(1)] by (simp add: new_arena_def Let_def)
    moreover have "heap_inv U (?s\<lparr>free_lists := h\<rparr>) (f(d \<mapsto> arena_blocks d a))"
    proof -
      have "f i \<noteq> None \<longleftrightarrow> i < NDESC" for i using D(3) D(8) by blast
      then show ?thesis
      proof (intro heap_invI)
        fix b
        assume "b \<in> U"
        then show "\<exists>i. heap_block (?s\<lparr>free_lists := h\<rparr>) i b" using D(6) keep by blast
      next
        fix i xs b
        assume "(f(d \<mapsto> arena_blocks d a)) i = Some xs" "b \<in> set xs"
        then show "heap_block (?s\<lparr>free_lists := h\<rparr>) i b" using new keep D(5) by (cases "i = d") auto
      next
        show "U \<inter> linked (f(d \<mapsto> arena_blocks d a)) = {}"
          unfolding linked_upd [OF D(2) d(2)] using D(6,7) fresh by blast
      qed (use D(1) h(2) 2(2) d in auto)
    qed
    ultimately show thesis
      using that(2) [of "?s\<lparr>free_lists := h\<rparr>" a] bl(3) keep 2(3,4) by auto
  qed
qed

subsection \<open>Allocation\<close>

lemma find_desc_least:
  assumes "heap_inv U s f" "0 < sz" "sz \<le> 0x40000"
  obtains d where "find_desc s sz = Some d" "d < NDESC" "unat sz \<le> 2 ^ (d + 3)" "d = 0 \<or> 2 ^ (d + 2) < unat sz"
proof -
  have size: "(block_size (descriptors s i) \<ge> sz) = (unat sz \<le> 2 ^ (i + 3))" if "i < NDESC" for i
    using heap_invD(1) [OF assms(1) that] init_desc_sizes(1) [OF that] by (simp add: word_le_nat_alt)
  have "unat sz \<le> 2 ^ (15 + 3)" using assms(3) by (simp add: word_le_nat_alt)
  then have "\<exists>i \<in> set [0..<NDESC]. block_size (descriptors s i) \<ge> sz"
    using size [of 15] by (intro bexI [of _ 15]) (simp_all add: NDESC_def)
  then obtain d where d: "find_desc s sz = Some d"
    unfolding find_desc_def by (metis find_None_iff not_None_eq)
  then have p: "d < NDESC" "block_size (descriptors s d) \<ge> sz" "\<forall>j < d. \<not> block_size (descriptors s j) \<ge> sz"
    unfolding find_desc_def find_Some_iff by auto
  have "d = 0 \<or> 2 ^ (d + 2) < unat sz"
  proof (cases d)
    case (Suc e)
    then have "\<not> unat sz \<le> 2 ^ (e + 3)" using p(1,3) size [of e] by simp
    moreover have "d + 2 = e + 3" using Suc by simp
    ultimately show ?thesis by (metis not_le)
  qed simp
  then show thesis using d p(1,2) size [OF p(1)] that by blast
qed

lemma block_region_bound: "kpool_ok (kernel_pool s) \<Longrightarrow> heap_block s i b \<Longrightarrow> unat b + 2 ^ (i + 3) \<le> 18446744073709551616 \<and> b \<noteq> 0"
proof -
  assume "kpool_ok (kernel_pool s)" "heap_block s i b"
  then obtain a where "is_arena s i a" "block_in i a b" "unat a + 2097152 \<le> 18446744073709551616"
    using taken_page(2) unfolding heap_block_def is_arena_def by blast
  then show ?thesis using block_in_bounds [of i a b] by auto
qed

lemma erase_elems_rep:
  assumes "lists_rep h f" "\<And>e. e \<in> linked f \<Longrightarrow> \<not> in_region e b n"
  shows "lists_rep (erase_elems b n h) f"
proof -
  have "list_rep (erase_elems b n h) l xs" if "f l = Some xs" for l xs
  proof (rule list_rep_frame)
    show "same_outside {} {e. in_region e b n} h (erase_elems b n h)"
      by (auto simp: same_outside_def erase_elems_def Let_def split: ptr.split)
    show "set xs \<inter> {e. in_region e b n} = {}" using assms(2) linked_sub [of f, OF that] by auto
  qed (use lists_repD [OF assms(1) that] in auto)
  then show ?thesis using assms(1) by (auto simp: lists_rep_def)
qed

lemma block_not_inside:
  assumes "kpool_ok (kernel_pool s)" "heap_block s d b" "heap_block s i e" "e \<noteq> b"
  shows "\<not> in_region e b (2 ^ (d + 3))"
proof
  assume r: "in_region e b (2 ^ (d + 3))"
  define P where "P = (2 :: nat) ^ (d + 3)"
  have "0 < (2 :: nat) ^ (i + 3)" by simp
  then have "unat b + P \<le> unat e \<or> unat e < unat b"
    using blocks_apart [OF assms(1-3) assms(4) [symmetric]] unfolding P_def by linarith
  moreover have "unat b + P \<le> 18446744073709551616" using block_region_bound [OF assms(1,2)] by (simp add: P_def)
  moreover have "unat (e - b) < P" using r by (simp add: in_region_def P_def)
  moreover have "unat (e - b) = (if unat b \<le> unat e then unat e - unat b else unat e + 18446744073709551616 - unat b)"
    by (simp add: unat_sub_if' word_le_nat_alt)
  ultimately show False using u64_unat_bound [of e] by (auto split: if_splits)
qed

lemma take_block_inv:
  assumes inv: "heap_inv U s f" and f: "f d = Some (b # xs)"
  obtains s' where "take_block d s = Some (b, s')" "heap_inv (insert b U) s' (f(d \<mapsto> xs))"
    "mem s' = (\<lambda>x. if in_region x b (2 ^ (d + 3)) then 0 else mem s x)" "\<And>c i. heap_block s i c \<Longrightarrow> heap_block s' i c"
    "kernel_pool s' = kernel_pool s"
proof -
  note D = heap_invD [OF inv]
  have d: "d < NDESC" by (rule D(8) [OF f])
  have hb: "heap_block s d b" using D(5) [OF f] by simp
  obtain a where a: "is_arena s d a" "block_in d a b" using hb by (auto simp: heap_block_def)
  have ba: "block_get_arena b = a" using block_arena [OF D(4) _ a(2)] a(1) by (simp add: is_arena_def)
  obtain h where h: "list_pop_front (free_lists s) d = Some (Elem b, h)" "lists_rep h (f(d \<mapsto> xs))"
    using lists_pop_front [OF D(2) f] by blast
  note sz = init_desc_sizes(1) [OF d]
  have "(2 :: nat) ^ (d + 3) mod 8 = 0" by (simp add: power_add)
  then have ms: "memset (mem s) b 0 (block_size (descriptors s d))
      = Some (\<lambda>x. if in_region x b (2 ^ (d + 3)) then 0 else mem s x, b)"
    using memset_spec [of "mem s" b 0 "block_size (descriptors s d)"] sz D(1) [OF d] unfolding zero_byte by simp
  define s' where "s' = s\<lparr>free_lists := erase_elems b (2 ^ (d + 3)) h, mem := (\<lambda>x. if in_region x b (2 ^ (d + 3)) then 0 else mem s x),
      arenas := (arenas s)(a := (arenas s a)\<lparr>free_count := free_count (arenas s a) - 1\<rparr>)\<rparr>"
  have blk: "heap_block s' i c" if "heap_block s i c" for i c
    using that by (auto simp: heap_block_def is_arena_def s'_def)
  have "take_block d s = Some (b, s')"
    using h(1) ms a(1) sz D(1) [OF d] by (simp add: take_block_def ba is_arena_def s'_def)
  moreover have erased: "lists_rep (erase_elems b (2 ^ (d + 3)) h) (f(d \<mapsto> xs))"
  proof (rule erase_elems_rep [OF h(2)])
    fix e assume e: "e \<in> linked (f(d \<mapsto> xs))"
    have "b \<notin> set xs" using kl.dist [OF D(2) f] by simp
    then have "e \<noteq> b" "e \<in> linked f"
      using e unfolding linked_upd [OF D(2) f] using linked_sub [of f, OF f] by auto
    then show "\<not> in_region e b (2 ^ (d + 3))"
      using heap_inv_linked [OF inv] block_not_inside [OF D(4) hb] by blast
  qed
  moreover have "heap_inv (insert b U) s' (f(d \<mapsto> xs))"
  proof (intro heap_invI)
    fix c
    assume "c \<in> insert b U"
    then show "\<exists>i. heap_block s' i c" using hb D(6) blk by blast
  next
    fix i ys c
    assume "(f(d \<mapsto> xs)) i = Some ys" "c \<in> set ys"
    then show "heap_block s' i c" using D(5) f blk by (cases "i = d") auto
  next
    fix i
    show "(f(d \<mapsto> xs)) i \<noteq> None \<longleftrightarrow> i < NDESC" using D(3,8) d by auto
  next
    have "b \<notin> set xs" using kl.dist [OF D(2) f] by simp
    then show "insert b U \<inter> linked (f(d \<mapsto> xs)) = {}"
      unfolding linked_upd [OF D(2) f] using D(7) linked_sub [of f, OF f] by auto
  qed (use D(1,4) erased in \<open>auto simp: s'_def\<close>)
  ultimately show thesis using that [of s'] blk by (simp add: s'_def)
qed

text \<open>The block that \<^verbatim>\<open>kmalloc\<close> gives is new, clear, large enough and apart from every block in use.\<close>

lemma kmalloc_fresh:
  assumes inv: "heap_inv U s f" and sz: "8 < sz" "sz \<le> 0x40000"
  shows "(kmalloc junk sz s = None \<and> page_allocate s PAL_ZERO = Some (0, s) \<and>
      (\<exists>d < NDESC. unat sz \<le> 2 ^ (d + 3) \<and> f d = Some [])) \<or>
    (\<exists>b s' f' d. kmalloc junk sz s = Some (b, s') \<and> heap_inv (insert b U) s' f' \<and> b \<notin> U \<and> b \<noteq> 0 \<and>
      heap_block s' d b \<and> unat sz \<le> 2 ^ (d + 3) \<and> 2 ^ (d + 2) < unat sz \<and>
      (\<forall>x. in_region x b (2 ^ (d + 3)) \<longrightarrow> mem s' x = 0) \<and>
      (\<forall>c j. heap_block s j c \<longrightarrow> heap_block s' j c) \<and>
      (\<forall>c \<in> U. \<exists>i. heap_block s' i c \<and> (unat b + 2 ^ (d + 3) \<le> unat c \<or> unat c + 2 ^ (i + 3) \<le> unat b)))"
proof -
  note D = heap_invD [OF inv]
  have pos: "0 < sz" using sz(1) by (simp add: word_less_nat_alt)
  obtain d where d: "find_desc s sz = Some d" "d < NDESC" "unat sz \<le> 2 ^ (d + 3)" "d = 0 \<or> 2 ^ (d + 2) < unat sz"
    using find_desc_least [OF inv pos sz(2)] .
  have big: "8 < unat sz" using sz(1) by (simp add: word_less_nat_alt)
  have "d \<noteq> 0"
  proof
    assume "d = 0"
    then show False using big d(3) by simp
  qed
  then have d1: "2 ^ (d + 2) < unat sz" "d \<noteq> 0" using d(4) by blast+
  then have "(2 :: nat) ^ 4 \<le> 2 ^ (d + 3)" by (intro power_increasing) simp_all
  then have fits: "\<not> block_size (descriptors s d) < LIST_ELEM_SIZE"
    using init_desc_sizes(1) [OF d(2)] D(1) [OF d(2)] by (simp add: word_less_nat_alt LIST_ELEM_SIZE_def)
  have km: "kmalloc junk sz s = do { s \<leftarrow> (if list_empty (free_lists s) d then new_arena d s else Some s); take_block d s }"
    using pos d(1) fits by (auto simp: kmalloc_def)
  obtain xs where xs: "f d = Some xs" using D(3) [OF d(2)] by blast
  have emp: "list_empty (free_lists s) d \<longleftrightarrow> xs = []" by (rule list_rep_empty [OF lists_repD [OF D(2) xs]])
  have fin: ?thesis
    if s1: "kmalloc junk sz s = take_block d s1" "heap_inv U s1 f1" "f1 d = Some (b # ys)"
      "\<And>c j. heap_block s j c \<Longrightarrow> heap_block s1 j c" for s1 f1 b ys
  proof -
    obtain s' where s': "take_block d s1 = Some (b, s')" "heap_inv (insert b U) s' (f1(d \<mapsto> ys))"
      "mem s' = (\<lambda>x. if in_region x b (2 ^ (d + 3)) then 0 else mem s1 x)" "\<And>c i. heap_block s1 i c \<Longrightarrow> heap_block s' i c"
      using take_block_inv [OF s1(2,3)] by blast
    note D1 = heap_invD [OF s1(2)] note D2 = heap_invD [OF s'(2)]
    have hb: "heap_block s' d b" using s'(4) D1(5) [OF s1(3)] by simp
    have "b \<notin> U" using D1(7) linked_sub [of f1, OF s1(3)] by auto
    moreover have "\<exists>i. heap_block s' i c \<and> (unat b + 2 ^ (d + 3) \<le> unat c \<or> unat c + 2 ^ (i + 3) \<le> unat b)" if cU: "c \<in> U" for c
    proof -
      obtain i where "heap_block s' i c" using s'(4) D1(6) [OF cU] by blast
      moreover have "b \<noteq> c" using cU \<open>b \<notin> U\<close> by blast
      ultimately show ?thesis using blocks_apart [OF D2(4) hb] by blast
    qed
    moreover have "b \<noteq> 0" using block_region_bound [OF D2(4) hb] by blast
    moreover have "\<forall>x. in_region x b (2 ^ (d + 3)) \<longrightarrow> mem s' x = 0" unfolding s'(3) by simp
    moreover have "kmalloc junk sz s = Some (b, s')" using s1(1) s'(1) by simp
    moreover have "\<forall>c j. heap_block s j c \<longrightarrow> heap_block s' j c" using s1(4) s'(4) by blast
    ultimately show ?thesis using s'(2) hb d(3) d1(1) by blast
  qed
  show ?thesis
  proof (cases xs)
    case (Cons b ys)
    then show ?thesis using fin [of s f b ys] km emp inv xs by simp
  next
    case Nil
    then have f: "f d = Some []" using xs by simp
    from new_arena_inv [OF inv d(2) f] show ?thesis
    proof cases
      case 1
      then show ?thesis using km emp Nil d(2,3) f by auto
    next
      case (2 a s1)
      then obtain b ys where "arena_blocks d a = b # ys" by (cases "arena_blocks d a") auto
      then show ?thesis using fin [of s1 "f(d \<mapsto> arena_blocks d a)" b ys] 2(1,2,4) km emp Nil by simp
    qed
  qed
qed

text \<open>C8: as long as blocks are only taken, \<^verbatim>\<open>kmalloc\<close> with a size above eight bytes gives a block of
  the least size class that is large enough: it is not in use already, shares no byte with a
  block in use, is all zero, and the heap keeps its invariant with the block added to those
  in use.  It fails only when the size class is empty and the pool has no page left.\<close>

theorem kmalloc_fresh_block:
  assumes inv: "heap_inv U s f" and sz: "8 < sz" "sz \<le> 0x40000"
  shows "(kmalloc junk sz s = None \<and> page_allocate s PAL_ZERO = Some (0, s) \<and>
      (\<exists>d < NDESC. unat sz \<le> 2 ^ (d + 3) \<and> f d = Some [])) \<or>
    (\<exists>b s' f' d. kmalloc junk sz s = Some (b, s') \<and> heap_inv (insert b U) s' f' \<and> b \<notin> U \<and> b \<noteq> 0 \<and>
      heap_block s' d b \<and> unat sz \<le> 2 ^ (d + 3) \<and> 2 ^ (d + 2) < unat sz \<and>
      (\<forall>x. in_region x b (2 ^ (d + 3)) \<longrightarrow> mem s' x = 0) \<and>
      (\<forall>c j. heap_block s j c \<longrightarrow> heap_block s' j c) \<and>
      (\<forall>c \<in> U. \<exists>i. heap_block s' i c \<and> (unat b + 2 ^ (d + 3) \<le> unat c \<or> unat c + 2 ^ (i + 3) \<le> unat b)))"
  by (rule kmalloc_fresh [OF assms])

subsection \<open>The start\<close>

lemma lists_init_all:
  "lists_rep (foldl list_init h [0..<n]) (\<lambda>i. if i < n then Some [] else None)"
proof (induction n)
  case 0
  then show ?case by (simp add: lists_rep_def)
next
  case (Suc n)
  have e: "(\<lambda>i. if i < Suc n then Some [] else None) = (\<lambda>i. if i < n then Some [] else None)(n \<mapsto> [])"
    by (auto simp: fun_eq_iff)
  have "lists_rep (list_init (foldl list_init h [0..<n]) n) ((\<lambda>i. if i < n then Some [] else None)(n \<mapsto> []))"
    by (rule lists_init [OF Suc]) simp
  then show ?case unfolding e by (simp del: fun_upd_apply)
qed

definition no_blocks :: "nat \<rightharpoonup> u64 list" where
  "no_blocks = (\<lambda>i. if i < NDESC then Some [] else None)"

lemma init_heap_inv:
  assumes "kpool_ok (kernel_pool s)" shows "heap_inv {} (init_heap s) no_blocks"
  using assms lists_init_all [of "free_lists s" NDESC]
  by (intro heap_invI) (auto simp: init_heap_def no_blocks_def linked_iff split: if_splits)

definition demo_heap :: heap where
  "demo_heap = \<lparr>mem = (\<lambda>_. 0xAA), kernel_pool = demo_pool, user_pool = demo_pool, descriptors = (\<lambda>_. \<lparr>block_size = 0, arena_size = 0\<rparr>),
     free_lists = \<lparr>prev = (\<lambda>_. NULL), nxt = (\<lambda>_. NULL), lsize = (\<lambda>_. 0)\<rparr>,
     arenas = (\<lambda>_. \<lparr>amagic = 0, desc = 0, free_count = 0\<rparr>)\<rparr>"

lemma demo_heap_inv: "heap_inv {} (init_heap demo_heap) no_blocks"
proof (rule init_heap_inv)
  show "kpool_ok (kernel_pool demo_heap)"
    using demo_pool_ok by (simp add: kpool_ok_def demo_heap_def demo_pool_def PHYSBASE_def)
qed

lemma demo_pool_page: "\<exists>p. page_pool_alloc demo_pool 1 = Some (0xFFFF800000400000, p)"
  by (simp add: page_pool_alloc_def demo_pool_def bitmap_scan_and_flip_def bitmap_scan.simps scan_run.simps
    bitmap_test_def bitmap_elem_def bitmap_elem_put_def bitmap_mask_def bit_to_elem_def ELEM_BITS_def bitmap_flip.simps
    bitmap_create_def bitmap_bufsize_def div_rnd_up_def BITMAP_NPOS_def PAGESIZE_def Let_def)

lemma demo_heap_page:
  assumes "kernel_pool s = demo_pool"
  shows "page_allocate s PAL_ZERO \<noteq> Some (0, s)"
proof -
  obtain p where "page_pool_alloc (kernel_pool s) 1 = Some (0xFFFF800000400000, p)"
    using assms demo_pool_page by auto
  from page_allocate_zero [OF this] show ?thesis by simp
qed

lemma demo_heap_page1: "page_allocate (init_heap demo_heap) PAL_ZERO \<noteq> Some (0, init_heap demo_heap)"
  by (rule demo_heap_page) (simp add: init_heap_def demo_heap_def)

theorem kmalloc_fresh_block_witness:
  "\<exists>b s' f'. kmalloc 7 100 (init_heap demo_heap) = Some (b, s') \<and> heap_inv {b} s' f' \<and> b \<noteq> 0"
proof -
  have "8 < (100 :: size_t)" "(100 :: size_t) \<le> 0x40000" by simp_all
  from kmalloc_fresh_block [OF demo_heap_inv this, of 7] demo_heap_page1 show ?thesis by auto
qed

text \<open>A request above the largest block is answered with whatever the unset variable holds,
  and nothing is allocated; a request for no bytes is answered with null.\<close>

theorem kmalloc_too_large:
  assumes "heap_inv U s f" "0x40000 < sz"
  shows "kmalloc junk sz s = Some (junk, s) \<and> kmalloc junk 0 s = Some (0, s)"
proof -
  have "find_desc s sz = None"
    unfolding find_desc_def find_None_iff
  proof
    assume "\<exists>i. i \<in> set [0..<NDESC] \<and> sz \<le> block_size (descriptors s i)"
    then obtain i where i: "i < NDESC" "sz \<le> block_size (init_desc i)"
      using heap_invD(1) [OF assms(1)] by auto
    have "(2 :: nat) ^ (i + 3) \<le> 2 ^ 18" using i(1) by (intro power_increasing) (simp_all add: NDESC_def)
    then have "unat sz \<le> 0x40000" using i(2) init_desc_sizes(1) [OF i(1)] by (simp add: word_le_nat_alt)
    then show False using assms(2) by (simp add: word_less_nat_alt)
  qed
  moreover have "sz \<noteq> 0" using assms(2) by auto
  ultimately show ?thesis by (simp add: kmalloc_def)
qed

theorem kmalloc_too_large_witness:
  "kmalloc 7 0x40001 (init_heap demo_heap) = Some (7, init_heap demo_heap) \<and>
   kmalloc 7 0 (init_heap demo_heap) = Some (0, init_heap demo_heap)"
  by (rule kmalloc_too_large [OF demo_heap_inv]) simp

subsection \<open>Release\<close>

lemma pushed_twice:
  assumes "list_rep h l []" "in_region b b n"
  shows "\<exists>h1 h2 h3. list_push_back h l (Elem b) = Some h1 \<and> list_push_back h1 l (Elem b) = Some h2 \<and>
    list_size h2 l = 2 \<and> list_pop_front h2 l = Some (Elem b, h3) \<and> list_size (erase_elems b n h3) l = 1 \<and>
    list_begin (erase_elems b n h3) l = Elem b \<and> list_pop_front (erase_elems b n h3) l = None"
proof -
  have h: "lsize h l = 0" "nxt h (Head l) = Tail l" "prev h (Tail l) = Head l"
    using assms list_rep_empty [OF assms(1)] by (simp_all add: list_rep_def list_empty_def list_size_def)
  define h1 where "h1 = h\<lparr>prev := (prev h)(Elem b := Head l, Tail l := Elem b),
     nxt := (nxt h)(Head l := Elem b, Elem b := Tail l), lsize := (lsize h)(l := 1)\<rparr>"
  define h2 where "h2 = h1\<lparr>prev := (prev h1)(Elem b := Elem b), lsize := (lsize h)(l := 2)\<rparr>"
  define h3 where "h3 = h2\<lparr>prev := (prev h2)(Tail l := Elem b), lsize := (lsize h)(l := 1)\<rparr>"
  have p1: "list_push_back h l (Elem b) = Some h1"
    using h by (simp add: list_push_back_def list_empty_def list_size_def field_defs h1_def fun_upd_twist)
  have p2: "list_push_back h1 l (Elem b) = Some h2"
    by (simp add: list_push_back_def list_empty_def list_size_def field_defs h1_def h2_def fun_eq_iff)
  have p3: "list_pop_front h2 l = Some (Elem b, h3)"
    by (simp add: list_pop_front_def unlink_def list_begin_def list_empty_def list_size_def field_defs h1_def h2_def
        h3_def fun_eq_iff Let_def)
  have e: "list_size h2 l = 2" "list_size (erase_elems b n h3) l = 1"
    by (simp_all add: list_size_def h2_def h3_def erase_elems_def Let_def)
  have p4: "list_begin (erase_elems b n h3) l = Elem b"
    using e(2) by (simp add: list_begin_def list_empty_def) (simp add: erase_elems_def h3_def h2_def h1_def Let_def)
  moreover have "prev (erase_elems b n h3) (Elem b) = NULL" using assms(2) by (simp add: erase_elems_def Let_def)
  ultimately have "list_pop_front (erase_elems b n h3) l = None"
    using e(2) by (simp add: list_pop_front_def unlink_def field_defs list_empty_def)
  with p1 p2 p3 p4 e show ?thesis by blast
qed

text \<open>The rest of \<open>take_block\<close> depends only on the block and its arena.\<close>

lemma take_block_popped:
  assumes "kpool_ok (kernel_pool s)" "heap_block s d b" "list_pop_front (free_lists s) d = Some (Elem b, h)"
  shows "\<exists>m r. take_block d s =
    Some (b, s\<lparr>free_lists := erase_elems b (unat (block_size (descriptors s d))) h, mem := m, arenas := r\<rparr>)"
proof -
  obtain a where a: "is_arena s d a" "block_in d a b" using assms(2) by (auto simp: heap_block_def)
  have ba: "block_get_arena b = a" using block_arena [OF assms(1) _ a(2)] a(1) by (simp add: is_arena_def)
  obtain m where m: "memset (mem s) b 0 (block_size (descriptors s d)) = Some (m, b)" using memset_spec by blast
  let ?r = "(arenas s)(a := (arenas s a)\<lparr>free_count := free_count (arenas s a) - 1\<rparr>)"
  show ?thesis using assms(3) m a(1) by (intro exI [of _ m] exI [of _ ?r]) (simp add: take_block_def ba is_arena_def)
qed

lemma find_desc_class:
  assumes "\<And>i. i < NDESC \<Longrightarrow> descriptors s i = init_desc i" "d < NDESC" "unat sz \<le> 2 ^ (d + 3)" "2 ^ (d + 2) < unat sz"
  shows "find_desc s sz = Some d"
proof -
  have size: "(sz \<le> block_size (descriptors s i)) = (unat sz \<le> 2 ^ (i + 3))" if "i < NDESC" for i
    using assms(1) [OF that] init_desc_sizes(1) [OF that] by (simp add: word_le_nat_alt)
  have "\<not> sz \<le> block_size (descriptors s j)" if "j < d" for j
  proof -
    have "(2 :: nat) ^ (j + 3) \<le> 2 ^ (d + 2)" using that by (intro power_increasing) simp_all
    then show ?thesis using size [of j] that assms(2,4) by simp
  qed
  then show ?thesis
    unfolding find_desc_def find_Some_iff using assms(2,3) size [OF assms(2)]
    by (intro exI [of _ d]) simp
qed

lemma kmalloc_take:
  assumes "\<And>i. i < NDESC \<Longrightarrow> descriptors s i = init_desc i" "d < NDESC" "0 < d" "unat sz \<le> 2 ^ (d + 3)"
    "2 ^ (d + 2) < unat sz" "\<not> list_empty (free_lists s) d"
  shows "kmalloc junk sz s = take_block d s"
proof -
  have "(2 :: nat) ^ 4 \<le> 2 ^ (d + 3)" using assms(3) by (intro power_increasing) simp_all
  then have "\<not> block_size (descriptors s d) < LIST_ELEM_SIZE"
    using init_desc_sizes(1) [OF assms(2)] assms(1) [OF assms(2)] by (simp add: word_less_nat_alt LIST_ELEM_SIZE_def)
  moreover have "sz \<noteq> 0" using assms(5) by auto
  ultimately show ?thesis using find_desc_class [OF assms(1,2,4,5)] assms(6) by (simp add: kmalloc_def)
qed



subsection \<open>What an allocation leaves alone\<close>

lemma push_block_mem: "push_block d b s = Some s' \<Longrightarrow> mem s' = mem s \<and> user_pool s' = user_pool s \<and> kernel_pool s' = kernel_pool s"
  by (auto simp: push_block_def split: bind_splits)

lemma page_allocate_only_clears:
  "page_allocate s PAL_ZERO = Some (a, s') \<Longrightarrow> user_pool s' = user_pool s \<and> (mem s' x = mem s x \<or> mem s' x = 0)"
  by (auto simp: page_allocate_def memset_spec PAL_ZERO_def PAL_USER_def split: bind_splits if_splits)

lemma new_arena_page:
  assumes "new_arena d t = Some t'"
  obtains a u where "page_allocate t PAL_ZERO = Some (a, u)" "mem t' = mem u" "user_pool t' = user_pool u" "kernel_pool t' = kernel_pool u"
proof -
  obtain r where r: "page_allocate t PAL_ZERO = Some r" using assms by (auto simp: new_arena_def split: bind_splits)
  obtain a u where a: "page_allocate t PAL_ZERO = Some (a, u)" using r by (cases r) simp
  have "a \<noteq> 0" using assms by (simp add: new_arena_def a split: if_splits)
  then have f: "ofold (\<lambda>i s. push_block d (arena_get_block s a (of_nat i)) s) [0..<unat (arena_size (descriptors u d))]
      (u\<lparr>arenas := (arenas u)(a := \<lparr>amagic = ARENA_MAGIC, desc = d, free_count = arena_size (descriptors u d)\<rparr>)\<rparr>) = Some t'"
    using assms by (simp add: new_arena_def Let_def a)
  have "mem t' = mem u \<and> user_pool t' = user_pool u \<and> kernel_pool t' = kernel_pool u"
    by (rule ofold_inv [OF _ f, where P = "\<lambda>t. mem t = mem u \<and> user_pool t = user_pool u \<and> kernel_pool t = kernel_pool u"])
      (auto dest: push_block_mem)
  then show thesis using a that by blast
qed

lemma take_block_pools:
  "take_block d t = Some (c, t') \<Longrightarrow>
    user_pool t' = user_pool t \<and> kernel_pool t' = kernel_pool t \<and> (mem t' x = mem t x \<or> mem t' x = 0)"
  by (auto simp: take_block_def memset_spec Let_def split: bind_splits if_splits)

lemma kmalloc_blocks:
  assumes "kmalloc junk sz s = Some (b, s')"
  obtains "s' = s" | d t where "take_block d t = Some (b, s')" "t = s \<or> new_arena d s = Some t"
  using assms by (auto simp: kmalloc_def split: bind_splits if_splits option.splits)

text \<open>An allocation changes memory only to clear it, and takes no page of the user pool and at most one
  of the kernel's.\<close>

lemma kmalloc_only_clears:
  assumes "kmalloc junk sz s = Some (b, s')"
  shows "user_pool s' = user_pool s \<and> (mem s' x = mem s x \<or> mem s' x = 0)"
  using assms
proof (cases rule: kmalloc_blocks)
  case (2 d t)
  have "user_pool t = user_pool s \<and> (mem t x = mem s x \<or> mem t x = 0)"
    using 2(2) by (auto elim!: new_arena_page dest!: page_allocate_only_clears [where x = x])
  then show ?thesis using take_block_pools [OF 2(1), of x] by auto
qed simp

lemma kmalloc_takes_page:
  assumes "kmalloc junk sz s = Some (b, s')"
  shows "kernel_pool s' = kernel_pool s \<or> (\<exists>a. page_pool_alloc (kernel_pool s) 1 = Some (a, kernel_pool s'))"
  using assms
proof (cases rule: kmalloc_blocks)
  case (2 d t)
  have "kernel_pool t = kernel_pool s \<or> (\<exists>a. page_pool_alloc (kernel_pool s) 1 = Some (a, kernel_pool t))"
    using 2(2)
    by (auto elim!: new_arena_page simp: page_allocate_def memset_spec PAL_ZERO_def PAL_USER_def split: bind_splits if_splits)
  then show ?thesis using take_block_pools [OF 2(1)] by auto
qed simp

lemma demo_pool_pages:
  "\<exists>p. page_pool_alloc demo_pool 1 = Some (0xFFFF800000400000, p) \<and>
    page_pool_alloc p 1 = Some (0xFFFF800000600000, p\<lparr>occupancy_map := (occupancy_map p)\<lparr>bits := [3]\<rparr>\<rparr>)"
  by (simp add: page_pool_alloc_def demo_pool_def bitmap_scan_and_flip_def bitmap_scan.simps scan_run.simps
    bitmap_test_def bitmap_elem_def bitmap_elem_put_def bitmap_mask_def bit_to_elem_def ELEM_BITS_def bitmap_flip.simps
    bitmap_create_def bitmap_bufsize_def div_rnd_up_def BITMAP_NPOS_def PAGESIZE_def Let_def)

lemma second_page:
  assumes "kernel_pool s = demo_pool" "kmalloc junk sz s = Some (b, s')"
  shows "page_allocate s' PAL_ZERO \<noteq> Some (0, s')"
proof -
  obtain c p where "page_pool_alloc (kernel_pool s') 1 = Some (c, p)" "c \<noteq> 0"
    using kmalloc_takes_page [OF assms(2)] demo_pool_page demo_pool_pages unfolding assms(1) by fastforce
  from page_allocate_zero [OF this] show ?thesis using \<open>c \<noteq> 0\<close> by simp
qed

end
