(* ===== verification/Pml4.thy ===== *)
theory Pml4
  imports Heap
begin

unbundle bit_operations_syntax

section \<open>Page tables (mem/pml4.c)\<close>

text \<open>
  Model of \<^verbatim>\<open>kern/lib/mem/pml4.c\<close> on the byte memory of the heap.  A table is a pointer to 512
  eight-byte entries.  The code reads and writes tables through their physical addresses, which
  the boot code maps to themselves, and through the kernel's addresses of the same bytes:
  \<open>kva\<close> is the kernel address of a byte.  An access through the null pointer is \<open>None\<close>.
\<close>

subsection \<open>Words in memory\<close>

definition load64 :: "bytes \<Rightarrow> u64 \<Rightarrow> u64" where
  "load64 m p = foldr (\<lambda>i w. push_bit 8 w OR ucast (m (p + i))) [0, 1, 2, 3, 4, 5, 6, 7] 0"

definition store64 :: "bytes \<Rightarrow> u64 \<Rightarrow> u64 \<Rightarrow> bytes" where
  "store64 m p v = foldl (\<lambda>m i. m(p + i := ucast (drop_bit (8 * unat i) v))) m [0, 1, 2, 3, 4, 5, 6, 7]"

definition load16 :: "bytes \<Rightarrow> u64 \<Rightarrow> u16" where
  "load16 m p = push_bit 8 (ucast (m (p + 1))) OR ucast (m p)"

definition load32 :: "bytes \<Rightarrow> u64 \<Rightarrow> u32" where
  "load32 m p = foldr (\<lambda>i w. push_bit 8 w OR ucast (m (p + i))) [0, 1, 2, 3] 0"

definition store32 :: "bytes \<Rightarrow> u64 \<Rightarrow> u32 \<Rightarrow> bytes" where
  "store32 m p v = foldl (\<lambda>m i. m(p + i := ucast (drop_bit (8 * unat i) v))) m [0, 1, 2, 3]"

definition kva :: "u64 \<Rightarrow> u64" where
  "kva a = (if a < PHYSBASE then a + PHYSBASE else a)"

subsection \<open>Tables\<close>

record vm = heap +
  base_pt_pool :: u64
  default_pml4 :: u64
  cr3 :: u64

definition PML4_PGSIZE :: u64 where "PML4_PGSIZE = push_bit 7 1"
definition PML4_DIRTY :: u64 where "PML4_DIRTY = push_bit 6 1"
definition PML4_ACCESSED :: u64 where "PML4_ACCESSED = push_bit 5 1"
definition PML4_WRITABLE :: u64 where "PML4_WRITABLE = push_bit 1 1"
definition PML4_PRESENT :: u64 where "PML4_PRESENT = push_bit 0 1"

text \<open>\<open>t[i]\<close> and \<open>t[i] = v\<close>.\<close>

definition entry_at :: "u64 \<Rightarrow> u64 \<Rightarrow> u64" where
  "entry_at t i = kva (t + 8 * i)"

definition tget :: "bytes \<Rightarrow> u64 \<Rightarrow> u64 \<Rightarrow> u64 option" where
  "tget m t i = (if t = 0 then None else Some (load64 m (entry_at t i)))"

definition tput :: "bytes \<Rightarrow> u64 \<Rightarrow> u64 \<Rightarrow> u64 \<Rightarrow> bytes option" where
  "tput m t i v = (if t = 0 then None else Some (store64 m (entry_at t i) v))"

definition pml4_offset :: "u64 \<Rightarrow> u64" where
  "pml4_offset a = drop_bit 39 (a AND 0xFF8000000000)"

definition pdp_offset :: "u64 \<Rightarrow> u64" where
  "pdp_offset a = drop_bit 30 (a AND 0x7FC0000000)"

definition pgd_offset :: "u64 \<Rightarrow> u64" where
  "pgd_offset a = drop_bit 21 (a AND 0x3FE00000)"

definition table_of :: "u64 \<Rightarrow> u64" where
  "table_of e = e AND NOT 0xFFF"

definition init_pml4 :: "u64 \<Rightarrow> vm \<Rightarrow> vm" where
  "init_pml4 pool_begin s = s\<lparr>base_pt_pool := pool_begin, default_pml4 := cr3 s\<rparr>"

definition get_default_pml4 :: "vm \<Rightarrow> u64" where
  "get_default_pml4 s = default_pml4 s"

definition get_pml4 :: "vm \<Rightarrow> u64" where
  "get_pml4 s = cr3 s"

text \<open>The heap operations on the state of this component.\<close>

definition vm_alloc :: "u64 \<Rightarrow> size_t \<Rightarrow> size_t \<Rightarrow> vm \<Rightarrow> (u64 \<times> vm) option" where
  "vm_alloc junk nmemb sz s = do {
     (b, h) \<leftarrow> kcalloc junk nmemb sz (heap.truncate s);
     Some (b, heap.extend h (heap.more s)) }"

definition vm_free :: "u64 \<Rightarrow> vm \<Rightarrow> vm option" where
  "vm_free p s = do { h \<leftarrow> kfree p (heap.truncate s); Some (heap.extend h (heap.more s)) }"

definition pml4_alloc :: "u64 \<Rightarrow> vm \<Rightarrow> (u64 \<times> vm) option" where
  "pml4_alloc junk s = vm_alloc junk 512 8 s"

definition pml4_activate :: "u64 \<Rightarrow> vm \<Rightarrow> vm" where
  "pml4_activate pml4 s = (let pml4 = (if pml4 = 0 then default_pml4 s else pml4) in s\<lparr>cr3 := pml4\<rparr>)"

definition pml4_destroy :: "u64 \<Rightarrow> vm \<Rightarrow> vm option" where
  "pml4_destroy pml4 s = vm_free pml4 s"

subsection \<open>Mappings\<close>

text \<open>A table of the boot pool for the entry \<open>i\<close> of \<open>t\<close>, when that entry has none.\<close>

definition sub_table_buffer :: "u64 \<Rightarrow> u64 \<Rightarrow> vm \<Rightarrow> (u64 \<times> vm) option" where
  "sub_table_buffer t i s = do {
     e \<leftarrow> tget (mem s) t i;
     if table_of e = 0
     then do {
       let n = base_pt_pool s;
       let s = s\<lparr>base_pt_pool := base_pt_pool s + 512 * 8\<rparr>;
       m \<leftarrow> tput (mem s) t i (n OR (PML4_WRITABLE OR PML4_PRESENT));
       Some (n, s\<lparr>mem := m\<rparr>) }
     else Some (table_of e, s) }"

definition pml4_map_address_buffer :: "u64 \<Rightarrow> u64 \<Rightarrow> u64 \<Rightarrow> vm \<Rightarrow> vm option" where
  "pml4_map_address_buffer pml4 addr frame s = do {
     (pdp, s) \<leftarrow> sub_table_buffer pml4 (pml4_offset addr) s;
     (pgd, s) \<leftarrow> sub_table_buffer pdp (pdp_offset addr) s;
     m \<leftarrow> tput (mem s) pgd (pgd_offset addr) (frame OR (PML4_PGSIZE OR PML4_WRITABLE OR PML4_PRESENT));
     Some (s\<lparr>mem := m\<rparr>) }"

text \<open>The second test of \<^verbatim>\<open>pml4_map_address\<close> is on \<open>pdp\<close> again, and its branch works on \<open>pdp\<close>.\<close>

definition pml4_map_address :: "u64 \<Rightarrow> u64 \<Rightarrow> u64 \<Rightarrow> u64 \<Rightarrow> vm \<Rightarrow> vm option" where
  "pml4_map_address junk pml4 addr frame s = do {
     e \<leftarrow> tget (mem s) pml4 (pml4_offset addr);
     let pdp = table_of e;
     (pdp, s) \<leftarrow> (if pdp = 0
        then do {
          (b, s) \<leftarrow> vm_alloc junk 512 8 s;
          let pdp = kernel_to_phys b;
          m \<leftarrow> tput (mem s) pml4 (pml4_offset addr) (pdp OR (PML4_WRITABLE OR PML4_PRESENT));
          Some (pdp, s\<lparr>mem := m\<rparr>) }
        else Some (pdp, s));
     e \<leftarrow> tget (mem s) pdp (pdp_offset addr);
     let pgd = table_of e;
     s \<leftarrow> (if pdp = 0
        then do {
          (b, s) \<leftarrow> vm_alloc junk 512 8 s;
          let pdp = kernel_to_phys b;
          m \<leftarrow> tput (mem s) pdp (pml4_offset addr) (pdp OR (PML4_WRITABLE OR PML4_PRESENT));
          Some (s\<lparr>mem := m\<rparr>) }
        else Some s);
     m \<leftarrow> tput (mem s) pgd (pgd_offset addr) (frame OR (PML4_WRITABLE OR PML4_PRESENT));
     Some (s\<lparr>mem := m\<rparr>) }"

definition pml4_compute_ptloc :: "bytes \<Rightarrow> u64 \<Rightarrow> u64 \<Rightarrow> (u64 \<times> u64) option" where
  "pml4_compute_ptloc m pml4 addr = do {
     e \<leftarrow> tget m pml4 (pml4_offset addr);
     let pdp = table_of e;
     e \<leftarrow> tget m pdp (pdp_offset addr);
     let pgd = table_of e;
     Some (pgd, pgd_offset addr) }"

definition pml4_clear_mapping :: "u64 \<Rightarrow> u64 \<Rightarrow> vm \<Rightarrow> vm option" where
  "pml4_clear_mapping pml4 addr s = do {
     (t, i) \<leftarrow> pml4_compute_ptloc (mem s) pml4 addr;
     m \<leftarrow> tput (mem s) t i 0;
     Some (s\<lparr>mem := m\<rparr>) }"

definition pml4_set :: "u64 \<Rightarrow> u64 \<Rightarrow> bool \<Rightarrow> u64 \<Rightarrow> vm \<Rightarrow> vm option" where
  "pml4_set pml4 addr c v s = do {
     (t, i) \<leftarrow> pml4_compute_ptloc (mem s) pml4 addr;
     e \<leftarrow> tget (mem s) t i;
     m \<leftarrow> tput (mem s) t i (if c then e OR v else e AND NOT v);
     Some (s\<lparr>mem := m\<rparr>) }"

definition pml4_set_writable :: "u64 \<Rightarrow> u64 \<Rightarrow> bool \<Rightarrow> vm \<Rightarrow> vm option" where
  "pml4_set_writable pml4 addr writable = pml4_set pml4 addr writable PML4_WRITABLE"

definition pml4_set_accessed :: "u64 \<Rightarrow> u64 \<Rightarrow> bool \<Rightarrow> vm \<Rightarrow> vm option" where
  "pml4_set_accessed pml4 addr accessed = pml4_set pml4 addr accessed PML4_ACCESSED"

definition pml4_set_dirty :: "u64 \<Rightarrow> u64 \<Rightarrow> bool \<Rightarrow> vm \<Rightarrow> vm option" where
  "pml4_set_dirty pml4 addr dirty = pml4_set pml4 addr dirty PML4_DIRTY"

definition pml4_get :: "u64 \<Rightarrow> u64 \<Rightarrow> u64 \<Rightarrow> vm \<Rightarrow> bool option" where
  "pml4_get pml4 addr test s = do {
     (t, i) \<leftarrow> pml4_compute_ptloc (mem s) pml4 addr;
     e \<leftarrow> tget (mem s) t i;
     Some (e AND test \<noteq> 0) }"

definition pml4_is_writable :: "u64 \<Rightarrow> u64 \<Rightarrow> vm \<Rightarrow> bool option" where
  "pml4_is_writable pml4 addr = pml4_get pml4 addr PML4_WRITABLE"

definition pml4_is_accessed :: "u64 \<Rightarrow> u64 \<Rightarrow> vm \<Rightarrow> bool option" where
  "pml4_is_accessed pml4 addr = pml4_get pml4 addr PML4_ACCESSED"

definition pml4_is_dirty :: "u64 \<Rightarrow> u64 \<Rightarrow> vm \<Rightarrow> bool option" where
  "pml4_is_dirty pml4 addr = pml4_get pml4 addr PML4_DIRTY"

subsection \<open>Copying\<close>

text \<open>One entry of a copied table: the flags below bit 12, with the write flag replaced.\<close>

definition copy_flags :: "u64 \<Rightarrow> bool \<Rightarrow> u64" where
  "copy_flags e cow = (e AND 0xFFD) OR (if cow then 0 else 2)"

function pml_copy :: "u64 \<Rightarrow> nat \<Rightarrow> bool \<Rightarrow> u64 \<Rightarrow> u64 \<Rightarrow> vm \<Rightarrow> vm option" where
  "pml_copy junk level cow dest src s =
     (if level > 2
      then ofold (\<lambda>i s. do {
             e \<leftarrow> tget (mem s) src i;
             if e AND NOT 0xFFF \<noteq> 0
             then do {
               (pml, s) \<leftarrow> vm_alloc junk 512 8 s;
               s \<leftarrow> pml_copy junk (level - 1) cow pml (phys_to_kernel (e AND NOT 0xFFF)) s;
               m \<leftarrow> tput (mem s) dest i (kernel_to_phys pml OR copy_flags e cow);
               Some (s\<lparr>mem := m\<rparr>) }
             else Some s }) (map of_nat [0..<512]) s
      else ofold (\<lambda>i s. do {
             e \<leftarrow> tget (mem s) src i;
             m \<leftarrow> tput (mem s) dest i ((e AND NOT 0xFFF) OR copy_flags e cow);
             Some (s\<lparr>mem := m\<rparr>) }) (map of_nat [0..<512]) s)"
  by pat_completeness auto
termination by (relation "measure (\<lambda>(junk, level, cow, dest, src, s). level)") auto

declare pml_copy.simps [simp del]

definition pml4_copy :: "u64 \<Rightarrow> u64 \<Rightarrow> u64 \<Rightarrow> bool \<Rightarrow> vm \<Rightarrow> vm option" where
  "pml4_copy junk dest_pml4 src_pml4 cow = pml_copy junk 4 cow dest_pml4 src_pml4"

subsection \<open>Users of the tables in paging.c\<close>

text \<open>
  The page fault handler, with the error code of the processor and the faulting address;
  the line that it prints is left out.  And the loop of \<^verbatim>\<open>init_paging\<close> that maps every page.
\<close>

definition page_fault :: "u64 \<Rightarrow> u64 \<Rightarrow> u64 \<Rightarrow> vm \<Rightarrow> vm option" where
  "page_fault junk error faultaddr s =
     (let pml4 = get_pml4 s
      in if error AND 1 = 0
         then do {
           (pg, s) \<leftarrow> page_allocate s 0;
           pml4_map_address junk pml4 (page_round_down faultaddr) pg s }
         else Some s)"

definition map_pages :: "size_t \<Rightarrow> u64 \<Rightarrow> vm \<Rightarrow> vm option" where
  "map_pages total_pages bs s =
     ofold (\<lambda>pgno s. let kernaddr = bs + of_nat pgno * PAGESIZE
                    in pml4_map_address_buffer (get_default_pml4 s) kernaddr (kernel_to_phys kernaddr) s)
       [0..<unat total_pages] s"

subsection \<open>Loads and stores\<close>

lemma less_8_iff: "(w :: u64) < 8 \<longleftrightarrow> w = 0 \<or> w = 1 \<or> w = 2 \<or> w = 3 \<or> w = 4 \<or> w = 5 \<or> w = 6 \<or> w = 7"
proof -
  have "unat w < 8 \<longleftrightarrow> unat w = 0 \<or> unat w = 1 \<or> unat w = 2 \<or> unat w = 3 \<or> unat w = 4 \<or> unat w = 5 \<or>
      unat w = 6 \<or> unat w = 7" by presburger
  then show ?thesis unfolding word_less_nat_alt word_unat_eq_iff by simp
qed

lemma store64_at: "store64 m p v a = (if a - p < 8 then ucast (drop_bit (8 * unat (a - p)) v) else m a)"
proof -
  obtain w where a: "a = p + w" by (metis add_diff_cancel_left' diff_add_cancel add.commute)
  show ?thesis unfolding a by (auto simp: store64_def less_8_iff)
qed

lemma load64_cong: "(\<And>w. w < 8 \<Longrightarrow> m' (p + w) = m (p + w)) \<Longrightarrow> load64 m' p = load64 m p"
proof -
  assume eq: "\<And>w. w < 8 \<Longrightarrow> m' (p + w) = m (p + w)"
  have "m' p = m p" using eq [of 0] by simp
  then show ?thesis using eq by (simp add: load64_def less_8_iff)
qed

lemma load_store_same: "load64 (store64 m p v) p = v"
proof (rule bit_word_eqI)
  fix n :: nat
  assume "n < LENGTH(64)"
  then consider "n < 8" | "8 \<le> n" "n < 16" | "16 \<le> n" "n < 24" | "24 \<le> n" "n < 32" | "32 \<le> n" "n < 40" | "40 \<le> n" "n < 48"
    | "48 \<le> n" "n < 56" | "56 \<le> n" "n < 64" by fastforce
  then show "bit (load64 (store64 m p v) p) n = bit v n"
    unfolding load64_def store64_at by cases (auto simp: bit_simps)
qed

lemma load_store_apart: "8 \<le> unat (p - q) \<Longrightarrow> 8 \<le> unat (q - p) \<Longrightarrow> load64 (store64 m p v) q = load64 m q"
proof (rule load64_cong)
  fix w :: u64
  assume a: "8 \<le> unat (p - q)" "8 \<le> unat (q - p)" and w: "w < 8"
  have "\<not> q + w - p < 8"
  proof
    assume x: "q + w - p < 8"
    define x where "x = q + w - p"
    have "unat x < 8" "unat w < 8" using x w by (simp_all add: x_def word_less_nat_alt)
    moreover have e: "x - w = q - p" "w - x = p - q" by (simp_all add: x_def)
    moreover have "unat (x - w) = unat x - unat w" if "w \<le> x" using that by (rule unat_sub)
    moreover have "unat (w - x) = unat w - unat x" if "x \<le> w" using that by (rule unat_sub)
    ultimately show False using a by (metis diff_le_self le_less_trans linear not_less)
  qed
  then show "store64 m p v (q + w) = m (q + w)" by (simp add: store64_at)
qed

subsection \<open>Entries of tables\<close>

definition paligned :: "u64 \<Rightarrow> bool" where
  "paligned t \<longleftrightarrow> 4096 dvd unat t"

lemma table_of_take: "unat (table_of e) = unat e div 4096 * 4096"
proof -
  have m: "(0xFFF :: u64) = mask 12" by (simp add: mask_eq_exp_minus_1)
  have "table_of e = push_bit 12 (drop_bit 12 e)"
    unfolding table_of_def m by (rule bit_word_eqI) (auto simp: bit_simps)
  moreover have "unat (push_bit 12 (drop_bit 12 e)) = (unat e div 4096 * 4096) mod 2 ^ 64"
    unfolding push_bit_eq_mult drop_bit_eq_div unat_word_ariths(2) unat_div by simp
  moreover have "unat e div 4096 * 4096 < 2 ^ 64"
    using div_times_less_eq_dividend [of "unat e" 4096] u64_unat_bound [of e] by simp
  ultimately show ?thesis by simp
qed

lemma paligned_table_of [simp]: "paligned (table_of e)"
  by (simp add: paligned_def table_of_take)

lemma offsets_bound: "unat (pml4_offset a) < 512" "unat (pdp_offset a) < 512" "unat (pgd_offset a) < 512"
proof -
  have e: "pml4_offset a = take_bit 9 (drop_bit 39 a)" "pdp_offset a = take_bit 9 (drop_bit 30 a)"
    "pgd_offset a = take_bit 9 (drop_bit 21 a)"
    by (simp_all add: pml4_offset_def pdp_offset_def pgd_offset_def take_bit_eq_mask mask_eq_exp_minus_1)
  show "unat (pml4_offset a) < 512" "unat (pdp_offset a) < 512" "unat (pgd_offset a) < 512"
    unfolding e take_bit_eq_mod by (simp_all add: unat_mod)
qed

lemma entry_address:
  assumes "paligned t" "unat i < 512"
  shows "unat (entry_at t i) = unat (kva t) + 8 * unat i" "paligned (kva t)"
proof -
  have i: "unat (8 * i) = 8 * unat i" using assms(2) by (simp add: unat_word_ariths)
  obtain q where q: "unat t = 4096 * q" using assms(1) by (auto simp: paligned_def)
  have "q < 2 ^ 52" using q unat_less_2p [of t] by simp
  then have sum: "unat (t + 8 * i) = unat t + 8 * unat i"
    using q i assms(2) by (subst unat_add_no_overflow) simp_all
  have P: "unat PHYSBASE = 4096 * 4503565267632128 \<and> unat PHYSBASE = 18446603336221196288" by (simp add: PHYSBASE_def)
  have lt: "t + 8 * i < PHYSBASE \<longleftrightarrow> t < PHYSBASE"
  proof
    assume "t < PHYSBASE"
    then have "Suc q \<le> 4503565267632128" using P q by (simp add: word_less_nat_alt)
    then show "t + 8 * i < PHYSBASE" unfolding word_less_nat_alt sum using P q assms(2) by simp
  next
    assume "t + 8 * i < PHYSBASE"
    then show "t < PHYSBASE" unfolding word_less_nat_alt sum by simp
  qed
  show "paligned (kva t)"
  proof (cases "t < PHYSBASE")
    case True
    have "unat (t + PHYSBASE) = (unat t + unat PHYSBASE) mod 2 ^ 64" by (simp add: unat_word_ariths)
    moreover have "4096 dvd unat t + unat PHYSBASE" using q P by (metis dvd_triv_left distrib_left)
    ultimately show ?thesis using True by (simp add: kva_def paligned_def dvd_mod_iff)
  next
    case False
    then show ?thesis using assms(1) by (simp add: kva_def)
  qed
  then obtain r where r: "unat (kva t) = 4096 * r" by (auto simp: paligned_def)
  have "r < 2 ^ 52" using r unat_less_2p [of "kva t"] by simp
  then have "unat (kva t + 8 * i) = unat (kva t) + 8 * unat i"
    using r i assms(2) by (subst unat_add_no_overflow) simp_all
  moreover have "entry_at t i = kva t + 8 * i" using lt by (simp add: entry_at_def kva_def)
  ultimately show "unat (entry_at t i) = unat (kva t) + 8 * unat i" by simp
qed

lemma multiples_of_8_apart:
  assumes "unat (x :: u64) = 8 * A" "unat y = 8 * B" "x \<noteq> y"
  shows "8 \<le> unat (x - y)"
proof (cases "unat y \<le> unat x")
  case True
  have "A \<noteq> B" using assms by (metis word_unat_eq_iff)
  then show ?thesis using True assms(1,2) by (simp add: unat_sub_if')
next
  case False
  have "8 * B < 2 ^ 64" using unat_less_2p [of y] assms(2) by simp
  then show ?thesis using False assms(1,2) by (simp add: unat_sub_if')
qed

lemma entries_apart:
  assumes "paligned t" "paligned u" "unat i < 512" "unat j < 512" "kva t \<noteq> kva u \<or> i \<noteq> j"
  shows "8 \<le> unat (entry_at t i - entry_at u j)"
proof -
  note t = entry_address [OF assms(1,3)] note u = entry_address [OF assms(2,4)]
  obtain q r where q: "unat (kva t) = 4096 * q" "unat (kva u) = 4096 * r"
    using t(2) u(2) unfolding paligned_def by (elim dvdE)
  have "unat (entry_at t i) \<noteq> unat (entry_at u j)"
  proof
    assume e: "unat (entry_at t i) = unat (entry_at u j)"
    then have "4096 * q + 8 * unat i = 4096 * r + 8 * unat j" using t(1) u(1) q by simp
    moreover have "(4096 * k + 8 * n) div 4096 = k" if "n < 512" for k n :: nat using that by simp
    ultimately have "q = r" "unat i = unat j" using assms(3,4) by (metis, metis add_left_cancel mult_cancel1 zero_neq_numeral)
    then show False using assms(5) q by (metis word_unat_eq_iff)
  qed
  then have "entry_at t i \<noteq> entry_at u j" by metis
  moreover have "unat (entry_at t i) = 8 * (512 * q + unat i)" "unat (entry_at u j) = 8 * (512 * r + unat j)"
    using t(1) u(1) q by simp_all
  ultimately show ?thesis by (intro multiples_of_8_apart)
qed

lemma tget_tput_same: "tput m t i v = Some m' \<Longrightarrow> tget m' t i = Some v"
  by (auto simp: tput_def tget_def load_store_same split: if_splits)

lemma tget_tput_other:
  assumes "tput m t i v = Some m'" "paligned t" "paligned u" "unat i < 512" "unat j < 512" "kva t \<noteq> kva u \<or> i \<noteq> j"
  shows "tget m' u j = tget m u j"
  using assms entries_apart [OF assms(2-6)] entries_apart [OF assms(3,2,5,4)]
  by (auto simp: tput_def tget_def load_store_apart split: if_splits)

subsection \<open>Walking the tables\<close>

text \<open>The entry that decides about an address.\<close>

definition walk :: "bytes \<Rightarrow> u64 \<Rightarrow> u64 \<Rightarrow> u64 option" where
  "walk m pml4 addr = do { (t, i) \<leftarrow> pml4_compute_ptloc m pml4 addr; tget m t i }"

text \<open>\<open>path m pml4 addr pdp pgd\<close>: the tables on the way to the entry, apart from each other.\<close>

definition path :: "bytes \<Rightarrow> u64 \<Rightarrow> u64 \<Rightarrow> u64 \<Rightarrow> u64 \<Rightarrow> bool" where
  "path m pml4 addr pdp pgd \<longleftrightarrow>
     paligned pml4 \<and> distinct [kva pml4, kva pdp, kva pgd] \<and> pml4 \<noteq> 0 \<and> pdp \<noteq> 0 \<and> pgd \<noteq> 0 \<and>
     map_option table_of (tget m pml4 (pml4_offset addr)) = Some pdp \<and>
     map_option table_of (tget m pdp (pdp_offset addr)) = Some pgd"

lemma path_ptloc: "path m pml4 addr pdp pgd \<Longrightarrow> pml4_compute_ptloc m pml4 addr = Some (pgd, pgd_offset addr)"
  by (auto simp: path_def pml4_compute_ptloc_def)

lemma path_walk: "path m pml4 addr pdp pgd \<Longrightarrow> walk m pml4 addr = tget m pgd (pgd_offset addr)"
  by (simp add: walk_def path_ptloc)

lemma path_aligned: "path m pml4 addr pdp pgd \<Longrightarrow> paligned pml4 \<and> paligned pdp \<and> paligned pgd"
  by (auto simp: path_def)

lemma path_same_tables:
  "path m pml4 a pdp pgd \<Longrightarrow> pml4_offset b = pml4_offset a \<Longrightarrow> pdp_offset b = pdp_offset a \<Longrightarrow> path m pml4 b pdp pgd"
  by (simp add: path_def)

text \<open>Writing the entry of an address does not move it, and changes no other entry of its table.\<close>

lemma path_tput:
  assumes p: "path m pml4 addr pdp pgd" and m': "tput m pgd (pgd_offset addr) v = Some m'"
  shows "path m' pml4 addr pdp pgd" "walk m' pml4 addr = Some v"
    "pml4_offset b = pml4_offset addr \<Longrightarrow> pdp_offset b = pdp_offset addr \<Longrightarrow> pgd_offset b \<noteq> pgd_offset addr
       \<Longrightarrow> walk m' pml4 b = walk m pml4 b"
proof -
  note al = path_aligned [OF p]
  have same: "tget m' pml4 (pml4_offset addr) = tget m pml4 (pml4_offset addr)"
    "tget m' pdp (pdp_offset addr) = tget m pdp (pdp_offset addr)"
    using p al by (auto intro!: tget_tput_other [OF m'] simp: offsets_bound path_def)
  show p': "path m' pml4 addr pdp pgd" using p same by (simp add: path_def)
  show "walk m' pml4 addr = Some v" using path_walk [OF p'] tget_tput_same [OF m'] by simp
  assume b: "pml4_offset b = pml4_offset addr" "pdp_offset b = pdp_offset addr" "pgd_offset b \<noteq> pgd_offset addr"
  have "tget m' pgd (pgd_offset b) = tget m pgd (pgd_offset b)"
    using al b(3) by (intro tget_tput_other [OF m']) (auto simp: offsets_bound)
  then show "walk m' pml4 b = walk m pml4 b"
    using path_walk [OF path_same_tables [OF p' b(1,2)]] path_walk [OF path_same_tables [OF p b(1,2)]] by simp
qed

lemma path_tget: "path m pml4 addr pdp pgd \<Longrightarrow> \<exists>e. tget m pgd (pgd_offset addr) = Some e"
  by (auto simp: path_def tget_def)

lemma path_tput_ex: "path m pml4 addr pdp pgd \<Longrightarrow> \<exists>m'. tput m pgd (pgd_offset addr) v = Some m'"
  by (auto simp: path_def tput_def)

lemma sub_table_existing:
  assumes "map_option table_of (tget (mem s) t i) = Some n" "n \<noteq> 0"
  shows "sub_table_buffer t i s = Some (n, s)"
  using assms by (auto simp: sub_table_buffer_def)

text \<open>C9: with the tables for an address in place and apart, both mapping functions make the walk
  of that address end in the new entry and leave every other entry of its last table as it was;
  only the one for the boot tables marks the entry as a page of this level, the one for process
  tables does not, so that the processor takes the frame for a further table.\<close>

theorem map_address_then_walk:
  assumes p: "path (mem s) pml4 addr pdp pgd"
  shows "(\<exists>s'. pml4_map_address_buffer pml4 addr frame s = Some s' \<and> walk (mem s') pml4 addr = Some (frame OR 0x83) \<and>
      (\<forall>b. pml4_offset b = pml4_offset addr \<and> pdp_offset b = pdp_offset addr \<and> pgd_offset b \<noteq> pgd_offset addr
        \<longrightarrow> walk (mem s') pml4 b = walk (mem s) pml4 b)) \<and>
    (\<exists>s'. pml4_map_address junk pml4 addr frame s = Some s' \<and> walk (mem s') pml4 addr = Some (frame OR 3) \<and>
      (\<forall>b. pml4_offset b = pml4_offset addr \<and> pdp_offset b = pdp_offset addr \<and> pgd_offset b \<noteq> pgd_offset addr
        \<longrightarrow> walk (mem s') pml4 b = walk (mem s) pml4 b))"
proof
  have flags: "PML4_PGSIZE OR PML4_WRITABLE OR PML4_PRESENT = 0x83" "PML4_WRITABLE OR PML4_PRESENT = 3"
    by (simp_all add: PML4_PGSIZE_def PML4_WRITABLE_def PML4_PRESENT_def)
  have e: "map_option table_of (tget (mem s) pml4 (pml4_offset addr)) = Some pdp" "pdp \<noteq> 0"
    "map_option table_of (tget (mem s) pdp (pdp_offset addr)) = Some pgd" "pgd \<noteq> 0"
    using p by (simp_all add: path_def)
  obtain m1 where m1: "tput (mem s) pgd (pgd_offset addr) (frame OR 0x83) = Some m1" using path_tput_ex [OF p] by blast
  have "pml4_map_address_buffer pml4 addr frame s = Some (s\<lparr>mem := m1\<rparr>)"
    using sub_table_existing [OF e(1,2)] sub_table_existing [OF e(3,4)] m1 unfolding pml4_map_address_buffer_def flags(1) by simp
  then show "\<exists>s'. pml4_map_address_buffer pml4 addr frame s = Some s' \<and> walk (mem s') pml4 addr = Some (frame OR 0x83) \<and>
      (\<forall>b. pml4_offset b = pml4_offset addr \<and> pdp_offset b = pdp_offset addr \<and> pgd_offset b \<noteq> pgd_offset addr
        \<longrightarrow> walk (mem s') pml4 b = walk (mem s) pml4 b)"
    using path_tput [OF p m1] by (intro exI [of _ "s\<lparr>mem := m1\<rparr>"]) simp
  obtain m2 where m2: "tput (mem s) pgd (pgd_offset addr) (frame OR 3) = Some m2" using path_tput_ex [OF p] by blast
  have "pml4_map_address junk pml4 addr frame s = Some (s\<lparr>mem := m2\<rparr>)"
    using e m2 unfolding pml4_map_address_def flags(2) by auto
  then show "\<exists>s'. pml4_map_address junk pml4 addr frame s = Some s' \<and> walk (mem s') pml4 addr = Some (frame OR 3) \<and>
      (\<forall>b. pml4_offset b = pml4_offset addr \<and> pdp_offset b = pdp_offset addr \<and> pgd_offset b \<noteq> pgd_offset addr
        \<longrightarrow> walk (mem s') pml4 b = walk (mem s) pml4 b)"
    using path_tput [OF p m2] by (intro exI [of _ "s\<lparr>mem := m2\<rparr>"]) simp
qed

lemma flag_bits: "bit (2 :: u64) n \<longleftrightarrow> n = 1" "bit (0x40 :: u64) n \<longleftrightarrow> n = 6" "bit (0x20 :: u64) n \<longleftrightarrow> n = 5"
proof -
  have e: "(2 :: u64) = push_bit 1 1" "(0x40 :: u64) = push_bit 6 1" "(0x20 :: u64) = push_bit 5 1" by simp_all
  show "bit (2 :: u64) n \<longleftrightarrow> n = 1" "bit (0x40 :: u64) n \<longleftrightarrow> n = 6" "bit (0x20 :: u64) n \<longleftrightarrow> n = 5"
    unfolding e by (auto simp only: bit_push_bit_iff bit_1_iff possible_bit_word) simp_all
qed

text \<open>Setting or clearing one of the flags of an address changes exactly this flag of its entry:
  the test of the flag then answers what was set, the tests of the other two answer as before,
  and the entry is otherwise the same.\<close>

theorem flag_set_then_test:
  assumes p: "path (mem s) pml4 addr pdp pgd"
  shows "\<exists>e s'. walk (mem s) pml4 addr = Some e \<and> pml4_set_writable pml4 addr w s = Some s' \<and>
    walk (mem s') pml4 addr = Some (if w then e OR 2 else e AND NOT 2) \<and>
    pml4_is_writable pml4 addr s' = Some w \<and>
    pml4_is_dirty pml4 addr s' = pml4_is_dirty pml4 addr s \<and> pml4_is_accessed pml4 addr s' = pml4_is_accessed pml4 addr s \<and>
    (\<exists>s''. pml4_clear_mapping pml4 addr s' = Some s'' \<and> walk (mem s'') pml4 addr = Some 0)"
proof -
  obtain e where e: "tget (mem s) pgd (pgd_offset addr) = Some e" using path_tget [OF p] by blast
  let ?v = "if w then e OR 2 else e AND NOT 2"
  obtain m' where m': "tput (mem s) pgd (pgd_offset addr) ?v = Some m'" using path_tput_ex [OF p] by blast
  note p' = path_tput [OF p m']
  let ?s = "s\<lparr>mem := m'\<rparr>"
  have W: "PML4_WRITABLE = 2" "PML4_DIRTY = 0x40" "PML4_ACCESSED = 0x20"
    by (simp_all add: PML4_WRITABLE_def PML4_DIRTY_def PML4_ACCESSED_def)
  have set: "pml4_set_writable pml4 addr w s = Some ?s"
    using path_ptloc [OF p] e m' by (simp add: pml4_set_writable_def pml4_set_def W)
  have e': "tget m' pgd (pgd_offset addr) = Some ?v" by (rule tget_tput_same [OF m'])
  have get: "pml4_get pml4 addr t s = Some (e AND t \<noteq> 0)" "pml4_get pml4 addr t ?s = Some (?v AND t \<noteq> 0)" for t
    using path_ptloc [OF p] path_ptloc [OF p'(1)] e e' by (simp_all add: pml4_get_def)
  have "(e OR 2) AND 2 = 2" "(e AND NOT 2) AND 2 = 0" "(e OR 2) AND 0x40 = e AND 0x40" "(e AND NOT 2) AND 0x40 = e AND 0x40"
    "(e OR 2) AND 0x20 = e AND 0x20" "(e AND NOT 2) AND 0x20 = e AND 0x20"
    by (rule bit_word_eqI; auto simp only: bit_and_iff bit_or_iff bit_not_iff flag_bits bit_0_eq; simp)+
  then have bits: "(e OR 2) AND 2 \<noteq> 0" "(e AND NOT 2) AND 2 = 0" "(e OR 2) AND 0x40 = e AND 0x40" "(e AND NOT 2) AND 0x40 = e AND 0x40"
    "(e OR 2) AND 0x20 = e AND 0x20" "(e AND NOT 2) AND 0x20 = e AND 0x20"
    by simp_all
  obtain m'' where m'': "tput m' pgd (pgd_offset addr) 0 = Some m''" using path_tput_ex [OF p'(1)] by blast
  have "pml4_clear_mapping pml4 addr ?s = Some (?s\<lparr>mem := m''\<rparr>)"
    using path_ptloc [OF p'(1)] m'' by (simp add: pml4_clear_mapping_def)
  then show ?thesis
    using set path_walk [OF p] e p'(2) get bits path_tput(2) [OF p'(1) m'']
    by (intro exI [of _ e] exI [of _ ?s]) (auto simp: pml4_is_writable_def pml4_is_dirty_def pml4_is_accessed_def W)
qed

definition demo_tables :: bytes where
  "demo_tables = store64 (store64 (\<lambda>_. 0) (kva 0x1000) 0x2003) (kva 0x2000) 0x3003"

definition demo_vm :: vm where
  "demo_vm = heap.extend (demo_heap\<lparr>mem := demo_tables\<rparr>) (vm.fields 0x400000 0x1000 0x1000)"

lemma demo_path: "path (mem demo_vm) 0x1000 0 0x2000 0x3000"
proof -
  have m: "mem demo_vm = demo_tables" by (simp add: demo_vm_def heap.defs demo_heap_def)
  let ?m1 = "store64 (\<lambda>_. 0) (kva 0x1000) 0x2003"
  have t: "tput ?m1 0x2000 0 0x3003 = Some demo_tables" "tput (\<lambda>_. 0) 0x1000 0 0x2003 = Some ?m1"
    by (simp_all add: tput_def entry_at_def demo_tables_def)
  have al: "paligned 0x1000" "paligned 0x2000" by (simp_all add: paligned_def)
  have k: "kva 0x1000 = 0xFFFF800000001000" "kva 0x2000 = 0xFFFF800000002000" "kva 0x3000 = 0xFFFF800000003000"
    by (simp_all add: kva_def PHYSBASE_def)
  have "tget demo_tables 0x1000 0 = tget ?m1 0x1000 0"
    using al k by (intro tget_tput_other [OF t(1)]) simp_all
  then have e: "tget demo_tables 0x1000 0 = Some 0x2003" "tget demo_tables 0x2000 0 = Some 0x3003"
    using tget_tput_same [OF t(2)] tget_tput_same [OF t(1)] by simp_all
  have "table_of 0x2003 = 0x2000" "table_of 0x3003 = 0x3000" by (simp_all add: table_of_def)
  then show ?thesis
    using e al k by (simp add: path_def m pml4_offset_def pdp_offset_def)
qed

theorem map_address_then_walk_witness:
  "\<exists>s'. pml4_map_address_buffer 0x1000 0 0x200000 demo_vm = Some s' \<and> walk (mem s') 0x1000 0 = Some 0x200083"
proof -
  have "(0x200000 :: u64) OR 0x83 = 0x200083" by simp
  then show ?thesis using map_address_then_walk [OF demo_path, of "0x200000" 7] by metis
qed

theorem flag_set_then_test_witness:
  "\<exists>s'. pml4_set_writable 0x1000 0 True demo_vm = Some s' \<and> pml4_is_writable 0x1000 0 s' = Some True"
  using flag_set_then_test [OF demo_path, of True] by blast

subsection \<open>Tables from the heap\<close>

lemma load64_zero: "(\<And>w. w < 8 \<Longrightarrow> m (p + w) = 0) \<Longrightarrow> load64 m p = 0"
proof -
  assume "\<And>w. w < 8 \<Longrightarrow> m (p + w) = 0"
  then have "load64 m p = load64 (\<lambda>_. 0) p" by (intro load64_cong) simp
  also have "\<dots> = 0" by (simp add: load64_def)
  finally show ?thesis .
qed

text \<open>The entries of a block of the heap, read as a table.\<close>

lemma block_entry:
  assumes "kpool_ok (kernel_pool s)" "heap_block s 9 b"
  shows "unat i < 512 \<Longrightarrow> unat (b + 8 * i) = unat b + 8 * unat i" "PHYSBASE \<le> b" "b \<noteq> 0" "unat b mod 4096 = 24"
proof -
  obtain a where a: "is_arena s 9 a" "block_in 9 a b" using assms(2) by (auto simp: heap_block_def)
  have tk: "taken (kernel_pool s) a" using a(1) by (simp add: is_arena_def)
  note page = taken_page [OF assms(1) tk]
  note bound = block_in_bounds [OF a(2)]
  show "unat i < 512 \<Longrightarrow> unat (b + 8 * i) = unat b + 8 * unat i"
    using bound page(2) by (subst unat_add_no_overflow) (simp_all add: unat_word_ariths)
  show "PHYSBASE \<le> b" using page(4) bound by (simp add: word_le_nat_alt)
  show "b \<noteq> 0" using block_region_bound [OF assms(1,2)] by blast
  obtain k where k: "unat b = unat a + 24 + k * 4096" using a(2) by (auto simp: block_in_def)
  obtain q where "unat a = 2097152 * q" using page(1) by blast
  then have e: "unat b = 24 + (512 * q + k) * 4096" using k by simp
  show "unat b mod 4096 = 24" unfolding e mod_mult_self1 by simp
qed

text \<open>A table-sized allocation.\<close>

lemma vm_alloc_table:
  assumes inv: "heap_inv U (heap.truncate s) f" and al: "vm_alloc junk 512 8 s = Some (b, s')"
  shows "\<exists>f'. heap_inv (insert b U) (heap.truncate s') f' \<and> heap_block (heap.truncate s') 9 b \<and> b \<notin> U \<and>
    (\<forall>x. in_region x b 4096 \<longrightarrow> mem s' x = 0) \<and> heap.more s' = heap.more s \<and>
    (\<forall>c j. heap_block (heap.truncate s) j c \<longrightarrow> heap_block (heap.truncate s') j c)"
proof -
  obtain h where h: "kmalloc junk 4096 (heap.truncate s) = Some (b, h)" "s' = heap.extend h (heap.more s)"
    using al by (auto simp: vm_alloc_def kcalloc_def split: bind_splits)
  have t: "heap.truncate s' = h" "mem s' = mem h" "heap.more s' = heap.more s"
    unfolding h(2) by (simp_all add: heap.defs)
  have sz: "8 < (4096 :: size_t)" "(4096 :: size_t) \<le> 0x40000" "unat (4096 :: size_t) = 4096" by simp_all
  obtain f' d where d: "heap_inv (insert b U) h f'" "b \<notin> U" "heap_block h d b" "4096 \<le> (2 :: nat) ^ (d + 3)" "2 ^ (d + 2) < (4096 :: nat)"
    "\<forall>x. in_region x b (2 ^ (d + 3)) \<longrightarrow> mem h x = 0"
    "\<forall>c j. heap_block (heap.truncate s) j c \<longrightarrow> heap_block h j c"
    using kmalloc_fresh [OF inv sz(1,2), of junk] h(1) unfolding sz(3) by auto
  have "(2 :: nat) ^ 12 \<le> 2 ^ (d + 3)" "(2 :: nat) ^ (d + 2) < 2 ^ 12" using d(4,5) by simp_all
  then have "12 \<le> d + 3" "d + 2 < 12"
    using power_le_imp_le_exp [of "2 :: nat" 12 "d + 3"] power_less_imp_less_exp [of "2 :: nat" "d + 2" 12] by simp_all
  then have nine: "d = 9" by simp
  show ?thesis using d t unfolding nine by (intro exI [of _ f']) simp
qed

lemma clear_table_never_maps:
  assumes t: "heap_inv U (heap.truncate s1) f1" "heap_block (heap.truncate s1) 9 t"
    "\<forall>x. in_region x t 4096 \<longrightarrow> mem s1 x = 0" "t \<in> U"
  shows "pml4_map_address junk t addr frame s1 = None \<and> unat t mod 4096 = 24"
proof -
  note ok1 = heap_invD(4) [OF t(1)]
  note T = block_entry [OF ok1 t(2)]
  have entry: "entry_at t i = t + 8 * i" if "unat i < 512" for i
    using T(1) [OF that] T(2) by (simp add: entry_at_def kva_def word_le_nat_alt word_less_nat_alt)
  have zero: "load64 (mem s1) (t + 8 * i) = 0" if "unat i < 512" for i
  proof (rule load64_zero)
    fix w :: u64
    assume "w < 8"
    then have w: "unat w < 8" by (simp add: word_less_nat_alt)
    have "unat (8 * i + w) = 8 * unat i + unat w"
      using w that by (simp add: unat_word_ariths)
    then have "in_region (t + 8 * i + w) t 4096" using w that by (simp add: in_region_def add.assoc)
    then show "mem s1 (t + 8 * i + w) = 0" using t(3) by blast
  qed
  have first: "tget (mem s1) t (pml4_offset addr) = Some 0"
    using entry zero offsets_bound(1) T(3) by (simp add: tget_def)
  have "pml4_map_address junk t addr frame s1 = None"
  proof (cases "vm_alloc junk 512 8 s1")
    case None
    then show ?thesis using first by (simp add: pml4_map_address_def table_of_def)
  next
    case (Some p)
    then obtain b s2 where b: "vm_alloc junk 512 8 s1 = Some (b, s2)" by (cases p) simp
    obtain f2 where f2: "heap_inv (insert b U) (heap.truncate s2) f2" "heap_block (heap.truncate s2) 9 b"
      "b \<notin> U" "\<forall>x. in_region x b 4096 \<longrightarrow> mem s2 x = 0" "heap_block (heap.truncate s2) 9 t"
      using vm_alloc_table [OF t(1) b] t(2) by blast
    note ok2 = heap_invD(4) [OF f2(1)]
    note B = block_entry [OF ok2 f2(2)]
    have apart: "unat b + 4096 \<le> unat t \<or> unat t + 4096 \<le> unat b"
      using blocks_apart [OF ok2 f2(2) f2(5)] f2(3) t(4) by auto
    let ?pdp = "kernel_to_phys b" and ?i = "pml4_offset addr" and ?j = "pdp_offset addr"
    define m where "m = store64 (mem s2) (entry_at t ?i) (?pdp OR (PML4_WRITABLE OR PML4_PRESENT))"
    have put: "tput (mem s2) t ?i (?pdp OR (PML4_WRITABLE OR PML4_PRESENT)) = Some m"
      using T(3) by (simp add: tput_def m_def)
    have "tget m ?pdp ?j = None \<or> ?pdp \<noteq> 0 \<and> tget m ?pdp ?j = Some 0"
    proof (cases "?pdp = 0")
      case True
      then show ?thesis by (simp add: tget_def)
    next
      case False
      have e: "?pdp + 8 * ?j = (b + 8 * ?j) - PHYSBASE" by (simp add: kernel_to_phys_def)
      have "PHYSBASE \<le> b + 8 * ?j"
        using B(1) [OF offsets_bound(2) [of addr]] B(2) unfolding word_le_nat_alt by linarith
      then have "unat (?pdp + 8 * ?j) = unat (b + 8 * ?j) - unat PHYSBASE" unfolding e by (rule unat_sub)
      then have "?pdp + 8 * ?j < PHYSBASE"
        using u64_unat_bound [of "b + 8 * ?j"] by (simp add: word_less_nat_alt PHYSBASE_def)
      then have "entry_at ?pdp ?j = b + 8 * ?j"
        by (simp add: entry_at_def kva_def kernel_to_phys_def)
      moreover have "load64 m (b + 8 * ?j) = 0"
      proof (rule load64_zero)
        fix w :: u64
        assume "w < 8"
        then have w: "unat w < 8" by (simp add: word_less_nat_alt)
        have off: "unat (8 * ?j + w) = 8 * unat ?j + unat w"
          using w offsets_bound(2) [of addr] by (simp add: unat_word_ariths)
        then have r: "in_region (b + 8 * ?j + w) b 4096"
          using w offsets_bound(2) [of addr] by (simp add: in_region_def add.assoc)
        have u: "unat (b + 8 * ?j + w) = unat b + (8 * unat ?j + unat w)"
          using block_region_bound [OF ok2 f2(2)] off offsets_bound(2) [of addr] w
          by (subst add.assoc, subst unat_add_no_overflow) simp_all
        have v: "unat (entry_at t ?i) = unat t + 8 * unat ?i" unfolding entry [OF offsets_bound(1)] by (rule T(1) [OF offsets_bound(1)])
        have "\<not> b + 8 * ?j + w - entry_at t ?i < 8"
          using apart w offsets_bound(1,2) [of addr] block_region_bound [OF ok2 f2(2)] block_region_bound [OF ok1 t(2)]
          unfolding word_less_nat_alt unat_sub_if' u v by (auto split: if_splits)
        then show "m (b + 8 * ?j + w) = 0" using f2(4) r by (simp add: m_def store64_at)
      qed
      ultimately show ?thesis using False by (simp add: tget_def)
    qed
    then show ?thesis
      using first b put by (auto simp: pml4_map_address_def table_of_def tput_def [of m])
  qed
  then show ?thesis using T(4) by simp
qed

text \<open>C21: a table that \<^verbatim>\<open>pml4_alloc\<close> made is never usable.  Mapping any address in it fails: the
  table for the next level that \<^verbatim>\<open>pml4_map_address\<close> adds has no table below it, the function
  tests the wrong variable and writes through the null pointer.  And no table from the heap is
  page aligned, as the entries require: the heap puts its arena header of 24 bytes first.\<close>

theorem process_tables_never_map:
  assumes inv: "heap_inv U (heap.truncate s) f" and al: "pml4_alloc junk s = Some (t, s1)"
  shows "pml4_map_address junk t addr frame s1 = None \<and> unat t mod 4096 = 24"
proof -
  obtain f1 where t: "heap_inv (insert t U) (heap.truncate s1) f1" "heap_block (heap.truncate s1) 9 t"
    "\<forall>x. in_region x t 4096 \<longrightarrow> mem s1 x = 0"
    using vm_alloc_table [OF inv al [unfolded pml4_alloc_def]] by blast
  show ?thesis by (rule clear_table_never_maps [OF t]) simp
qed

definition fresh_vm :: vm where
  "fresh_vm = heap.extend (init_heap demo_heap) (vm.fields 0x400000 0x1000 0x1000)"

theorem process_tables_never_map_witness:
  "\<exists>t s1. pml4_alloc 7 fresh_vm = Some (t, s1) \<and> pml4_map_address 7 t 0x400000 0x600000 s1 = None \<and> unat t mod 4096 = 24"
proof -
  have h: "heap.truncate fresh_vm = init_heap demo_heap" by (simp add: fresh_vm_def heap.defs)
  have inv: "heap_inv {} (heap.truncate fresh_vm) no_blocks" unfolding h by (rule demo_heap_inv)
  have sz: "8 < (4096 :: size_t)" "(4096 :: size_t) \<le> 0x40000" by simp_all
  obtain b hs where "kmalloc 7 4096 (init_heap demo_heap) = Some (b, hs)"
    using kmalloc_fresh [OF demo_heap_inv sz, of 7] demo_heap_page1 by blast
  then obtain s1 where a: "pml4_alloc 7 fresh_vm = Some (b, s1)"
    by (simp add: pml4_alloc_def vm_alloc_def kcalloc_def h)
  show ?thesis using a process_tables_never_map [OF inv a] by blast
qed

subsection \<open>Copying a table\<close>

lemma copied_entry: "(e AND NOT 0xFFF) OR copy_flags e cow = (if cow then e AND NOT 2 else e OR 2)"
proof -
  have m: "(0xFFD :: u64) = mask 12 AND NOT 2" "(0xFFF :: u64) = mask 12" by (simp_all add: mask_eq_exp_minus_1)
  show ?thesis
    unfolding copy_flags_def m
    by (rule bit_word_eqI) (auto simp only: bit_and_iff bit_or_iff bit_not_iff bit_mask_iff flag_bits bit_0_eq split: if_splits; simp)
qed

lemma leaf_copy_loop:
  assumes al: "paligned dest" "paligned src" "kva dest \<noteq> kva src" "dest \<noteq> 0" "src \<noteq> 0"
  shows "distinct ks \<Longrightarrow> \<forall>k \<in> set ks. unat k < 512 \<Longrightarrow>
    \<exists>m'. ofold (\<lambda>i s. do { e \<leftarrow> tget (mem s) src i; m \<leftarrow> tput (mem s) dest i ((e AND NOT 0xFFF) OR copy_flags e cow);
        Some (s\<lparr>mem := m\<rparr>) }) ks s = Some (s\<lparr>mem := m'\<rparr>) \<and>
      (\<forall>i. unat i < 512 \<longrightarrow> tget m' src i = tget (mem s) src i) \<and>
      (\<forall>i. unat i < 512 \<longrightarrow> tget m' dest i = (if i \<in> set ks
         then map_option (\<lambda>e. if cow then e AND NOT 2 else e OR 2) (tget (mem s) src i) else tget (mem s) dest i))"
proof (induction ks arbitrary: s)
  case Nil
  then show ?case by (intro exI [of _ "mem s"]) simp
next
  case (Cons k ks)
  let ?e = "load64 (mem s) (entry_at src k)"
  let ?v = "if cow then ?e AND NOT 2 else ?e OR 2"
  have e: "tget (mem s) src k = Some ?e" using al(5) by (simp add: tget_def)
  obtain m where m: "tput (mem s) dest k ?v = Some m" using al(4) by (simp add: tput_def)
  have m2: "tput (mem s) dest k ((?e AND NOT 0xFFF) OR copy_flags ?e cow) = Some m" unfolding copied_entry by (rule m)
  have k: "unat k < 512" "distinct ks" "\<forall>j \<in> set ks. unat j < 512" "k \<notin> set ks" using Cons.prems by simp_all
  have src: "tget m src i = tget (mem s) src i" if "unat i < 512" for i
    using al k(1) that by (intro tget_tput_other [OF m]) auto
  have dst: "tget m dest i = tget (mem s) dest i" if "unat i < 512" "i \<noteq> k" for i
    using al k(1) that by (intro tget_tput_other [OF m]) auto
  obtain m' where m': "ofold (\<lambda>i s. do { e \<leftarrow> tget (mem s) src i; m \<leftarrow> tput (mem s) dest i ((e AND NOT 0xFFF) OR copy_flags e cow);
        Some (s\<lparr>mem := m\<rparr>) }) ks (s\<lparr>mem := m\<rparr>) = Some (s\<lparr>mem := m'\<rparr>)"
    "\<forall>i. unat i < 512 \<longrightarrow> tget m' src i = tget m src i"
    "\<forall>i. unat i < 512 \<longrightarrow> tget m' dest i = (if i \<in> set ks
         then map_option (\<lambda>e. if cow then e AND NOT 2 else e OR 2) (tget m src i) else tget m dest i)"
    using Cons.IH [OF k(2,3), of "s\<lparr>mem := m\<rparr>"] by auto
  have "tget m' dest i = (if i \<in> set (k # ks)
      then map_option (\<lambda>e. if cow then e AND NOT 2 else e OR 2) (tget (mem s) src i) else tget (mem s) dest i)"
    if "unat i < 512" for i
    using m'(3) that src dst tget_tput_same [OF m] e k(4) by (cases "i = k") auto
  then show ?case
    using m'(1,2) e m2 src by (intro exI [of _ m']) simp
qed

text \<open>Copying the last level of tables gives every one of the 512 entries with its frame and
  flags, but with the write flag cleared for a copy-on-write copy, and set otherwise (also for
  the pages that the source has read-only); the source keeps its entries, so that a
  copy-on-write copy leaves the parent able to write to the shared frames.\<close>

theorem copy_last_level:
  assumes "paligned dest" "paligned src" "kva dest \<noteq> kva src" "dest \<noteq> 0" "src \<noteq> 0"
  shows "\<exists>s'. pml_copy junk 2 cow dest src s = Some s' \<and>
    (\<forall>i. unat i < 512 \<longrightarrow> tget (mem s') src i = tget (mem s) src i \<and>
      tget (mem s') dest i = map_option (\<lambda>e. if cow then e AND NOT 2 else e OR 2) (tget (mem s) src i))"
proof -
  let ?ks = "map of_nat [0..<512] :: u64 list"
  have u: "unat (of_nat n :: u64) = n" if "n < 512" for n using that by (intro unat_eq_of_nat) simp
  have inj: "inj_on (of_nat :: nat \<Rightarrow> u64) {0..<512}"
    by (rule inj_onI) (metis atLeastLessThan_iff u)
  have ks: "distinct ?ks" "\<forall>k \<in> set ?ks. unat k < 512" using inj u by (auto simp: distinct_map)
  have all: "i \<in> set ?ks" if "unat i < 512" for i
  proof -
    have "i = of_nat (unat i)" by simp
    then show ?thesis using that by (metis atLeastLessThan_upt atLeastLessThan_iff image_eqI le0 list.set_map)
  qed
  have copy: "pml_copy junk 2 cow dest src s = ofold (\<lambda>i s. do { e \<leftarrow> tget (mem s) src i;
      m \<leftarrow> tput (mem s) dest i ((e AND NOT 0xFFF) OR copy_flags e cow); Some (s\<lparr>mem := m\<rparr>) }) ?ks s"
    by (subst pml_copy.simps) simp
  obtain m' where m': "pml_copy junk 2 cow dest src s = Some (s\<lparr>mem := m'\<rparr>)"
    "\<forall>i. unat i < 512 \<longrightarrow> tget m' src i = tget (mem s) src i"
    "\<forall>i. unat i < 512 \<longrightarrow> tget m' dest i = (if i \<in> set ?ks
       then map_option (\<lambda>e. if cow then e AND NOT 2 else e OR 2) (tget (mem s) src i) else tget (mem s) dest i)"
    unfolding copy using leaf_copy_loop [OF assms ks, of cow s] by blast
  show ?thesis using m' all by (intro exI [of _ "s\<lparr>mem := m'\<rparr>"]) simp
qed

theorem copy_last_level_witness:
  "\<exists>s'. pml_copy 7 2 True 0x5000 0x2000 demo_vm = Some s' \<and>
    tget (mem s') 0x5000 0 = map_option (\<lambda>e. e AND NOT 2) (tget (mem demo_vm) 0x2000 0)"
proof -
  have a: "paligned 0x5000" "paligned 0x2000" "kva 0x5000 \<noteq> kva 0x2000" "(0x5000 :: u64) \<noteq> 0" "(0x2000 :: u64) \<noteq> 0"
    by (simp_all add: paligned_def kva_def PHYSBASE_def)
  have "unat (0 :: u64) < 512" by simp
  moreover obtain s' where "pml_copy 7 2 True 0x5000 0x2000 demo_vm = Some s'"
    "\<forall>i. unat i < 512 \<longrightarrow> tget (mem s') 0x5000 i = map_option (\<lambda>e. e AND NOT 2) (tget (mem demo_vm) 0x2000 i)"
    using copy_last_level [OF a, of 7 True demo_vm] unfolding if_True by blast
  ultimately show ?thesis by blast
qed

subsection \<open>Words of four bytes\<close>

lemma store32_at: "store32 m p v a = (if a - p < 4 then ucast (drop_bit (8 * unat (a - p)) v) else m a)"
proof -
  obtain w where a: "a = p + w" by (metis add_diff_cancel_left' diff_add_cancel add.commute)
  have "w < 4 \<longleftrightarrow> w = 0 \<or> w = 1 \<or> w = 2 \<or> w = 3" for w :: u64
  proof -
    have "unat w < 4 \<longleftrightarrow> unat w = 0 \<or> unat w = 1 \<or> unat w = 2 \<or> unat w = 3" by presburger
    then show ?thesis unfolding word_less_nat_alt word_unat_eq_iff by simp
  qed
  then show ?thesis unfolding a by (auto simp: store32_def)
qed

lemma load32_store32: "load32 (store32 m p v) p = v"
proof (rule bit_word_eqI)
  fix n :: nat
  assume "n < LENGTH(32)"
  then consider "n < 8" | "8 \<le> n" "n < 16" | "16 \<le> n" "n < 24" | "24 \<le> n" "n < 32" by fastforce
  then show "bit (load32 (store32 m p v) p) n = bit v n"
    unfolding load32_def store32_at by cases (auto simp: bit_simps)
qed

lemma load32_zero: "(\<And>w. w < 4 \<Longrightarrow> m (p + w) = 0) \<Longrightarrow> load32 m p = 0"
proof -
  assume z: "\<And>w. w < 4 \<Longrightarrow> m (p + w) = 0"
  show ?thesis using z [of 0] z [of 1] z [of 2] z [of 3] by (simp add: load32_def)
qed

end
