(* ===== verification/Console.thy ===== *)
theory Console
  imports Libc "HOL-Library.Signed_Division"
begin

section \<open>The text console (io/console.c, io/puts.c)\<close>

text \<open>
  Model of \<^verbatim>\<open>kern/lib/io/console.c\<close> and \<^verbatim>\<open>io/puts.c\<close>.  \<open>vga i\<close> is the byte at
  \<^verbatim>\<open>vga_buffer[i]\<close>: the screen is the 8000 bytes from index 0 on, two for a character, and a
  write with another index is a write to the memory around it.  The cursor of a console frame is a
  pair of C integers: words of 32 bits, read as signed, whose sums and products wrap; the index of a
  character is such a word too, and C's division is \<open>sdiv\<close> and \<open>smod\<close>.
  \<^verbatim>\<open>acquire_console\<close> and \<^verbatim>\<open>release_console\<close> have empty bodies.
\<close>

definition MAX_CSFRAMES :: nat where
  "MAX_CSFRAMES = 16"

definition MAX_CELLS :: int where
  "MAX_CELLS = 160"

definition MAX_LINES :: int where
  "MAX_LINES = 50"

definition CHAR_WIDTH :: int where
  "CHAR_WIDTH = 2"

record console_state =
  line :: u32
  cell :: u32

record console =
  vga :: "int \<Rightarrow> u8"
  cs_frames :: "nat \<Rightarrow> console_state"
  frame_index :: nat
  enable_scrolling :: bool

definition current_csframe :: "console \<Rightarrow> console_state" where
  "current_csframe c = cs_frames c (frame_index c)"

definition set_csframe :: "u32 \<Rightarrow> u32 \<Rightarrow> console \<Rightarrow> console" where
  "set_csframe l ce c = c\<lparr>cs_frames := (cs_frames c)(frame_index c := \<lparr>line = l, cell = ce\<rparr>)\<rparr>"

function clear_loop :: "int \<Rightarrow> (int \<Rightarrow> u8) \<Rightarrow> (int \<Rightarrow> u8)" where
  "clear_loop i v = (if i < MAX_CELLS * MAX_LINES then clear_loop (i + 2) (v(i := 0x20, i + 1 := 0)) else v)"
  by auto
termination by (relation "measure (\<lambda>(i, v). nat (MAX_CELLS * MAX_LINES - i))") auto

definition clear_console :: "console \<Rightarrow> console" where
  "clear_console c = c\<lparr>vga := clear_loop 0 (vga c)\<rparr>"

definition init_console :: "console \<Rightarrow> console" where
  "init_console c =
     (clear_console c)\<lparr>cs_frames := (\<lambda>i. if i < MAX_CSFRAMES then \<lparr>line = 0, cell = 0\<rparr> else cs_frames c i),
        frame_index := 0, enable_scrolling := True\<rparr>"

function move_loop :: "int \<Rightarrow> int \<Rightarrow> (int \<Rightarrow> u8) \<Rightarrow> int \<times> (int \<Rightarrow> u8)" where
  "move_loop i j v =
     (if i < MAX_CELLS * (MAX_LINES - 1) then move_loop (i + 2) (j + 2) (v(i := v j, i + 1 := 0x0F)) else (i, v))"
  by auto
termination by (relation "measure (\<lambda>(i, j, v). nat (MAX_CELLS * (MAX_LINES - 1) - i))") auto

declare clear_loop.simps [simp del] move_loop.simps [simp del]

text \<open>The second loop of \<^verbatim>\<open>scroll_down\<close> blanks the rest of the screen, as \<^verbatim>\<open>clear_console\<close> does.\<close>

definition scroll_down :: "console \<Rightarrow> console" where
  "scroll_down c = (let (i, v) = move_loop 0 MAX_CELLS (vga c) in c\<lparr>vga := clear_loop i v\<rparr>)"

definition newline :: "console \<Rightarrow> console" where
  "newline c =
     (let l = line (current_csframe c) + 1;
          (l, c) = (if l = of_int MAX_LINES
                    then if enable_scrolling c then (l, scroll_down c) else (0, c)
                    else (l, c))
      in set_csframe l 0 c)"

text \<open>
  One turn of the loop of \<^verbatim>\<open>write_console\<close> on the character \<open>chr\<close>, with the local copies
  \<open>l\<close> and \<open>ce\<close> of the cursor; \<^verbatim>\<open>newline\<close> works on the console frame, not on the copies.
\<close>

definition write_char :: "u8 \<Rightarrow> u32 \<times> u32 \<times> console \<Rightarrow> u32 \<times> u32 \<times> console" where
  "write_char chr = (\<lambda>(l, ce, c).
     let index = l * of_int MAX_CELLS + ce;
         (l, ce, c) =
           (if chr = 0x09
            then let ce = (of_int (sint ce sdiv 8) + 1) * 8; newcell = of_int (sint ce smod MAX_CELLS)
                 in if sint ce \<ge> MAX_CELLS then (l, newcell, newline c) else (l, ce, c)
            else if chr = 0x0A then (l + 1, 0, c)
            else if chr = 0x0D then (l, 0, c)
            else let c = c\<lparr>vga := (vga c)(sint index := chr, sint (index + 1) := 0x0F)\<rparr>; ce = ce + of_int CHAR_WIDTH
                 in if ce = of_int MAX_CELLS then (l, ce, newline c) else (l, ce, c))
     in if l = of_int MAX_LINES
        then if enable_scrolling c then (l, ce, scroll_down c) else (0, ce, c)
        else (l, ce, c))"

function write_loop :: "bytes \<Rightarrow> u64 \<Rightarrow> size_t \<Rightarrow> u32 \<times> u32 \<times> console \<Rightarrow> u32 \<times> u32 \<times> console" where
  "write_loop m p count st = (if count \<noteq> 0 then write_loop m (p + 1) (count - 1) (write_char (m p) st) else st)"
  by auto
termination by (relation "measure (\<lambda>(m, p, count, st). unat count)") (auto simp: measure_unat)

declare write_loop.simps [simp del]

text \<open>The loop ends with \<^verbatim>\<open>count\<close> zero, so that the result is the number of bytes asked for.\<close>

definition write_console :: "bytes \<Rightarrow> u64 \<Rightarrow> size_t \<Rightarrow> console \<Rightarrow> size_t \<times> console" where
  "write_console m buf count c =
     (let cs = current_csframe c;
          (l, ce, c) = write_loop m buf count (line cs, cell cs, c)
      in (count, set_csframe l ce c))"

definition puts :: "bytes \<Rightarrow> u64 \<Rightarrow> console \<Rightarrow> (u32 \<times> console) option" where
  "puts m s c = do {
     len \<leftarrow> strlen m s;
     let (result, c) = write_console m s len c;
     Some (ucast result, newline c) }"

definition putchar :: "u32 \<Rightarrow> console \<Rightarrow> u32 \<times> console" where
  "putchar ch c = (let (_, c) = write_console (\<lambda>_. ucast ch) 0 1 c in (ch, c))"

subsection \<open>Scrolling\<close>

lemma clear_loop_spec:
  "even i \<Longrightarrow> clear_loop i v = (\<lambda>k. if i \<le> k \<and> k < 8000 then (if even k then 0x20 else 0) else v k)"
proof (induction i v rule: clear_loop.induct)
  case (1 i v)
  show ?case
  proof (cases "i < 8000")
    case True
    then have t: "i < MAX_CELLS * MAX_LINES" by (simp add: MAX_CELLS_def MAX_LINES_def)
    have "clear_loop i v = clear_loop (i + 2) (v(i := 0x20, i + 1 := 0))"
      by (subst clear_loop.simps) (rule if_P [OF t])
    also have "\<dots> = (\<lambda>k. if i + 2 \<le> k \<and> k < 8000 then (if even k then 0x20 else 0)
        else (v(i := 0x20, i + 1 := 0)) k)"
      by (rule 1(1) [OF t]) (use 1(2) in simp)
    also have "\<dots> = (\<lambda>k. if i \<le> k \<and> k < 8000 then (if even k then 0x20 else 0) else v k)"
    proof
      fix k
      have "k < i \<or> k = i \<or> k = i + 1 \<or> i + 2 \<le> k" by linarith
      moreover have "i + 1 < 8000" using True 1(2) by presburger
      ultimately show "(if i + 2 \<le> k \<and> k < 8000 then (if even k then 0x20 else 0) else (v(i := 0x20, i + 1 := 0)) k)
          = (if i \<le> k \<and> k < 8000 then (if even k then 0x20 else 0) else v k)"
        using True 1(2) by auto
    qed
    finally show ?thesis .
  next
    case False
    then show ?thesis by (subst clear_loop.simps) (auto simp: MAX_CELLS_def MAX_LINES_def fun_eq_iff)
  qed
qed

lemma move_loop_spec:
  "even i \<Longrightarrow> i \<le> 7840 \<Longrightarrow> move_loop i (i + 160) v
     = (7840, \<lambda>k. if i \<le> k \<and> k < 7840 then (if even k then v (k + 160) else 0x0F) else v k)"
proof (induction "nat (7840 - i)" arbitrary: i v rule: less_induct)
  case less
  show ?case
  proof (cases "i < 7840")
    case True
    let ?v = "v(i := v (i + 160), i + 1 := 0x0F)"
    have i2: "i + 2 \<le> 7840" using True less.prems by presburger
    have "move_loop i (i + 160) v = move_loop (i + 2) (i + 2 + 160) ?v"
      using True by (subst move_loop.simps) (simp add: MAX_CELLS_def MAX_LINES_def algebra_simps)
    also have "\<dots> = (7840, \<lambda>k. if i + 2 \<le> k \<and> k < 7840 then (if even k then ?v (k + 160) else 0x0F) else ?v k)"
      using less.hyps [of "i + 2"] True less.prems i2 by simp
    also have "(\<lambda>k. if i + 2 \<le> k \<and> k < 7840 then (if even k then ?v (k + 160) else 0x0F) else ?v k)
        = (\<lambda>k. if i \<le> k \<and> k < 7840 then (if even k then v (k + 160) else 0x0F) else v k)"
    proof
      fix k
      have "k < i \<or> k = i \<or> k = i + 1 \<or> i + 2 \<le> k" by linarith
      then show "(if i + 2 \<le> k \<and> k < 7840 then (if even k then ?v (k + 160) else 0x0F) else ?v k)
          = (if i \<le> k \<and> k < 7840 then (if even k then v (k + 160) else 0x0F) else v k)"
        using True less.prems(1) i2 by auto
    qed
    finally show ?thesis .
  next
    case False
    with less.prems(2) have "i = 7840" by simp
    then show ?thesis by (subst move_loop.simps) (auto simp: MAX_CELLS_def MAX_LINES_def fun_eq_iff)
  qed
qed

lemma vga_scroll_down:
  "vga (scroll_down c) = (\<lambda>k. if 0 \<le> k \<and> k < 7840 then (if even k then vga c (k + 160) else 0x0F)
     else if 7840 \<le> k \<and> k < 8000 then (if even k then 0x20 else 0) else vga c k)"
  using move_loop_spec [of 0 "vga c"]
  by (auto simp: scroll_down_def MAX_CELLS_def clear_loop_spec fun_eq_iff)

text \<open>Scrolling moves every character up one line, gives every moved cell the default colour,
  blanks the last line and changes nothing outside the screen.\<close>

theorem scroll_down_moves:
  "vga (scroll_down c) = (\<lambda>k. if 0 \<le> k \<and> k < 7840 then (if even k then vga c (k + 160) else 0x0F)
     else if 7840 \<le> k \<and> k < 8000 then (if even k then 0x20 else 0) else vga c k)"
  by (rule vga_scroll_down)

subsection \<open>Printing\<close>

text \<open>A byte that the console shows: not a tab, a line feed or a carriage return.\<close>

definition plain_char :: "u8 \<Rightarrow> bool" where
  "plain_char b \<longleftrightarrow> b \<noteq> 0x09 \<and> b \<noteq> 0x0A \<and> b \<noteq> 0x0D"

text \<open>The screen after \<open>n\<close> bytes of \<open>m\<close> from \<open>p\<close> on have been put at the index \<open>k0\<close>.\<close>

definition put_text :: "bytes \<Rightarrow> u64 \<Rightarrow> nat \<Rightarrow> int \<Rightarrow> (int \<Rightarrow> u8) \<Rightarrow> (int \<Rightarrow> u8)" where
  "put_text m p n k0 v =
     (\<lambda>k. if k0 \<le> k \<and> k < k0 + 2 * int n
          then (if even (k - k0) then m (p + of_int ((k - k0) div 2)) else 0x0F) else v k)"

lemma put_text_Suc:
  "put_text m (p + 1) n (k0 + 2) (v(k0 := m p, k0 + 1 := 0x0F)) = put_text m p (Suc n) k0 v"
proof
  fix k
  consider "k < k0" | "k = k0" | "k = k0 + 1" | "k0 + 2 \<le> k" by linarith
  then show "put_text m (p + 1) n (k0 + 2) (v(k0 := m p, k0 + 1 := 0x0F)) k = put_text m p (Suc n) k0 v k"
  proof cases
    case 4
    then obtain j where "k = k0 + 2 + j" "0 \<le> j" by (metis diff_ge_0_iff_ge add.commute diff_add_cancel)
    moreover have "(j + 2) div 2 = j div 2 + 1" by simp
    ultimately show ?thesis by (simp add: put_text_def algebra_simps)
  qed (auto simp: put_text_def)
qed

lemma sint_small: "k < 2147483648 \<Longrightarrow> sint (of_nat k :: u32) = int k"
proof -
  assume k: "k < 2147483648"
  have "sint (of_nat k :: u32) = signed_take_bit 31 (int k)"
    by (simp add: signed_of_nat)
  also have "\<dots> = int k" by (rule signed_take_bit_int_eq_self) (use k in simp_all)
  finally show ?thesis .
qed

lemma small_neq: "j < 2147483648 \<Longrightarrow> k < 2147483648 \<Longrightarrow> ((of_nat j :: u32) = of_nat k) = (j = k)"
  by (metis sint_small of_nat_eq_iff)

text \<open>One character in a cell of the line \<open>l\<close> that is not the last one.\<close>

lemma write_char_cell:
  assumes "plain_char b" "l < 50" "ce + 2 < 160"
  shows "write_char b (of_nat l, of_nat ce, c) = (of_nat l, of_nat (ce + 2),
    c\<lparr>vga := (vga c)(int (l * 160 + ce) := b, int (l * 160 + ce) + 1 := 0x0F)\<rparr>)"
proof -
  have "sint (of_nat (l * 160 + ce) :: u32) = int (l * 160 + ce)" "sint (of_nat (l * 160 + ce + 1) :: u32) = int (l * 160 + ce) + 1"
    using assms(2,3) sint_small [of "l * 160 + ce"] sint_small [of "l * 160 + ce + 1"] by simp_all
  then have i: "sint (of_nat l * 160 + of_nat ce :: u32) = int (l * 160 + ce)"
    "sint (of_nat l * 160 + of_nat ce + 1 :: u32) = int (l * 160 + ce) + 1" by (simp_all add: algebra_simps)
  have n: "(of_nat l :: u32) \<noteq> 50" "(of_nat ce + 2 :: u32) \<noteq> 160"
    using small_neq [of l 50] small_neq [of "ce + 2" 160] assms(2,3) by (simp_all add: add.commute)
  show ?thesis
    using assms(1) n i by (simp add: write_char_def plain_char_def MAX_CELLS_def MAX_LINES_def CHAR_WIDTH_def Let_def add.commute)
qed

lemma write_loop_text:
  "(\<forall>k < unat n. plain_char (m (p + of_nat k))) \<Longrightarrow> l < 50 \<Longrightarrow> ce + 2 * unat n < 160 \<Longrightarrow>
   write_loop m p n (of_nat l, of_nat ce, c) = (of_nat l, of_nat (ce + 2 * unat n),
     c\<lparr>vga := put_text m p (unat n) (int (l * 160 + ce)) (vga c)\<rparr>)"
proof (induction "unat n" arbitrary: n p ce c)
  case 0
  then have "n = 0" by (simp add: unat_eq_zero)
  then show ?case by (subst write_loop.simps) (auto simp: put_text_def fun_eq_iff intro!: console.equality)
next
  case (Suc k)
  then have n: "n \<noteq> 0" by auto
  then have k: "unat (n - 1) = k" using Suc.hyps(2) by (simp add: unat_minus_one)
  have sh: "plain_char (m p)" using Suc.prems(1) [rule_format, of 0] Suc.hyps(2) by simp
  have rest: "\<forall>j < unat (n - 1). plain_char (m (p + 1 + of_nat j))"
  proof (intro allI impI)
    fix j assume "j < unat (n - 1)"
    then have "Suc j < unat n" using k Suc.hyps(2) by simp
    then have "plain_char (m (p + of_nat (Suc j)))" using Suc.prems(1) by blast
    then show "plain_char (m (p + 1 + of_nat j))" by (simp add: algebra_simps)
  qed
  let ?i = "int (l * 160 + ce)"
  let ?c = "c\<lparr>vga := (vga c)(?i := m p, ?i + 1 := 0x0F)\<rparr>"
  have ce: "ce + 2 < 160" "ce + 2 + 2 * unat (n - 1) < 160" using Suc.prems(3) Suc.hyps(2) k by simp_all
  have "write_loop m p n (of_nat l, of_nat ce, c) = write_loop m (p + 1) (n - 1) (of_nat l, of_nat (ce + 2), ?c)"
    using n write_char_cell [OF sh Suc.prems(2) ce(1), of c] by (subst write_loop.simps) simp
  also have "\<dots> = (of_nat l, of_nat (ce + 2 + 2 * unat (n - 1)),
      ?c\<lparr>vga := put_text m (p + 1) (unat (n - 1)) (int (l * 160 + (ce + 2))) (vga ?c)\<rparr>)"
    by (rule Suc.hyps(1) [OF k [symmetric] rest Suc.prems(2) ce(2)])
  also have "\<dots> = (of_nat l, of_nat (ce + 2 * unat n), c\<lparr>vga := put_text m p (unat n) ?i (vga c)\<rparr>)"
  proof -
    have e: "ce + 2 + 2 * unat (n - 1) = ce + 2 * unat n" using k Suc.hyps(2) by simp
    have "put_text m (p + 1) (unat (n - 1)) (int (l * 160 + (ce + 2))) (vga ?c) = put_text m p (unat n) ?i (vga c)"
      using put_text_Suc [of m p "unat (n - 1)" ?i "vga c"] k Suc.hyps(2) by (simp add: algebra_simps)
    then show ?thesis unfolding e by simp
  qed
  finally show ?case .
qed

text \<open>C18: while the cursor is on one of the fifty lines of the screen, text without control characters
  that ends before the right margin is shown where the cursor is, in the default colour; every byte
  written lies on the screen, no other byte changes, the cursor moves behind the text and the result is
  the number of bytes.  On the line below, where a new line on the last line of the screen leaves the
  cursor, nothing is shown: \<open>newline_leaves_screen\<close>.\<close>

theorem write_console_shows:
  assumes "\<forall>k < unat n. plain_char (m (buf + of_nat k))" "unat (line (current_csframe c)) < 50"
    and "unat (cell (current_csframe c)) + 2 * unat n < 160"
  shows "write_console m buf n c = (n, set_csframe (line (current_csframe c)) (cell (current_csframe c) + 2 * ucast n)
      (c\<lparr>vga := put_text m buf (unat n) (int (unat (line (current_csframe c)) * 160 + unat (cell (current_csframe c)))) (vga c)\<rparr>)) \<and>
    unat (line (current_csframe c)) * 160 + unat (cell (current_csframe c)) + 2 * unat n < 8000"
proof -
  have "(2 * ucast n :: u32) = of_nat (2 * unat n)" by simp
  then show ?thesis
    using write_loop_text [OF assms, of c] assms(2,3) by (simp add: write_console_def Let_def)
qed

definition demo_console :: console where
  "demo_console = \<lparr>vga = (\<lambda>_. 0), cs_frames = (\<lambda>_. \<lparr>line = 49, cell = 0\<rparr>), frame_index = 0, enable_scrolling = True\<rparr>"

theorem write_console_shows_witness:
  "write_console (\<lambda>_. 0x41) 0 3 demo_console = (3, set_csframe 49 6
     (demo_console\<lparr>vga := put_text (\<lambda>_. 0x41) 0 3 7840 (\<lambda>_. 0)\<rparr>))"
  using write_console_shows [of 3 "\<lambda>_. 0x41" 0 demo_console]
  by (simp add: demo_console_def current_csframe_def plain_char_def)

text \<open>C40: with scrolling enabled, a new line on the last line scrolls, but leaves the cursor on the line below the
  screen: the next character is written behind the end of the video buffer, and a second new
  line moves further down without scrolling.\<close>

theorem newline_leaves_screen:
  assumes "line (current_csframe c) = 49" "enable_scrolling c" "plain_char (m buf)"
  shows "vga (newline c) = vga (scroll_down c) \<and> line (current_csframe (newline c)) = 50 \<and>
    vga (snd (write_console m buf 1 (newline c))) 8000 = m buf \<and>
    line (current_csframe (newline (newline c))) = 51 \<and> vga (newline (newline c)) = vga (newline c)"
proof -
  have sc: "current_csframe (scroll_down c) = current_csframe c" "enable_scrolling (scroll_down c) = enable_scrolling c" for c
    by (simp_all add: scroll_down_def current_csframe_def split: prod.split)
  have nl: "newline c = set_csframe 50 0 (scroll_down c)"
    using assms(1,2) by (simp add: newline_def MAX_LINES_def)
  have cur: "current_csframe (set_csframe l ce c) = \<lparr>line = l, cell = ce\<rparr>" for l ce c
    by (simp add: current_csframe_def set_csframe_def)
  have keep: "vga (set_csframe l ce c) = vga c" "enable_scrolling (set_csframe l ce c) = enable_scrolling c" for l ce c
    by (simp_all add: set_csframe_def)
  have nl2: "newline (newline c) = set_csframe 51 0 (newline c)"
    unfolding nl by (simp add: newline_def cur MAX_LINES_def)
  let ?n = "newline c" and ?w = "newline c\<lparr>vga := (vga (newline c))(8000 := m buf, 8001 := 0x0F)\<rparr>"
  have "write_char (m buf) (50, 0, ?n) = (50, 2, scroll_down ?w)"
    using assms(2,3) by (simp add: write_char_def plain_char_def MAX_CELLS_def MAX_LINES_def CHAR_WIDTH_def Let_def nl keep sc)
  then have "write_loop m buf 1 (50, 0, ?n) = (50, 2, scroll_down ?w)"
    by (subst write_loop.simps) (simp, subst write_loop.simps, simp)
  then have "snd (write_console m buf 1 ?n) = set_csframe 50 2 (scroll_down ?w)"
    by (simp add: write_console_def nl cur)
  then have "vga (snd (write_console m buf 1 ?n)) 8000 = m buf"
    using vga_scroll_down [of ?w] by (simp add: keep)
  with nl2 show ?thesis by (simp add: nl cur keep)
qed

theorem newline_leaves_screen_witness:
  "line (current_csframe (newline demo_console)) = 50 \<and>
   vga (snd (write_console (\<lambda>_. 0x41) 0 1 (newline demo_console))) 8000 = 0x41"
  using newline_leaves_screen [of demo_console "\<lambda>_. 0x41" 0]
  by (simp add: demo_console_def current_csframe_def plain_char_def)

end
