(* ===== verification/Xprintf.thy ===== *)
theory Xprintf
  imports Console
begin

unbundle bit_operations_syntax

section \<open>Formatted output (shared/xprintf.c, io/printf.c)\<close>

text \<open>
  Model of \<^verbatim>\<open>kern/lib/shared/xprintf.c\<close> and \<^verbatim>\<open>io/printf.c\<close> on the byte memory of the
  string functions.  An argument list is the list of its eight-byte slots; taking an
  argument that was not passed is \<open>None\<close>.  The members of the format descriptor that
  \<^verbatim>\<open>fmt_defaults\<close> does not set keep what the stack held, so the descriptor is threaded
  through \<^verbatim>\<open>vsprintf\<close>; \<open>junk\<close> is the value of the variable of \<^verbatim>\<open>write_int\<close> that is read
  unset when the size is none of the known ones.  A shift of the \<^verbatim>\<open>int\<close> 1 by more than 31
  is undefined in C; the model gives what the processor does (the count modulo 32).
  Characters are bytes: the code only compares them with constants.
\<close>

subsection \<open>Format descriptors\<close>

datatype format_data_type = FMTDATA_INT | FMTDATA_CHR | FMTDATA_STR | FMTDATA_FLT | FMTDATA_ESC

datatype format_alignment = FMTALGN_LEFT | FMTALGN_RIGHT

record format_arg_info =
  width :: int
  precision :: int
  pad :: u8
  alternate_form :: bool
  align :: format_alignment
  data :: format_data_type
  fsize :: int
  fbase :: u64
  sign_pad :: u8
  szt :: bool
  ptd :: bool
  write_signed :: bool
  upper_digits :: bool

definition fmt_defaults :: "format_arg_info \<Rightarrow> format_arg_info" where
  "fmt_defaults out = out\<lparr>width := 1, precision := - 1, pad := 0x20, alternate_form := False,
     align := FMTALGN_LEFT, data := FMTDATA_INT, fsize := 0\<rparr>"

definition chars :: "string \<Rightarrow> u8 list" where
  "chars s = map of_char s"

text \<open>\<^verbatim>\<open>strchr\<close> of a constant string finds the terminator too.\<close>

definition chr_in :: "string \<Rightarrow> u8 \<Rightarrow> bool" where
  "chr_in s c \<longleftrightarrow> c = 0 \<or> c \<in> set (chars s)"

definition ch :: "char \<Rightarrow> u8" where
  "ch c = of_char c"

text \<open>The case of \<^verbatim>\<open>'0'\<close> has no \<^verbatim>\<open>break\<close> and runs on into the case of \<^verbatim>\<open>'-'\<close>.\<close>

definition set_flag :: "u8 \<Rightarrow> format_arg_info \<Rightarrow> format_arg_info" where
  "set_flag c fa =
     (if c = ch CHR ''#'' then fa\<lparr>alternate_form := True\<rparr>
      else if c = ch CHR ''0'' then
        (let fa = (if align fa \<noteq> FMTALGN_RIGHT then fa\<lparr>pad := ch CHR ''0''\<rparr> else fa)
         in fa\<lparr>pad := ch CHR '' '', align := FMTALGN_RIGHT\<rparr>)
      else if c = ch CHR ''-'' then fa\<lparr>pad := ch CHR '' '', align := FMTALGN_RIGHT\<rparr>
      else if c = ch CHR '' '' then
        (if sign_pad fa \<noteq> ch CHR ''+'' then fa\<lparr>sign_pad := ch CHR '' ''\<rparr> else fa)
      else if c = ch CHR ''+'' then fa\<lparr>sign_pad := ch CHR ''+''\<rparr>
      else fa)"

partial_function (option) flag_loop ::
  "bytes \<Rightarrow> u64 \<Rightarrow> u8 \<Rightarrow> format_arg_info \<Rightarrow> (u64 \<times> u8 \<times> format_arg_info) option" where
  "flag_loop m format c fa =
     (if c \<noteq> 0 \<and> chr_in ''#0- +'' c
      then flag_loop m (format + 1) (m format) (set_flag c fa)
      else Some (format, c, fa))"

definition set_size :: "bytes \<Rightarrow> u64 \<Rightarrow> u8 \<Rightarrow> format_arg_info \<Rightarrow> u64 \<times> format_arg_info" where
  "set_size m format c fa =
     (if c = ch CHR ''l'' then
        (if m format = ch CHR ''l'' then (format + 1, fa\<lparr>fsize := 16\<rparr>) else (format, fa\<lparr>fsize := 8\<rparr>))
      else if c = ch CHR ''h'' then
        (if m format = ch CHR ''h'' then (format + 1, fa\<lparr>fsize := 1\<rparr>) else (format, fa\<lparr>fsize := 2\<rparr>))
      else if c = ch CHR ''z'' then (format, fa\<lparr>fsize := 8, szt := True\<rparr>)
      else if c = ch CHR ''t'' then (format, fa\<lparr>fsize := 8, ptd := True\<rparr>)
      else if c = ch CHR ''L'' then (format, fa\<lparr>fsize := 16\<rparr>)
      else (format, fa))"

text \<open>The conversions; \<^verbatim>\<open>p\<close>, \<^verbatim>\<open>X\<close>, \<^verbatim>\<open>x\<close>, \<^verbatim>\<open>o\<close> and \<^verbatim>\<open>u\<close> run on into one another.\<close>

definition int_defaults :: "format_arg_info \<Rightarrow> format_arg_info" where
  "int_defaults fa =
     (let fa = (if precision fa = - 1 then fa\<lparr>precision := 1\<rparr> else fa)
      in if fsize fa = 0 then fa\<lparr>fsize := 4\<rparr> else fa)"

definition set_conv :: "u8 \<Rightarrow> format_arg_info \<Rightarrow> format_arg_info" where
  "set_conv c fa =
     (if c \<in> set (chars ''pXxou'') then
        (let fa = (if c = ch CHR ''p'' then fa\<lparr>alternate_form := True\<rparr> else fa);
             fa = (if c \<in> set (chars ''pX'') then fa\<lparr>upper_digits := True\<rparr> else fa);
             fa = (if c \<in> set (chars ''pXx'') then fa\<lparr>fbase := 16\<rparr> else fa);
             fa = (if c = ch CHR ''o'' then fa\<lparr>fbase := 8\<rparr> else fa)
         in int_defaults (fa\<lparr>data := FMTDATA_INT, write_signed := False\<rparr>))
      else if c = ch CHR ''i'' then
        int_defaults (fa\<lparr>data := FMTDATA_INT, write_signed := True, fbase := 10\<rparr>)
      else if c = ch CHR ''c'' then fa\<lparr>data := FMTDATA_CHR\<rparr>
      else if c = ch CHR ''s'' then fa\<lparr>data := FMTDATA_STR\<rparr>
      else if c = ch CHR ''%'' then fa\<lparr>data := FMTDATA_ESC\<rparr>
      else fa)"

definition read_format :: "bytes \<Rightarrow> u64 \<Rightarrow> format_arg_info \<Rightarrow> (u64 \<times> format_arg_info) option" where
  "read_format m format fa = do {
     let format = format + 1;
     (format, c, fa) \<leftarrow> flag_loop m (format + 1) (m format) fa;
     let (format, c, fa) =
       (if chr_in ''lhztjL'' c
        then let (format, fa) = set_size m format c fa in (format + 1, m format, fa)
        else (format, c, fa));
     let fa = fa\<lparr>upper_digits := False, fbase := 10\<rparr>;
     Some (format, set_conv c fa) }"

subsection \<open>Arguments and integers\<close>

definition next_arg :: "u64 list \<Rightarrow> (u64 \<times> u64 list) option" where
  "next_arg argv = (case argv of [] \<Rightarrow> None | a # as \<Rightarrow> Some (a, as))"

definition arg_int :: "u64 \<Rightarrow> u64" where
  "arg_int a = scast (ucast a :: 32 word)"

definition isnegative :: "u64 \<Rightarrow> int \<Rightarrow> bool" where
  "isnegative i sz \<longleftrightarrow> \<not> (i XOR scast (push_bit (nat ((sz * 8 - 1) mod 32)) (1 :: 32 word)) \<noteq> 0)"

definition read_value :: "u64 \<Rightarrow> format_arg_info \<Rightarrow> u64 list \<Rightarrow> (u64 \<times> u64 list) option" where
  "read_value junk fa argv =
     (if szt fa \<or> ptd fa then next_arg argv
      else if fsize fa = 1 then do { (a, as) \<leftarrow> next_arg argv; Some (arg_int a AND 0xFF, as) }
      else if fsize fa = 2 then do { (a, as) \<leftarrow> next_arg argv; Some (arg_int a AND 0xFFFF, as) }
      else if fsize fa = 4 then do { (a, as) \<leftarrow> next_arg argv; Some (arg_int a, as) }
      else if fsize fa = 8 \<or> fsize fa = 16 then next_arg argv
      else Some (junk, argv))"

definition digit_char :: "bool \<Rightarrow> u64 \<Rightarrow> u8" where
  "digit_char upper d = chars (if upper then ''0123456789ABCDEF'' else ''0123456789abcdef'') ! unat d"

text \<open>\<open>rv\<close> is the part of \<^verbatim>\<open>revint\<close> that is filled; the code tests that it is not full.\<close>

function digit_loop :: "u64 \<Rightarrow> u64 \<Rightarrow> bool \<Rightarrow> u8 list \<Rightarrow> u8 list" where
  "digit_loop val b upper rv =
     (if val > 0 \<and> length rv < 256
      then digit_loop (val div b) b upper (rv @ [digit_char upper (val mod b)])
      else rv)"
  by auto
termination by (relation "measure (\<lambda>(val, b, upper, rv). 256 - length rv)") auto

declare digit_loop.simps [simp del]

text \<open>\<^verbatim>\<open>*dest++ = b\<close> for every byte \<open>b\<close> of a list.\<close>

primrec put_bytes :: "u8 list \<Rightarrow> bytes \<times> u64 \<Rightarrow> bytes \<times> u64" where
  "put_bytes [] md = md"
| "put_bytes (b # bs) md = (case md of (m, dest) \<Rightarrow> put_bytes bs (m(dest := b), dest + 1))"

text \<open>What \<^verbatim>\<open>write_int\<close> writes before the digits: the prefix, the padding and the sign.\<close>

definition int_lead :: "format_arg_info \<Rightarrow> bool \<Rightarrow> int \<Rightarrow> u8 list" where
  "int_lead fa negative nwrote =
     (let npadchrs = max 0 (width fa - nwrote);
          hex = alternate_form fa \<and> fbase fa = 16;
          npadchrs = (if hex then npadchrs - 2 else npadchrs);
          fill = replicate (nat (npadchrs - 1)) (pad fa);
          npadchrs = (if npadchrs > 1 then 1 else npadchrs);
          sign = (if npadchrs \<noteq> 0 \<and> write_signed fa
                  then [if negative then ch CHR ''-''
                        else if sign_pad fa = ch CHR '' '' then ch CHR '' ''
                        else if sign_pad fa = ch CHR ''+'' then ch CHR ''+''
                        else pad fa]
                  else [])
      in (if hex then chars ''0x'' else []) @ fill @ sign)"

definition write_int ::
  "u64 \<Rightarrow> bytes \<Rightarrow> u64 \<Rightarrow> format_arg_info \<Rightarrow> u64 list \<Rightarrow> (bytes \<times> u64 \<times> u64 list) option" where
  "write_int junk m dest fa argv = do {
     (val, argv) \<leftarrow> read_value junk fa argv;
     let negative = (write_signed fa \<and> isnegative val (fsize fa));
     let revint = (if val \<noteq> 0 then digit_loop val (fbase fa) (upper_digits fa) [] else [ch CHR ''0'']);
     let (m, dest) =
       (if align fa = FMTALGN_LEFT
        then put_bytes (int_lead fa negative (int (length revint)) @ rev revint) (m, dest)
        else (m, dest));
     Some (m, dest, argv) }"

definition write_format ::
  "u64 \<Rightarrow> bytes \<Rightarrow> u64 \<Rightarrow> format_arg_info \<Rightarrow> u64 list \<Rightarrow> (bytes \<times> u64 \<times> u64 list) option" where
  "write_format junk m dest fa argv =
     (case data fa of
        FMTDATA_INT \<Rightarrow> write_int junk m dest fa argv
      | FMTDATA_CHR \<Rightarrow> do { (c, argv) \<leftarrow> next_arg argv; Some (m(dest := ucast c), dest + 1, argv) }
      | FMTDATA_STR \<Rightarrow> do {
          (str, argv) \<leftarrow> next_arg argv;
          len \<leftarrow> strlen m str;
          let (m, _) = memcpy m dest str len;
          Some (m, dest + len, argv) }
      | FMTDATA_FLT \<Rightarrow> Some (m, dest, argv)
      | FMTDATA_ESC \<Rightarrow> Some (m(dest := ch CHR ''%''), dest + 1, argv))"

subsection \<open>The format loop\<close>

partial_function (option) format_loop ::
  "u64 \<Rightarrow> bytes \<Rightarrow> u64 \<Rightarrow> u64 \<Rightarrow> u64 \<Rightarrow> format_arg_info \<Rightarrow> u64 list \<Rightarrow> u32
     \<Rightarrow> (bytes \<times> u64 \<times> u64 \<times> u32) option" where
  "format_loop junk m dest fmt_start fmt_end farg argv argc =
     (if fmt_end \<noteq> 0
      then do {
        let off = fmt_end - fmt_start;
        let (m, _) = memcpy m dest fmt_start off;
        let dest = dest + off;
        (fmt_start, farg) \<leftarrow> read_format m fmt_end (fmt_defaults farg);
        (m, dest, argv) \<leftarrow> write_format junk m dest farg argv;
        fmt_end \<leftarrow> strchr m fmt_start 0x25;
        format_loop junk m dest fmt_start fmt_end farg argv (argc + 1) }
      else Some (m, dest, fmt_start, argc))"

definition vsprintf ::
  "u64 \<Rightarrow> format_arg_info \<Rightarrow> bytes \<Rightarrow> u64 \<Rightarrow> u64 \<Rightarrow> u64 list \<Rightarrow> (u32 \<times> bytes) option" where
  "vsprintf junk farg m dest format argv = do {
     fmt_end \<leftarrow> strchr m format 0x25;
     (m, dest, fmt_start, argc) \<leftarrow> format_loop junk m dest format fmt_end farg argv 0;
     end \<leftarrow> strlen m fmt_start;
     let (m, _) = memcpy m dest fmt_start end;
     Some (argc, m(dest + end := 0)) }"

text \<open>\<^verbatim>\<open>sprintf\<close> collects its arguments into a list; \<open>gbuf\<close> is the static buffer of \<^verbatim>\<open>vprintf\<close>.\<close>

definition sprintf ::
  "u64 \<Rightarrow> format_arg_info \<Rightarrow> bytes \<Rightarrow> u64 \<Rightarrow> u64 \<Rightarrow> u64 list \<Rightarrow> (u32 \<times> bytes) option" where
  "sprintf junk farg m dest format argv = vsprintf junk farg m dest format argv"

definition vprintf ::
  "u64 \<Rightarrow> u64 \<Rightarrow> format_arg_info \<Rightarrow> bytes \<Rightarrow> u64 \<Rightarrow> u64 list \<Rightarrow> console \<Rightarrow> (u32 \<times> bytes \<times> console) option" where
  "vprintf gbuf junk farg m format argv c = do {
     (argc, m) \<leftarrow> vsprintf junk farg m gbuf format argv;
     len \<leftarrow> strlen m gbuf;
     let (_, c) = write_console m gbuf len c;
     Some (argc, m, c) }"

definition printf ::
  "u64 \<Rightarrow> u64 \<Rightarrow> format_arg_info \<Rightarrow> bytes \<Rightarrow> u64 \<Rightarrow> u64 list \<Rightarrow> console \<Rightarrow> (u32 \<times> bytes \<times> console) option" where
  "printf gbuf junk farg m format argv c = vprintf gbuf junk farg m format argv c"

subsection \<open>Numbers and text\<close>

definition digit_val :: "u8 \<Rightarrow> nat" where
  "digit_val c = unat (if c \<le> 0x39 then c - 0x30 else if c \<le> 0x46 then c - 0x37 else c - 0x57)"

definition numeral_value :: "nat \<Rightarrow> u8 list \<Rightarrow> nat" where
  "numeral_value b cs = foldl (\<lambda>a c. a * b + digit_val c) 0 cs"

lemma numeral_value_snoc [simp]: "numeral_value b (cs @ [c]) = numeral_value b cs * b + digit_val c"
  by (simp add: numeral_value_def)

lemma numeral_value_Nil [simp]: "numeral_value b [] = 0"
  by (simp add: numeral_value_def)

lemma digits_char: "n < 16 \<Longrightarrow>
  digit_val (chars (if upper then ''0123456789ABCDEF'' else ''0123456789abcdef'') ! n) = n \<and>
  chars (if upper then ''0123456789ABCDEF'' else ''0123456789abcdef'') ! n \<noteq> 0"
  by (cases upper; simp add: eval_nat_numeral less_Suc_eq; elim disjE)
    (simp_all add: chars_def digit_val_def of_char_def)

lemma digit_val_char: "unat d < 16 \<Longrightarrow> digit_val (digit_char upper d) = unat d"
  unfolding digit_char_def using digits_char by blast

lemma digit_char_nonzero: "unat d < 16 \<Longrightarrow> digit_char upper d \<noteq> 0"
  unfolding digit_char_def using digits_char by blast

text \<open>The number of digits.\<close>

lemma digit_loop_spec:
  "2 \<le> unat b \<Longrightarrow> unat b \<le> 16 \<Longrightarrow> unat v < 2 ^ n \<Longrightarrow> length rv + n < 256 \<Longrightarrow>
   \<exists>ds. digit_loop v b upper rv = rv @ ds \<and> numeral_value (unat b) (rev ds) = unat v \<and> length ds \<le> n \<and>
     (\<forall>c \<in> set ds. c \<noteq> 0) \<and> (v \<noteq> 0 \<longrightarrow> ds \<noteq> [])"
proof (induction n arbitrary: v rv)
  case 0
  then have "v = 0" by (simp add: unat_eq_zero)
  then show ?case by (simp add: digit_loop.simps)
next
  case (Suc n)
  show ?case
  proof (cases "v = 0")
    case True
    then show ?thesis by (simp add: digit_loop.simps)
  next
    case False
    let ?c = "digit_char upper (v mod b)"
    have "unat (v div b) \<le> unat v div 2"
      unfolding unat_div using Suc.prems(1) by (intro div_le_mono2) simp_all
    then have small: "unat (v div b) < 2 ^ n" using Suc.prems(3) by simp
    have md: "unat (v mod b) < 16"
      using Suc.prems(1,2) mod_less_divisor [of "unat b" "unat v"] unfolding unat_mod by linarith
    obtain ds where ds: "digit_loop (v div b) b upper (rv @ [?c]) = (rv @ [?c]) @ ds"
      "numeral_value (unat b) (rev ds) = unat (v div b)" "length ds \<le> n" "\<forall>c \<in> set ds. c \<noteq> 0"
      using Suc.IH [OF Suc.prems(1,2) small, of "rv @ [?c]"] Suc.prems(4) by auto
    have "digit_loop v b upper rv = rv @ (?c # ds)"
      using False Suc.prems(4) ds(1) by (subst digit_loop.simps) (simp add: word_gt_0)
    moreover have "numeral_value (unat b) (rev (?c # ds)) = unat v"
      using ds(2) digit_val_char [OF md] by (simp add: unat_div unat_mod)
    ultimately show ?thesis using ds(3,4) digit_char_nonzero [OF md]
      by (intro exI [of _ "?c # ds"]) auto
  qed
qed

lemma put_bytes_spec:
  "length bs < 2 ^ 64 \<Longrightarrow> put_bytes bs (m, d)
    = ((\<lambda>a. if in_region a d (length bs) then bs ! unat (a - d) else m a), d + of_nat (length bs))"
proof (induction bs arbitrary: m d)
  case Nil
  then show ?case by (simp add: in_region_def)
next
  case (Cons b bs)
  have "unat (a - d) = Suc (unat (a - (d + 1)))" if "a \<noteq> d" for a
    using that by (rule offset_Suc)
  moreover have "\<not> in_region d (d + 1) (length bs)"
    using Cons.prems by (simp add: in_region_def unsigned_minus_1_eq_mask mask_eq_exp_minus_1)
  ultimately have "(\<lambda>a. if in_region a (d + 1) (length bs) then bs ! unat (a - (d + 1)) else (m(d := b)) a)
      = (\<lambda>a. if in_region a d (length (b # bs)) then (b # bs) ! unat (a - d) else m a)"
    by (auto simp: fun_eq_iff in_region_def)
  then show ?case using Cons by (simp add: add.commute add.left_commute)
qed

lemma cstrI:
  "(\<forall>i < length cs. m (p + of_nat i) = cs ! i) \<Longrightarrow> m (p + of_nat (length cs)) = 0 \<Longrightarrow>
   (\<forall>c \<in> set cs. c \<noteq> 0) \<Longrightarrow> cstr m p cs"
proof (induction cs arbitrary: p)
  case Nil
  then show ?case by simp
next
  case (Cons c cs)
  have "m (p + 1 + of_nat i) = cs ! i" if "i < length cs" for i
    using Cons.prems(1) that by (auto dest!: spec [of _ "Suc i"] simp: add.assoc)
  then have "cstr m (p + 1) cs" using Cons.prems(2,3) by (intro Cons.IH) (simp_all add: add.assoc)
  then show ?case using Cons.prems(1,3) by auto
qed

text \<open>A region written with a string and its terminator.\<close>

lemma cstr_written:
  assumes "length cs < 2 ^ 64" "\<forall>c \<in> set cs. c \<noteq> 0"
  shows "cstr ((\<lambda>a. if in_region a d (length cs) then cs ! unat (a - d) else m a)(d + of_nat (length cs) := 0)) d cs"
proof (rule cstrI)
  have u: "unat (of_nat i :: u64) = i" if "i \<le> length cs" for i
    using that assms(1) by (intro unat_eq_of_nat) simp
  have ne: "of_nat i \<noteq> (of_nat (length cs) :: u64)" if "i < length cs" for i
    using u [of i] u [of "length cs"] that by auto
  show "\<forall>i<length cs. ((\<lambda>a. if in_region a d (length cs) then cs ! unat (a - d) else m a)
    (d + of_nat (length cs) := 0)) (d + of_nat i) = cs ! i"
    using u ne by (auto simp: in_region_def)
qed (use assms in auto)

lemma char_int_percent: "char_int 0x25 = 0x25"
  by (simp add: char_int_def)

text \<open>The conversions \<^verbatim>\<open>%lu\<close>, \<^verbatim>\<open>%lo\<close>, \<^verbatim>\<open>%lx\<close> and \<^verbatim>\<open>%lX\<close>.\<close>

definition conv_base :: "u8 \<Rightarrow> nat" where
  "conv_base c = (if c = ch CHR ''u'' then 10 else if c = ch CHR ''o'' then 8 else 16)"

lemma set_conv_unsigned:
  assumes "c \<in> set (chars ''uoxX'')" "fbase fa = 10" "fsize fa = 8"
  shows "data (set_conv c fa) = FMTDATA_INT \<and> fsize (set_conv c fa) = 8 \<and> width (set_conv c fa) = width fa \<and>
    align (set_conv c fa) = align fa \<and> alternate_form (set_conv c fa) = alternate_form fa \<and>
    \<not> write_signed (set_conv c fa) \<and> unat (fbase (set_conv c fa)) = conv_base c"
  using assms
  by (auto simp: chars_def ch_def of_char_def set_conv_def int_defaults_def conv_base_def Let_def)

lemma read_format_long:
  assumes "c \<in> set (chars ''uoxX'')" "m (p + 1) = ch CHR ''l''" "m (p + 2) = c"
  shows "\<exists>fa. read_format m p (fmt_defaults farg) = Some (p + 3, fa) \<and> data fa = FMTDATA_INT \<and>
    fsize fa = 8 \<and> width fa = 1 \<and> align fa = FMTALGN_LEFT \<and> \<not> alternate_form fa \<and> \<not> write_signed fa \<and>
    unat (fbase fa) = conv_base c"
proof -
  let ?fa = "(fmt_defaults farg)\<lparr>fsize := 8, upper_digits := False, fbase := 10\<rparr>"
  have l: "ch CHR ''l'' = 0x6C" by (simp add: ch_def of_char_def)
  have fl: "flag_loop m (p + 2) (m (p + 1)) fa = Some (p + 2, ch CHR ''l'', fa)" for fa
    unfolding assms(2) by (subst flag_loop.simps) (simp add: chr_in_def chars_def ch_def of_char_def)
  have "c \<noteq> ch CHR ''l''" using assms(1) by (auto simp: chars_def ch_def of_char_def)
  then have sz: "set_size m (p + 2) (ch CHR ''l'') fa = (p + 2, fa\<lparr>fsize := 8\<rparr>)" for fa
    using assms(3) by (simp add: set_size_def)
  have "chr_in ''lhztjL'' (ch CHR ''l'')" by (simp add: chr_in_def chars_def ch_def)
  then have "read_format m p (fmt_defaults farg) = Some (p + 3, set_conv c ?fa)"
    using fl sz assms(3) by (simp add: read_format_def Let_def add.assoc)
  then show ?thesis
    using set_conv_unsigned [OF assms(1), of ?fa] by (simp add: fmt_defaults_def)
qed

lemma read_value_long: "fsize fa = 8 \<Longrightarrow> read_value junk fa (a # as) = Some (a, as)"
  by (simp add: read_value_def next_arg_def)

lemma int_lead_none:
  "width fa = 1 \<Longrightarrow> \<not> alternate_form fa \<Longrightarrow> 1 \<le> n \<Longrightarrow> int_lead fa negative n = []"
  by (simp add: int_lead_def Let_def)

definition shown :: "u64 \<Rightarrow> u64 \<Rightarrow> bool \<Rightarrow> u8 list" where
  "shown val b upper = rev (if val \<noteq> 0 then digit_loop val b upper [] else [ch CHR ''0''])"

lemma shown_spec:
  assumes "2 \<le> unat b" "unat b \<le> 16"
  shows "numeral_value (unat b) (shown v b upper) = unat v" "shown v b upper \<noteq> []"
    "length (shown v b upper) \<le> 64" "\<forall>c \<in> set (shown v b upper). c \<noteq> 0"
proof -
  have "unat v < 2 ^ 64" using unat_less_2p [of v] by simp
  from digit_loop_spec [OF assms this, of "[]" upper] obtain ds where
    "digit_loop v b upper [] = ds" "numeral_value (unat b) (rev ds) = unat v" "length ds \<le> 64"
    "\<forall>c \<in> set ds. c \<noteq> 0" "v \<noteq> 0 \<longrightarrow> ds \<noteq> []"
    by auto
  moreover have "digit_val (ch CHR ''0'') = 0" "ch CHR ''0'' \<noteq> 0"
    by (simp_all add: digit_val_def ch_def of_char_def)
  ultimately show "numeral_value (unat b) (shown v b upper) = unat v" "shown v b upper \<noteq> []"
    "length (shown v b upper) \<le> 64" "\<forall>c \<in> set (shown v b upper). c \<noteq> 0"
    by (auto simp: shown_def numeral_value_def)
qed

text \<open>\<^verbatim>\<open>write_int\<close> of a format without flags and width.\<close>

lemma write_int_plain:
  assumes "read_value junk fa argv = Some (v, argv')" "width fa = 1" "\<not> alternate_form fa"
    "2 \<le> unat (fbase fa)" "unat (fbase fa) \<le> 16" "align fa = FMTALGN_LEFT"
  shows "write_int junk m d fa argv
    = Some (\<lambda>a. if in_region a d (length (shown v (fbase fa) (upper_digits fa)))
                then shown v (fbase fa) (upper_digits fa) ! unat (a - d) else m a,
            d + of_nat (length (shown v (fbase fa) (upper_digits fa))), argv')"
proof -
  let ?r = "if v \<noteq> 0 then digit_loop v (fbase fa) (upper_digits fa) [] else [ch CHR ''0'']"
  note s = shown_spec [OF assms(4,5), of v "upper_digits fa"]
  have r: "rev ?r = shown v (fbase fa) (upper_digits fa)" by (simp add: shown_def)
  have "1 \<le> int (length ?r)" using s(2) r by (metis int_one_le_iff_zero_less length_greater_0_conv rev_is_Nil_conv of_nat_0_less_iff)
  then have lead: "int_lead fa n (int (length ?r)) = []" for n using int_lead_none assms(2,3) by blast
  have "length (shown v (fbase fa) (upper_digits fa)) < 2 ^ 64" using s(3) by simp
  then show ?thesis
    using assms(1,6) lead put_bytes_spec unfolding write_int_def Let_def r [symmetric] by simp
qed

lemma memcpy_0 [simp]: "memcpy m d s 0 = (m, d)"
  by (simp add: memcpy_def memcpy_loop.simps)

lemma format_loop_step:
  "fmt_end \<noteq> 0 \<Longrightarrow> format_loop junk m dest fmt_start fmt_end farg argv argc = do {
        let off = fmt_end - fmt_start;
        let (m, _) = memcpy m dest fmt_start off;
        let dest = dest + off;
        (fmt_start, farg) \<leftarrow> read_format m fmt_end (fmt_defaults farg);
        (m, dest, argv) \<leftarrow> write_format junk m dest farg argv;
        fmt_end \<leftarrow> strchr m fmt_start 0x25;
        format_loop junk m dest fmt_start fmt_end farg argv (argc + 1) }"
  by (subst format_loop.simps) simp

lemma format_loop_stop: "format_loop junk m dest fmt_start 0 farg argv argc = Some (m, dest, fmt_start, argc)"
  by (subst format_loop.simps) simp

text \<open>A format that is a single integer conversion without flags and width.\<close>

lemma vsprintf_one_int:
  assumes start: "strchr m fmt 0x25 = Some fmt" "fmt \<noteq> 0"
    and fa: "read_format m fmt (fmt_defaults farg) = Some (rest, fa)" "data fa = FMTDATA_INT"
      "width fa = 1" "align fa = FMTALGN_LEFT" "\<not> alternate_form fa"
    and b: "2 \<le> unat (fbase fa)" "unat (fbase fa) \<le> 16"
    and arg: "read_value junk fa argv = Some (v, argv')"
    and rest: "m rest = 0" "\<not> in_region rest dest 65"
  shows "\<exists>m' cs. vsprintf junk farg m dest fmt argv = Some (1, m') \<and> cstr m' dest cs \<and>
    numeral_value (unat (fbase fa)) cs = unat v \<and> (\<forall>x. \<not> in_region x dest 65 \<longrightarrow> m' x = m x)"
proof -
  define cs where "cs = shown v (fbase fa) (upper_digits fa)"
  note cs = shown_spec [OF b, of v "upper_digits fa", folded cs_def]
  define m1 where "m1 = (\<lambda>x. if in_region x dest (length cs) then cs ! unat (x - dest) else m x)"
  have w: "write_int junk m dest fa argv = Some (m1, dest + of_nat (length cs), argv')"
    unfolding m1_def cs_def by (rule write_int_plain [OF arg fa(3,5) b fa(4)])
  have m1: "m1 rest = 0" using cs(3) rest by (auto simp: m1_def in_region_def)
  then have z: "strchr m1 rest 0x25 = Some 0" "strlen m1 rest = Some 0"
    using strchr_cstr [of m1 rest "[]" "0x25"] strlen_cstr [of m1 rest "[]"] by (simp_all add: char_int_percent)
  define m2 where "m2 = m1(dest + of_nat (length cs) := 0)"
  have "vsprintf junk farg m dest fmt argv = Some (1, m2)"
    using start fa(1,2) w z
    by (simp add: vsprintf_def format_loop_step format_loop_stop write_format_def m2_def)
  moreover have "cstr m2 dest cs"
    unfolding m2_def m1_def using cs(3,4) by (intro cstr_written) simp_all
  moreover have "m2 x = m x" if "\<not> in_region x dest 65" for x
  proof -
    have "unat (of_nat (length cs) :: u64) < 65" using cs(3) by (simp add: unat_of_nat)
    then have "in_region (dest + of_nat (length cs)) dest 65" by (simp add: in_region_def)
    then show ?thesis using that cs(3) by (auto simp: m2_def m1_def in_region_def)
  qed
  ultimately show ?thesis using cs(1) by auto
qed

lemma strchr_here: "cstr m p (0x25 # cs) \<Longrightarrow> strchr m p 0x25 = Some p"
  using strchr_cstr [of m p "0x25 # cs" "0x25"] by (simp add: char_int_percent)

text \<open>C17: \<^verbatim>\<open>vsprintf\<close> with one of the formats \<^verbatim>\<open>%lu\<close>, \<^verbatim>\<open>%lo\<close>, \<^verbatim>\<open>%lx\<close>, \<^verbatim>\<open>%lX\<close> writes a
  terminated string whose value as a numeral in the base of the conversion is the argument,
  for every argument, whatever the parts of the descriptor hold that are never set.\<close>

theorem vsprintf_numeral_round_trip:
  assumes "cstr m fmt [0x25, ch CHR ''l'', c]" "c \<in> set (chars ''uoxX'')" "fmt \<noteq> 0"
    and apart: "\<forall>a. in_region a dest 65 \<longrightarrow> \<not> in_region a fmt 4"
  shows "\<exists>m' cs. vsprintf junk farg m dest fmt (a # as) = Some (1, m') \<and> cstr m' dest cs \<and>
    numeral_value (conv_base c) cs = unat a \<and> (\<forall>x. \<not> in_region x dest 65 \<longrightarrow> m' x = m x)"
proof -
  have m: "m (fmt + 1) = ch CHR ''l''" "m (fmt + 2) = c" "m (fmt + 3) = 0"
    using assms(1) by (simp_all add: add.assoc)
  obtain fa where fa: "read_format m fmt (fmt_defaults farg) = Some (fmt + 3, fa)" "data fa = FMTDATA_INT"
    "fsize fa = 8" "width fa = 1" "align fa = FMTALGN_LEFT" "\<not> alternate_form fa" "unat (fbase fa) = conv_base c"
    using read_format_long [OF assms(2) m(1,2)] by blast
  have b: "2 \<le> unat (fbase fa)" "unat (fbase fa) \<le> 16" unfolding fa(7) by (simp_all add: conv_base_def)
  have "in_region (fmt + 3) fmt 4" by (simp add: in_region_def)
  then have "\<not> in_region (fmt + 3) dest 65" using apart by blast
  from vsprintf_one_int [OF strchr_here [OF assms(1)] assms(3) fa(1,2,4-6) b read_value_long [OF fa(3)] m(3) this]
  show ?thesis unfolding fa(7) .
qed

definition lu_mem :: bytes where
  "lu_mem = (\<lambda>a. if a = 16 then 0x25 else if a = 17 then 0x6C else if a = 18 then 0x75 else 0)"

definition no_farg :: format_arg_info where
  "no_farg = \<lparr>width = 0, precision = 0, pad = 0, alternate_form = False, align = FMTALGN_LEFT, data = FMTDATA_INT,
     fsize = 0, fbase = 0, sign_pad = 0, szt = False, ptd = False, write_signed = False, upper_digits = False\<rparr>"

theorem vsprintf_numeral_round_trip_witness:
  "\<exists>m' cs. vsprintf 7 no_farg lu_mem 100 16 [2020] = Some (1, m') \<and> cstr m' 100 cs \<and>
    numeral_value (conv_base 0x75) cs = unat (2020 :: u64) \<and> (\<forall>x. \<not> in_region x 100 65 \<longrightarrow> m' x = lu_mem x)"
proof (rule vsprintf_numeral_round_trip)
  show "\<forall>a. in_region a 100 65 \<longrightarrow> \<not> in_region a 16 4"
    using regions_apart [where p = 16 and n = 4 and q = 100 and k = 65] by simp
qed (simp_all add: lu_mem_def ch_def chars_def of_char_def)

text \<open>The conversion \<^verbatim>\<open>%i\<close>.\<close>

lemma read_format_i:
  assumes "m (p + 1) = ch CHR ''i''"
  shows "\<exists>fa. read_format m p (fmt_defaults farg) = Some (p + 2, fa) \<and> data fa = FMTDATA_INT \<and>
    fsize fa = 4 \<and> width fa = 1 \<and> align fa = FMTALGN_LEFT \<and> \<not> alternate_form fa \<and> fbase fa = 10 \<and>
    szt fa = szt farg \<and> ptd fa = ptd farg"
proof -
  have "flag_loop m (p + 2) (m (p + 1)) fa = Some (p + 2, ch CHR ''i'', fa)" for fa
    unfolding assms by (subst flag_loop.simps) (simp add: chr_in_def chars_def ch_def of_char_def)
  moreover have "\<not> chr_in ''lhztjL'' (ch CHR ''i'')" by (simp add: chr_in_def chars_def ch_def of_char_def)
  ultimately show ?thesis
    by (simp add: read_format_def Let_def add.assoc set_conv_def chars_def ch_def of_char_def int_defaults_def
        fmt_defaults_def)
qed

lemma read_value_int:
  "fsize fa = 4 \<Longrightarrow> \<not> szt fa \<Longrightarrow> \<not> ptd fa \<Longrightarrow> read_value junk fa (a # as) = Some (arg_int a, as)"
  by (simp add: read_value_def next_arg_def)

lemma unat_arg_int: "int (unat (arg_int a)) = sint (ucast a :: u32) mod 2 ^ 64"
proof -
  have "uint (word_of_int k :: u64) = k mod 2 ^ 64" for k
    using uint_word_of_int [where 'a = 64, of k] by simp
  then show ?thesis unfolding arg_int_def scast_eq by (metis int_nat_eq uint_ge_0 unat_eq_nat_uint)
qed

text \<open>\<^verbatim>\<open>vsprintf\<close> with the format \<^verbatim>\<open>%i\<close> shows a negative \<^verbatim>\<open>int\<close> as the unsigned 64-bit
  number with the same bits, without a sign: -1 becomes 18446744073709551615.\<close>

theorem vsprintf_signed_wraps:
  assumes "cstr m fmt [0x25, ch CHR ''i'']" "fmt \<noteq> 0" "\<not> szt farg" "\<not> ptd farg"
    and apart: "\<forall>a. in_region a dest 65 \<longrightarrow> \<not> in_region a fmt 3"
  shows "\<exists>m' cs. vsprintf junk farg m dest fmt (a # as) = Some (1, m') \<and> cstr m' dest cs \<and>
    int (numeral_value 10 cs) = sint (ucast a :: u32) mod 2 ^ 64"
proof -
  have m: "m (fmt + 1) = ch CHR ''i''" "m (fmt + 2) = 0"
    using assms(1) by (simp_all add: add.assoc)
  obtain fa where fa: "read_format m fmt (fmt_defaults farg) = Some (fmt + 2, fa)" "data fa = FMTDATA_INT"
    "fsize fa = 4" "width fa = 1" "align fa = FMTALGN_LEFT" "\<not> alternate_form fa" "fbase fa = 10"
    "\<not> szt fa" "\<not> ptd fa"
    using read_format_i [of m fmt farg] m(1) assms(3,4) by auto
  have b: "2 \<le> unat (fbase fa)" "unat (fbase fa) \<le> 16" "unat (fbase fa) = 10" unfolding fa(7) by simp_all
  have "in_region (fmt + 2) fmt 3" by (simp add: in_region_def)
  then have "\<not> in_region (fmt + 2) dest 65" using apart by blast
  from vsprintf_one_int [OF strchr_here [OF assms(1)] assms(2) fa(1,2,4-6) b(1,2)
      read_value_int [OF fa(3,8,9), where junk = junk and a = a and as = as] m(2) this]
  show ?thesis unfolding b(3) using unat_arg_int [of a] by metis
qed

definition i_mem :: bytes where
  "i_mem = (\<lambda>a. if a = 16 then 0x25 else if a = 17 then 0x69 else 0)"

theorem vsprintf_signed_wraps_witness:
  "\<exists>m' cs. vsprintf 7 no_farg i_mem 100 16 [- 1] = Some (1, m') \<and> cstr m' 100 cs \<and>
    int (numeral_value 10 cs) = sint (ucast (- 1 :: u64) :: u32) mod 2 ^ 64"
proof (rule vsprintf_signed_wraps)
  show "\<forall>a. in_region a 100 65 \<longrightarrow> \<not> in_region a 16 3"
    using regions_apart [where p = 16 and n = 3 and q = 100 and k = 65] by simp
qed (simp_all add: i_mem_def no_farg_def ch_def of_char_def)

text \<open>A flag \<^verbatim>\<open>0\<close> or \<^verbatim>\<open>-\<close> turns the alignment to the right, whatever the other flags, and a
  right aligned integer is not written at all: the argument is used up and nothing is shown.\<close>

theorem aligned_right_shows_nothing:
  "align (set_flag (ch CHR ''0'') fa) = FMTALGN_RIGHT \<and> align (set_flag (ch CHR ''-'') fa) = FMTALGN_RIGHT \<and>
   write_int junk m d (fa\<lparr>align := FMTALGN_RIGHT\<rparr>) argv
     = map_option (\<lambda>(v, as). (m, d, as)) (read_value junk fa argv)"
  by (auto simp: set_flag_def ch_def of_char_def write_int_def read_value_def Let_def next_arg_def
      split: option.splits list.splits)

end
