(* ===== verification/Pci.thy ===== *)
theory Pci
  imports Pml4 Xprintf
begin

unbundle bit_operations_syntax

section \<open>The PCI bus (io/pci.c)\<close>

text \<open>
  Model of \<^verbatim>\<open>kern/lib/io/pci.c\<close>.  The firmware tables are read from the byte memory at the
  offsets of the packed structures; \<open>port\<close> is the configuration space behind the ports
  \<^verbatim>\<open>0xCF8\<close> and \<^verbatim>\<open>0xCFC\<close>: the word the hardware answers to an address.  String literals and the
  local array of \<^verbatim>\<open>find_sdt\<close> are named by their addresses (\<open>lit\<close>, \<open>nb\<close>, \<open>fmt\<close>).  The devices are
  typed objects beside the byte memory, and the list element of a device is named by the
  device's address.  The recursion from bus to bus carries a fuel, spent once for
  each bus; \<open>beyond\<close> is what a call does for which none is left, so that running out of fuel is told
  apart from a fault, which is \<open>None\<close>.
\<close>

subsection \<open>State\<close>

record pci_device =
  dclass :: u32
  dsubclass :: u32
  progif :: u32
  dev_id :: u32
  buses :: "nat \<Rightarrow> u32"
  config :: u64
  bridge :: u64
  devstr :: u64

definition zero_device :: pci_device where
  "zero_device = \<lparr>dclass = 0, dsubclass = 0, progif = 0, dev_id = 0, buses = (\<lambda>_. 0), config = 0, bridge = 0, devstr = 0\<rparr>"

record pci = vm +
  devices :: "u64 \<Rightarrow> pci_device"
  device_table :: "(u32, u64) lheap"
  cfg_table :: u64

definition PCI_DEVICE_SIZE :: size_t where "PCI_DEVICE_SIZE = 88"
definition PCI_DEVSTRMAX :: size_t where "PCI_DEVSTRMAX = 128"
definition PCI_DCLASS_UNCLASSIFIED :: u32 where "PCI_DCLASS_UNCLASSIFIED = 0"
definition PCI_DCLASS_BRIDGE :: u32 where "PCI_DCLASS_BRIDGE = 6"
definition PCI_DCLASS_UNASSIGNED :: u32 where "PCI_DCLASS_UNASSIGNED = 0xFF"
definition PCI_MAX_DEVICES :: nat where "PCI_MAX_DEVICES = 32"
definition PCI_MAX_FUNCTIONS :: nat where "PCI_MAX_FUNCTIONS = 8"
definition PCI_HEADER_MULTIFN :: u32 where "PCI_HEADER_MULTIFN = push_bit 7 1"
definition RSDP_SIZE :: size_t where "RSDP_SIZE = 36"
definition SDT_HEADER_SIZE :: size_t where "SDT_HEADER_SIZE = 36"
definition MCFG_SIZE :: size_t where "MCFG_SIZE = 44"
definition CFG_SIZE :: size_t where "CFG_SIZE = 16"

subsection \<open>Configuration space\<close>

definition pci_config_word :: "(u32 \<Rightarrow> u32) \<Rightarrow> bytes \<Rightarrow> u64 \<Rightarrow> u8 \<Rightarrow> u8 \<Rightarrow> u8 \<Rightarrow> u8 \<Rightarrow> u16" where
  "pci_config_word port m cfg bus device func ofs =
     (let lbus = ucast bus :: u32; ldev = ucast device :: u32; lfunc = ucast func :: u32
      in if cfg \<noteq> 0
         then (let cfgwordptr = load64 m cfg + ucast (push_bit 20 (lbus - ucast (m (cfg + 10)))
                     OR push_bit 15 ldev OR push_bit 12 lfunc)
               in load16 m (cfgwordptr + 2 * ucast ofs))
         else (let addr = push_bit 16 lbus OR push_bit 11 ldev OR push_bit 8 lfunc
                     OR (ucast ofs * 2 AND 0xFC) OR 0x80000000;
                   val = port addr
               in ucast (drop_bit (unat (ofs AND 1) * 16) val AND 0xFFFF)))"

text \<open>The callers pass their \<^verbatim>\<open>int\<close> arguments, of which the low byte arrives.\<close>

definition config_word :: "(u32 \<Rightarrow> u32) \<Rightarrow> pci \<Rightarrow> u64 \<Rightarrow> u32 \<Rightarrow> u32 \<Rightarrow> u32 \<Rightarrow> u8 \<Rightarrow> u32" where
  "config_word port s cfg bus dev func ofs =
     ucast (pci_config_word port (mem s) cfg (ucast bus) (ucast dev) (ucast func) ofs)"

subsection \<open>Devices\<close>

definition upd_device :: "u64 \<Rightarrow> (pci_device \<Rightarrow> pci_device) \<Rightarrow> pci \<Rightarrow> pci" where
  "upd_device d f s = s\<lparr>devices := (devices s)(d := f (devices s d))\<rparr>"

definition pci_alloc :: "u64 \<Rightarrow> size_t \<Rightarrow> size_t \<Rightarrow> pci \<Rightarrow> (u64 \<times> pci) option" where
  "pci_alloc junk nmemb sz s = do {
     (b, v) \<leftarrow> vm_alloc junk nmemb sz (vm.truncate s);
     Some (b, vm.extend v (vm.more s)) }"

text \<open>\<^verbatim>\<open>kcalloc(1, sizeof *dev)\<close>; the first field written through a null result faults.\<close>

definition new_device :: "u64 \<Rightarrow> pci \<Rightarrow> (u64 \<times> pci) option" where
  "new_device junk s = do {
     (d, s) \<leftarrow> pci_alloc junk 1 PCI_DEVICE_SIZE s;
     if d = 0 then None else Some (d, upd_device d (\<lambda>_. zero_device) s) }"

definition get_device_string :: "u64 \<Rightarrow> u64 \<Rightarrow> format_arg_info \<Rightarrow> u64 \<Rightarrow> u64 \<Rightarrow> pci \<Rightarrow> (u64 \<times> pci) option" where
  "get_device_string junk wjunk farg fmt dev s = do {
     let d = devices s dev;
     (dstrbuf, s) \<leftarrow> pci_alloc junk PCI_DEVSTRMAX 1 s;
     _ \<leftarrow> (if dstrbuf = 0 then None else Some ());
     (_, m) \<leftarrow> sprintf wjunk farg (mem s) dstrbuf fmt
        [ucast (dev_id d), (if bridge d \<noteq> 0 then ucast (dev_id (devices s (bridge d))) else ucast (- 1 :: u32)),
         ucast (dclass d), ucast (dsubclass d), ucast (progif d)];
     Some (dstrbuf, s\<lparr>mem := m\<rparr>) }"

text \<open>What the drivers' environment fixes: the ports, the address of the format and the unset variables;
  and what a scan of a bus does at a depth for which there is no fuel.\<close>

record pci_env =
  port :: "u32 \<Rightarrow> u32"
  fmt :: u64
  junk :: u64
  wjunk :: u64
  farg :: format_arg_info
  beyond :: "u64 \<Rightarrow> u32 \<Rightarrow> pci \<Rightarrow> pci option"

definition init_pci_dev :: "pci_env \<Rightarrow> u64 \<Rightarrow> u64 \<Rightarrow> u32 \<Rightarrow> u32 \<Rightarrow> u64 \<Rightarrow> pci \<Rightarrow> pci option" where
  "init_pci_dev env pdev cfg bus dev br s = do {
     let classdata = config_word (port env) s cfg bus dev 0 5;
     let s = upd_device pdev (\<lambda>d. d\<lparr>config := cfg\<rparr>) s;
     let s = upd_device pdev (\<lambda>d. d\<lparr>dclass := getbyte classdata 1\<rparr>) s;
     let s = upd_device pdev (\<lambda>d. d\<lparr>dsubclass := getbyte classdata 0\<rparr>) s;
     let s = upd_device pdev (\<lambda>d. d\<lparr>progif := getbyte (config_word (port env) s cfg bus dev 0 4) 1\<rparr>) s;
     let s = upd_device pdev (\<lambda>d. d\<lparr>dev_id := config_word (port env) s cfg bus dev 0 1\<rparr>) s;
     let s = upd_device pdev (\<lambda>d. d\<lparr>buses := (buses d)(0 := bus)\<rparr>) s;
     let s = upd_device pdev (\<lambda>d. d\<lparr>bridge := br\<rparr>) s;
     (str, s) \<leftarrow> get_device_string (junk env) (wjunk env) (farg env) (fmt env) pdev s;
     let s = upd_device pdev (\<lambda>d. d\<lparr>devstr := str\<rparr>) s;
     h \<leftarrow> list_push_back (device_table s) (dclass (devices s pdev)) (Elem pdev);
     Some (s\<lparr>device_table := h\<rparr>) }"

text \<open>\<^verbatim>\<open>init_pci\<close> initialises the list of the first class only; the others are zero.\<close>

definition pci_lists_init :: "pci \<Rightarrow> pci" where
  "pci_lists_init s =
     s\<lparr>device_table := foldl list_init (device_table s) (map of_nat [0..<Suc (unat PCI_DCLASS_UNCLASSIFIED)])\<rparr>"

subsection \<open>Enumeration\<close>

definition check_function ::
  "(u64 \<Rightarrow> u32 \<Rightarrow> pci \<Rightarrow> pci option) \<Rightarrow> pci_env \<Rightarrow> u64 \<Rightarrow> u64 \<Rightarrow> u32 \<Rightarrow> u32 \<Rightarrow> u32 \<Rightarrow> pci \<Rightarrow> pci option" where
  "check_function rec_bus env dev br bus device func s =
     (let cfg = config (devices s br);
          classdata = config_word (port env) s cfg bus device func 5;
          cls = getbyte classdata 1;
          sub = getbyte classdata 0
      in if cls = PCI_DCLASS_BRIDGE \<and> sub = 4
         then (let sndbus = getbyte (config_word (port env) s cfg bus device func 12) 1;
                   s = upd_device dev (\<lambda>d. d\<lparr>buses := (buses d)(unat func := sndbus)\<rparr>) s
               in rec_bus dev sndbus s)
         else Some s)"

definition check_device ::
  "(u64 \<Rightarrow> u32 \<Rightarrow> pci \<Rightarrow> pci option) \<Rightarrow> pci_env \<Rightarrow> u64 \<Rightarrow> u32 \<Rightarrow> u32 \<Rightarrow> pci \<Rightarrow> pci option" where
  "check_device rec_bus env br bus device s =
     (if config_word (port env) s (config (devices s br)) bus device 0 0 \<noteq> 0xFFFF
      then do {
        (dev, s) \<leftarrow> new_device (junk env) s;
        s \<leftarrow> init_pci_dev env dev (config (devices s br)) bus device br s;
        s \<leftarrow> check_function rec_bus env dev br bus device 0 s;
        let header_type = getbyte (config_word (port env) s (config (devices s br)) bus device 0 7) 0;
        if header_type AND PCI_HEADER_MULTIFN \<noteq> 0
        then ofold (\<lambda>func s.
               if config_word (port env) s (config (devices s br)) bus device (of_nat func) 0 \<noteq> 0xFFFF
               then check_function rec_bus env dev br bus device (of_nat func) s
               else Some s) [1..<PCI_MAX_FUNCTIONS] s
        else Some s }
      else Some s)"

primrec check_bus :: "nat \<Rightarrow> pci_env \<Rightarrow> u64 \<Rightarrow> u32 \<Rightarrow> pci \<Rightarrow> pci option" where
  "check_bus 0 env br bus s = beyond env br bus s"
| "check_bus (Suc n) env br bus s =
     ofold (\<lambda>dev s. check_device (check_bus n env) env br bus (of_nat dev) s) [0..<PCI_MAX_DEVICES] s"

text \<open>The loop over the functions of the host bridge stops at the first one that answers.\<close>

primrec root_functions :: "nat \<Rightarrow> pci_env \<Rightarrow> u64 \<Rightarrow> u64 \<Rightarrow> u32 \<Rightarrow> nat list \<Rightarrow> pci \<Rightarrow> pci option" where
  "root_functions n env dev cfg bus [] s = Some s"
| "root_functions n env dev cfg bus (func # funcs) s =
     (if config_word (port env) s cfg bus 0 (of_nat func) 0 \<noteq> 0xFFFF then Some s
      else do {
        s \<leftarrow> check_bus n env dev (of_nat func) s;
        root_functions n env dev cfg bus funcs s })"

definition PDEV_NO_CFG :: u32 where
  "PDEV_NO_CFG = - 1"

definition enumerate_device :: "nat \<Rightarrow> pci_env \<Rightarrow> u32 \<Rightarrow> pci \<Rightarrow> pci option" where
  "enumerate_device n env pdev s = do {
     let cfg = (if pdev = PDEV_NO_CFG then 0 else cfg_table s + CFG_SIZE * scast pdev);
     let bus = (if cfg \<noteq> 0 then ucast (mem s (cfg + 10)) else 0);
     let header_type = getbyte (config_word (port env) s cfg bus 0 0 7) 0;
     (dev, s) \<leftarrow> new_device (junk env) s;
     s \<leftarrow> init_pci_dev env dev cfg bus 0 0 s;
     if header_type AND PCI_HEADER_MULTIFN = 0 then check_bus n env dev 0 s
     else root_functions n env dev cfg bus [0..<PCI_MAX_FUNCTIONS] s }"

subsection \<open>Firmware tables\<close>

partial_function (option) rsdp_loop :: "bytes \<Rightarrow> u64 \<Rightarrow> u64 \<Rightarrow> u64 option" where
  "rsdp_loop m lit ptr =
     (if ptr \<noteq> 0x000FFFFF
      then (if strncmp m ptr lit 8 = 0 then Some ptr else rsdp_loop m lit (ptr + 16))
      else Some ptr)"

definition find_rsdp :: "bytes \<Rightarrow> u64 \<Rightarrow> u64 option" where
  "find_rsdp m lit = do {
     ptr \<leftarrow> rsdp_loop m lit 0x000E0000;
     Some (if ptr = 0x000FFFFF then 0 else ptr) }"

function sdt_loop :: "bytes \<Rightarrow> u64 \<Rightarrow> u64 \<Rightarrow> size_t \<Rightarrow> size_t \<Rightarrow> u64" where
  "sdt_loop m nb tbl i len =
     (if i < len
      then (if strncmp m nb (tbl + SDT_HEADER_SIZE * i) 4 = 0 then tbl + SDT_HEADER_SIZE * i
            else sdt_loop m nb tbl (i + 1) len)
      else 0)"
  by pat_completeness auto
termination
  by (relation "measure (\<lambda>(m, nb, tbl, i, len). unat len - unat i)") (auto simp: unat_plus_one word_less_nat_alt)

declare sdt_loop.simps [simp del]

definition find_sdt :: "bytes \<Rightarrow> u64 \<Rightarrow> u64 \<Rightarrow> u64 \<Rightarrow> (u64 \<times> bytes) option" where
  "find_sdt m nb psdt nm =
     (if psdt = 0 \<or> getbyte (memsum m psdt (ucast (load32 m (psdt + 4)))) 0 \<noteq> 0 then None
      else do {
        n \<leftarrow> strlen m nm;
        let (m, _) = memcpy m nb nm (min n 4);
        let len = (ucast (load32 m (psdt + 4)) - SDT_HEADER_SIZE) div SDT_HEADER_SIZE;
        Some (sdt_loop m nb (psdt + SDT_HEADER_SIZE) 0 len, m) })"

text \<open>The checksum of an old descriptor covers its first twenty bytes.\<close>

definition rsdp_valid :: "bytes \<Rightarrow> u64 \<Rightarrow> bool" where
  "rsdp_valid m rsdp \<longleftrightarrow>
     getbyte (memsum m rsdp (if m (rsdp + 15) = 2 then RSDP_SIZE else 20)) 0 = 0"

definition enumerate_pci_devices :: "nat \<Rightarrow> pci_env \<Rightarrow> u64 \<Rightarrow> u64 \<Rightarrow> u64 \<Rightarrow> pci \<Rightarrow> pci option" where
  "enumerate_pci_devices n env lit nb nm s = do {
     rsdp \<leftarrow> find_rsdp (mem s) lit;
     if rsdp = 0 \<or> \<not> rsdp_valid (mem s) rsdp then None
     else do {
       let sdt = (if mem s (rsdp + 15) = 2 then load64 (mem s) (rsdp + 24) else ucast (load32 (mem s) (rsdp + 16)));
       (mcfg, m) \<leftarrow> find_sdt (mem s) nb sdt nm;
       let s = s\<lparr>mem := m\<rparr>;
       if mcfg \<noteq> 0
       then if getbyte (memsum m mcfg (ucast (load32 m (mcfg + 4)))) 0 \<noteq> 0 then None
         else do {
           let s = s\<lparr>cfg_table := mcfg + MCFG_SIZE\<rparr>;
           let length = (ucast (load32 m (mcfg + 4)) - MCFG_SIZE) div CFG_SIZE;
           ofold (\<lambda>i s. enumerate_device n env (of_nat i) s) [0..<unat (length :: size_t)] s }
       else enumerate_device n env PDEV_NO_CFG s } }"

definition init_pci :: "nat \<Rightarrow> pci_env \<Rightarrow> u64 \<Rightarrow> u64 \<Rightarrow> u64 \<Rightarrow> pci \<Rightarrow> pci option" where
  "init_pci n env lit nb nm s = enumerate_pci_devices n env lit nb nm (pci_lists_init s)"

subsection \<open>Lookup\<close>

text \<open>\<open>elem_value\<close> of the tail sentinel names memory behind the list; \<open>tail_sub\<close> is what lies there.\<close>

definition subclass_at :: "u32 \<Rightarrow> pci \<Rightarrow> (u32, u64) ptr \<Rightarrow> u32" where
  "subclass_at tail_sub s el = (case el of Elem d \<Rightarrow> dsubclass (devices s d) | _ \<Rightarrow> tail_sub)"

partial_function (option) subclass_loop ::
  "u32 \<Rightarrow> pci \<Rightarrow> u32 \<Rightarrow> u32 \<Rightarrow> (u32, u64) ptr \<Rightarrow> (u32, u64) ptr option" where
  "subclass_loop tail_sub s cls sub el =
     (if subclass_at tail_sub s el \<noteq> sub \<and> el \<noteq> list_end cls
      then do { el \<leftarrow> list_next (device_table s) el; subclass_loop tail_sub s cls sub el }
      else Some el)"

definition get_pci_device :: "u32 \<Rightarrow> pci \<Rightarrow> u32 \<Rightarrow> u32 \<Rightarrow> (u32, u64) ptr option" where
  "get_pci_device tail_sub s cls sub =
     (if cls \<le> PCI_DCLASS_UNASSIGNED \<and> \<not> list_empty (device_table s) cls
      then do {
        let el = list_begin (device_table s) cls;
        if sub \<noteq> - 1
        then do {
          el \<leftarrow> subclass_loop tail_sub s cls sub el;
          Some (if subclass_at tail_sub s el \<noteq> sub then NULL else el) }
        else Some el }
      else Some NULL)"


subsection \<open>The root pointer\<close>

definition rsdp_at :: "bytes \<Rightarrow> u64 \<Rightarrow> bool" where
  "rsdp_at m p \<longleftrightarrow> (\<forall>k < 8. m (p + of_nat k) = of_char (''RSD PTR '' ! k))"

definition rsdp_slot :: "nat \<Rightarrow> u64" where
  "rsdp_slot j = 0xE0000 + 16 * of_nat j"

lemma rsdp_slot_not_end: "rsdp_slot j \<noteq> 0xFFFFF"
proof
  assume "rsdp_slot j = 0xFFFFF"
  then have "16 * of_nat j = (0x1FFFF :: u64)" by (simp add: rsdp_slot_def algebra_simps)
  then have "(0x1000000000000000 * 0x1FFFF :: u64) = 0x1000000000000000 * (16 * of_nat j)" by (rule arg_cong [OF sym])
  also have "0x1000000000000000 * (16 * of_nat j :: u64) = (0x1000000000000000 * 16) * of_nat j"
    by (rule mult.assoc [symmetric])
  also have "(0x1000000000000000 * 16 :: u64) = 0" by simp
  finally show False by simp
qed

lemma strncmp_rsdp:
  assumes "rsdp_at m lit" shows "strncmp m p lit 8 = 0 \<longleftrightarrow> rsdp_at m p"
proof -
  have "unat (8 :: size_t) = 8" by simp
  moreover have "(of_char (''RSD PTR '' ! k) :: u8) \<noteq> 0" if "k < 8" for k
  proof -
    have "\<forall>k < 8. (of_char (''RSD PTR '' ! k) :: u8) \<noteq> 0" by code_simp
    then show ?thesis using that by blast
  qed
  ultimately show ?thesis using assms strncmp_zero_iff [of 8 m p lit] by (auto simp: rsdp_at_def)
qed

lemma rsdp_loop_found:
  assumes "rsdp_at m lit" "rsdp_at m (rsdp_slot (j + n))" "\<forall>i < n. \<not> rsdp_at m (rsdp_slot (j + i))"
  shows "rsdp_loop m lit (rsdp_slot j) = Some (rsdp_slot (j + n))"
  using assms(2,3)
proof (induction n arbitrary: j)
  case 0
  then show ?case using strncmp_rsdp [OF assms(1)] rsdp_slot_not_end by (simp add: rsdp_loop.simps)
next
  case (Suc n)
  have "\<not> rsdp_at m (rsdp_slot j)" using Suc.prems(2) by (metis add_0_right zero_less_Suc)
  then have "rsdp_loop m lit (rsdp_slot j) = rsdp_loop m lit (rsdp_slot (Suc j))"
    using strncmp_rsdp [OF assms(1)] rsdp_slot_not_end
    by (subst rsdp_loop.simps) (simp add: rsdp_slot_def algebra_simps)
  also have "\<dots> = Some (rsdp_slot (Suc j + n))"
    using Suc.prems by (intro Suc.IH) (auto simp flip: add_Suc_right)
  finally show ?case by simp
qed

lemma rsdp_loop_result:
  assumes "rsdp_at m lit" "rsdp_loop m lit p = Some r"
  shows "(\<exists>j. p = rsdp_slot j) \<longrightarrow> (\<exists>j. r = rsdp_slot j \<and> rsdp_at m r)"
proof -
  have "rsdp_at m lit \<longrightarrow> (\<exists>j. p = rsdp_slot j) \<longrightarrow> (\<exists>j. r = rsdp_slot j \<and> rsdp_at m r)"
    using assms(2)
  proof (rule rsdp_loop.raw_induct [where P = "\<lambda>m lit p r. rsdp_at m lit \<longrightarrow> (\<exists>j. p = rsdp_slot j) \<longrightarrow> (\<exists>j. r = rsdp_slot j \<and> rsdp_at m r)", rotated], intro impI)
    fix loop m lit p r
    assume IH: "\<And>m lit p r. loop m lit p = Some r \<Longrightarrow> rsdp_at m lit \<longrightarrow> (\<exists>j. p = rsdp_slot j) \<longrightarrow> (\<exists>j. r = rsdp_slot j \<and> rsdp_at m r)"
      and step: "(if p \<noteq> 0xFFFFF then if strncmp m p lit 8 = 0 then Some p else loop m lit (p + 16) else Some p) = Some r"
      and lit: "rsdp_at m lit" and "\<exists>j. p = rsdp_slot j"
    then obtain j where j: "p = rsdp_slot j" by blast
    have up: "p + 16 = rsdp_slot (Suc j)" by (simp add: j rsdp_slot_def algebra_simps)
    show "\<exists>j. r = rsdp_slot j \<and> rsdp_at m r"
    proof (cases "rsdp_at m p")
      case True
      then show ?thesis using step strncmp_rsdp [OF lit] rsdp_slot_not_end [of j] j by auto
    next
      case False
      then have "loop m lit (p + 16) = Some r" using step strncmp_rsdp [OF lit] rsdp_slot_not_end [of j] j by simp
      then show ?thesis using IH lit up by blast
    qed
  qed
  then show ?thesis using assms(1) by blast
qed

text \<open>C25: the search for the root pointer goes up in steps of sixteen from \<^verbatim>\<open>0xE0000\<close> and never
  stops at the end of the area, which is no multiple of sixteen: it returns the first aligned
  address, in the area or anywhere behind it, that carries the signature, and it does not return
  when there is none.\<close>

theorem find_rsdp_returns_iff:
  assumes "rsdp_at m lit"
  shows "(find_rsdp m lit = Some p \<longleftrightarrow>
      (\<exists>j. p = rsdp_slot j \<and> rsdp_at m p \<and> (\<forall>i < j. \<not> rsdp_at m (rsdp_slot i)))) \<and>
    (find_rsdp m lit = None \<longleftrightarrow> (\<forall>j. \<not> rsdp_at m (rsdp_slot j)))"
proof (cases "\<exists>j. rsdp_at m (rsdp_slot j)")
  case True
  define j where "j = (LEAST j. rsdp_at m (rsdp_slot j))"
  have j: "rsdp_at m (rsdp_slot j)" "\<forall>i < j. \<not> rsdp_at m (rsdp_slot i)"
    unfolding j_def using True by (auto intro: LeastI_ex dest: not_less_Least)
  have "find_rsdp m lit = Some (rsdp_slot j)"
    using rsdp_loop_found [OF assms, of 0 j] j rsdp_slot_not_end by (simp add: find_rsdp_def) (simp add: rsdp_slot_def)
  moreover have "i = j" if "rsdp_at m (rsdp_slot i)" "\<forall>k < i. \<not> rsdp_at m (rsdp_slot k)" for i
    using that j by (metis linorder_neqE_nat)
  then have "(\<exists>i. p = rsdp_slot i \<and> rsdp_at m p \<and> (\<forall>k < i. \<not> rsdp_at m (rsdp_slot k))) \<longleftrightarrow> p = rsdp_slot j"
    using j by blast
  ultimately show ?thesis using True by auto
next
  case False
  have "rsdp_loop m lit 0xE0000 = None"
  proof (cases "rsdp_loop m lit 0xE0000")
    case (Some r)
    have "\<exists>j. 0xE0000 = rsdp_slot j" by (intro exI [of _ 0]) (simp add: rsdp_slot_def)
    then show ?thesis using rsdp_loop_result [OF assms Some] False by blast
  qed simp
  then show ?thesis using False by (auto simp: find_rsdp_def)
qed

subsection \<open>Finding a device\<close>

lemma subclass_loop_rep:
  assumes "list_rep (device_table s) cls (us @ ds)"
  shows "subclass_loop tail_sub s cls sub (case ds of [] \<Rightarrow> Tail cls | d # _ \<Rightarrow> Elem d)
    = Some (case find (\<lambda>d. dsubclass (devices s d) = sub) ds of None \<Rightarrow> Tail cls | Some d \<Rightarrow> Elem d)"
  using assms
proof (induction ds arbitrary: us)
  case Nil
  show ?case by (simp add: subclass_loop.simps list_end_def)
next
  case (Cons d ds)
  have "subclass_loop tail_sub s cls sub (case ds of [] \<Rightarrow> Tail cls | d # _ \<Rightarrow> Elem d)
      = Some (case find (\<lambda>d. dsubclass (devices s d) = sub) ds of None \<Rightarrow> Tail cls | Some d \<Rightarrow> Elem d)"
    using Cons.prems by (intro Cons.IH [of "us @ [d]"]) simp
  then show ?case using list_rep_next [OF Cons.prems]
    by (subst subclass_loop.simps) (auto simp: subclass_at_def list_end_def)
qed

lemma get_pci_device_rep:
  assumes "list_rep (device_table s) cls ds" "cls \<le> 0xFF"
  shows "get_pci_device tail_sub s cls sub =
    Some (case find (\<lambda>d. sub = - 1 \<or> dsubclass (devices s d) = sub) ds of
        Some d \<Rightarrow> Elem d
      | None \<Rightarrow> if ds \<noteq> [] \<and> tail_sub = sub then Tail cls else NULL)"
proof (cases ds)
  case Nil
  then show ?thesis using list_rep_empty [OF assms(1)] by (simp add: get_pci_device_def)
next
  case (Cons d ds')
  note b = list_rep_begin [OF assms(1)] and e = list_rep_empty [OF assms(1)]
  show ?thesis
  proof (cases "sub = - 1")
    case True
    then show ?thesis using b e Cons assms(2) by (simp add: get_pci_device_def PCI_DCLASS_UNASSIGNED_def)
  next
    case False
    have "find (\<lambda>d. dsubclass (devices s d) = sub) ds = Some x \<Longrightarrow> dsubclass (devices s x) = sub" for x
      by (auto simp: find_Some_iff)
    moreover have "get_pci_device tail_sub s cls sub = do {
        el \<leftarrow> subclass_loop tail_sub s cls sub (case ds of [] \<Rightarrow> Tail cls | d # _ \<Rightarrow> Elem d);
        Some (if subclass_at tail_sub s el \<noteq> sub then NULL else el) }"
      using False b e Cons assms(2) by (simp add: get_pci_device_def PCI_DCLASS_UNASSIGNED_def)
    moreover have "list_rep (device_table s) cls ([] @ ds)" using assms(1) by simp
    note subclass_loop_rep [OF this, of tail_sub sub]
    ultimately show ?thesis using False Cons
      by (cases "find (\<lambda>d. dsubclass (devices s d) = sub) ds") (auto simp: subclass_at_def simp del: find.simps)
  qed
qed

text \<open>\<^verbatim>\<open>get_pci_device\<close> returns the first device of the class with the subclass, or with any
  subclass for -1, and null when there is none; but when what lies behind the list's sentinel
  happens to hold the subclass, it returns a pointer to that memory as a device.\<close>

theorem get_pci_device_first:
  assumes "list_rep (device_table s) cls ds" "cls \<le> 0xFF"
  shows "get_pci_device tail_sub s cls sub =
    Some (case find (\<lambda>d. sub = - 1 \<or> dsubclass (devices s d) = sub) ds of
        Some d \<Rightarrow> Elem d
      | None \<Rightarrow> if ds \<noteq> [] \<and> tail_sub = sub then Tail cls else NULL)"
  by (rule get_pci_device_rep [OF assms])

subsection \<open>The recursion over the buses\<close>

text \<open>The bus behind function \<open>func\<close> of a device, when that function is a bridge between buses,
  read through the ports.\<close>

definition port_word :: "(u32 \<Rightarrow> u32) \<Rightarrow> u32 \<Rightarrow> u32 \<Rightarrow> u32 \<Rightarrow> u8 \<Rightarrow> u32" where
  "port_word pt bus dev func ofs = ucast (pci_config_word pt (\<lambda>_. 0) 0 (ucast bus) (ucast dev) (ucast func) ofs)"

definition bus_behind :: "(u32 \<Rightarrow> u32) \<Rightarrow> u32 \<Rightarrow> u32 \<Rightarrow> u32 \<Rightarrow> u32 option" where
  "bus_behind pt bus dev func =
     (if getbyte (port_word pt bus dev func 5) 1 = 6 \<and> getbyte (port_word pt bus dev func 5) 0 = 4
      then Some (getbyte (port_word pt bus dev func 12) 1) else None)"

lemma config_word_port: "config_word pt s 0 bus dev func ofs = port_word pt bus dev func ofs"
  by (simp add: config_word_def port_word_def pci_config_word_def)

lemma check_function_port:
  assumes "config (devices s br) = 0"
  shows "check_function rec_bus env dev br bus device func s =
    (case bus_behind (port env) bus device func of
       None \<Rightarrow> Some s
     | Some b \<Rightarrow> rec_bus dev b (upd_device dev (\<lambda>d. d\<lparr>buses := (buses d)(unat func := b)\<rparr>) s))"
  using assms by (simp add: check_function_def config_word_port bus_behind_def Let_def PCI_DCLASS_BRIDGE_def)

text \<open>A device without a table of its own stays so: every device made in a scan takes the
  table of its bridge.\<close>

definition keeps_ports :: "(u64 \<Rightarrow> u32 \<Rightarrow> pci \<Rightarrow> pci option) \<Rightarrow> bool" where
  "keeps_ports f \<longleftrightarrow> (\<forall>br b s s' d. f br b s = Some s' \<longrightarrow> config (devices s br) = 0 \<longrightarrow>
     config (devices s d) = 0 \<longrightarrow> config (devices s' d) = 0)"

lemma extend_vm:
  "devices (vm.extend v (vm.more s)) = devices s" "device_table (vm.extend v (vm.more s)) = device_table s"
  "mem (vm.extend v (vm.more s)) = mem v" "mem (vm.truncate s) = mem s" for s :: pci
  by (cases s, cases v, simp add: vm.defs)+

lemma pci_alloc_devices: "pci_alloc j n sz s = Some (b, s') \<Longrightarrow> devices s' = devices s"
  by (auto simp: pci_alloc_def extend_vm split: bind_splits)

lemma init_pci_dev_config:
  assumes "init_pci_dev env pdev cfg bus dev br s = Some s'"
  shows "config (devices s' d) = (if d = pdev then cfg else config (devices s d))"
  using assms
  by (auto simp: init_pci_dev_def get_device_string_def upd_device_def Let_def dest!: pci_alloc_devices
      split: bind_splits if_splits)

lemma new_device_config:
  assumes "new_device j s = Some (dev, s')"
  shows "config (devices s' d) = (if d = dev then 0 else config (devices s d))"
  using assms
  by (auto simp: new_device_def upd_device_def zero_device_def dest!: pci_alloc_devices split: bind_splits if_splits)

lemma config_upd_buses [simp]: "config (devices (upd_device x (\<lambda>d. d\<lparr>buses := f d\<rparr>) s) d) = config (devices s d)"
  by (simp add: upd_device_def)

lemma check_function_keeps:
  assumes "keeps_ports rec_bus" "check_function rec_bus env dev br bus device func s = Some s'"
    "config (devices s dev) = 0" "config (devices s d) = 0"
  shows "config (devices s' d) = 0"
proof -
  have k: "rec_bus dev b t = Some s' \<Longrightarrow> config (devices t dev) = 0 \<Longrightarrow> config (devices t d) = 0 \<Longrightarrow> config (devices s' d) = 0" for b t
    using assms(1) by (simp add: keeps_ports_def)
  show ?thesis using assms(2-4) by (auto simp: check_function_def Let_def split: if_splits intro: k)
qed

text \<open>The scan of a device in two parts: the new device, and its functions.\<close>

definition scan_functions ::
  "(u64 \<Rightarrow> u32 \<Rightarrow> pci \<Rightarrow> pci option) \<Rightarrow> pci_env \<Rightarrow> u64 \<Rightarrow> u64 \<Rightarrow> u32 \<Rightarrow> u32 \<Rightarrow> pci \<Rightarrow> pci option" where
  "scan_functions rec_bus env dev br bus device s = do {
     s \<leftarrow> check_function rec_bus env dev br bus device 0 s;
     let header_type = getbyte (config_word (port env) s (config (devices s br)) bus device 0 7) 0;
     if header_type AND PCI_HEADER_MULTIFN \<noteq> 0
     then ofold (\<lambda>func s.
            if config_word (port env) s (config (devices s br)) bus device (of_nat func) 0 \<noteq> 0xFFFF
            then check_function rec_bus env dev br bus device (of_nat func) s
            else Some s) [1..<PCI_MAX_FUNCTIONS] s
     else Some s }"

lemma check_device_split:
  assumes "config (devices s br) = 0"
  shows "check_device rec_bus env br bus device s =
    (if port_word (port env) bus device 0 0 = 0xFFFF then Some s
     else do {
       (dev, s) \<leftarrow> new_device (junk env) s;
       s \<leftarrow> init_pci_dev env dev 0 bus device br s;
       scan_functions rec_bus env dev br bus device s })"
proof -
  have "config (devices t br) = 0" if "new_device (junk env) s = Some (dev, t)" for dev t
    using new_device_config [OF that] assms by simp
  then show ?thesis
    using assms by (auto simp: check_device_def scan_functions_def config_word_port split: bind_split)
qed

lemma device_made_port:
  assumes "new_device (junk env) s = Some (dev, s1)" "init_pci_dev env dev 0 bus device br s1 = Some s2"
  shows "config (devices s2 dev) = 0" "config (devices s d) = 0 \<Longrightarrow> config (devices s2 d) = 0"
  using new_device_config [OF assms(1)] init_pci_dev_config [OF assms(2)] by simp_all

lemma scan_functions_keeps:
  assumes "keeps_ports rec_bus" "scan_functions rec_bus env dev br bus device s = Some s'"
    "config (devices s dev) = 0" "config (devices s d) = 0"
  shows "config (devices s' d) = 0"
proof -
  obtain t where t: "check_function rec_bus env dev br bus device 0 s = Some t"
    using assms(2) by (auto simp: scan_functions_def split: bind_splits)
  let ?P = "\<lambda>s. config (devices s dev) = 0 \<and> config (devices s d) = 0"
  have P: "?P t" using check_function_keeps [OF assms(1) t assms(3)] assms(3,4) by blast
  have "ofold (\<lambda>func s. if config_word (port env) s (config (devices s br)) bus device (of_nat func) 0 \<noteq> 0xFFFF
      then check_function rec_bus env dev br bus device (of_nat func) s else Some s) [1..<PCI_MAX_FUNCTIONS] t = Some s' \<Longrightarrow> ?P s'"
    using check_function_keeps [OF assms(1)] P by (rule_tac ofold_inv [of _ ?P]) (auto split: if_splits)
  then show ?thesis using assms(2) t P by (auto simp: scan_functions_def Let_def split: if_splits)
qed

lemma check_device_keeps:
  assumes "keeps_ports rec_bus" "check_device rec_bus env br bus device s = Some s'"
    "config (devices s br) = 0" "config (devices s d) = 0"
  shows "config (devices s' d) = 0"
proof (cases "port_word (port env) bus device 0 0 = 0xFFFF")
  case True
  then show ?thesis using assms(2,4) by (simp add: check_device_split [OF assms(3)])
next
  case False
  then obtain dev s1 s2 where s: "new_device (junk env) s = Some (dev, s1)"
    "init_pci_dev env dev 0 bus device br s1 = Some s2" "scan_functions rec_bus env dev br bus device s2 = Some s'"
    using assms(2) by (auto simp: check_device_split [OF assms(3)] split: bind_splits)
  show ?thesis by (rule scan_functions_keeps [OF assms(1) s(3) device_made_port [OF s(1,2)]]) (rule assms(4))
qed

lemma check_bus_keeps:
  assumes "keeps_ports (beyond env)" shows "keeps_ports (check_bus n env)"
proof (induction n)
  case 0
  then show ?case using assms by (simp add: keeps_ports_def)
next
  case (Suc n)
  have "config (devices s' d) = 0"
    if "check_bus (Suc n) env br b s = Some s'" "config (devices s br) = 0" "config (devices s d) = 0" for br b s s' d
    using that ofold_inv [of "[0..<PCI_MAX_DEVICES]" "\<lambda>s. config (devices s br) = 0 \<and> config (devices s d) = 0"
        "\<lambda>dev. check_device (check_bus n env) env br b (of_nat dev)" s s'] check_device_keeps [OF Suc.IH]
    by simp
  then show ?case by (simp add: keeps_ports_def del: check_bus.simps)
qed

lemma scan_functions_cong:
  assumes "keeps_ports rb"
    and eq: "\<And>func b t. func < PCI_MAX_FUNCTIONS \<Longrightarrow> bus_behind (port env) bus device (of_nat func) = Some b \<Longrightarrow>
      config (devices t dev) = 0 \<Longrightarrow> rb dev b t = rb' dev b t"
    and "config (devices s br) = 0" "config (devices s dev) = 0"
  shows "scan_functions rb env dev br bus device s = scan_functions rb' env dev br bus device s"
proof -
  let ?P = "\<lambda>s. config (devices s br) = 0 \<and> config (devices s dev) = 0"
  let ?body = "\<lambda>rb func s. if config_word (port env) s (config (devices s br)) bus device (of_nat func) 0 \<noteq> 0xFFFF
      then check_function rb env dev br bus device (of_nat func) s else Some s"
  have f: "check_function rb env dev br bus device (of_nat func) t = check_function rb' env dev br bus device (of_nat func) t"
    if "?P t" "func < PCI_MAX_FUNCTIONS" for func t
    using that eq [of func] by (auto simp: check_function_port split: option.splits)
  have n0: "0 < PCI_MAX_FUNCTIONS" by (simp add: PCI_MAX_FUNCTIONS_def)
  have k: "?P t'" if "?P t" "check_function rb env dev br bus device func t = Some t'" for func t t'
    using check_function_keeps [OF assms(1) that(2)] that(1) by blast
  have loop: "ofold (?body rb) [1..<PCI_MAX_FUNCTIONS] t = ofold (?body rb') [1..<PCI_MAX_FUNCTIONS] t" if "?P t" for t
  proof (rule ofold_cong_inv [where P = ?P])
    show "?body rb func u = ?body rb' func u" if "func \<in> set [1..<PCI_MAX_FUNCTIONS]" "?P u" for func u
      using f [OF that(2), of func] that(1) by simp
    show "?P u'" if "?P u" "?body rb func u = Some u'" for func u u'
    proof (cases "config_word (port env) u (config (devices u br)) bus device (of_nat func) 0 = 0xFFFF")
      case True
      then show ?thesis using that by simp
    next
      case False
      then show ?thesis using k [OF that(1), of "of_nat func" u'] that(2) by simp
    qed
  qed (rule that)
  have P: "?P s" using assms(3,4) by simp
  show ?thesis
  proof (cases "check_function rb env dev br bus device 0 s")
    case None
    then show ?thesis using f [OF P n0] by (simp add: scan_functions_def)
  next
    case (Some t)
    then have "check_function rb' env dev br bus device 0 s = Some t" using f [OF P n0] by simp
    then show ?thesis using Some loop [OF k [OF P Some]] by (simp add: scan_functions_def Let_def del: One_nat_def)
  qed
qed

lemma check_device_cong:
  assumes "keeps_ports rb" "config (devices s br) = 0"
    and "\<And>func b dev t. func < PCI_MAX_FUNCTIONS \<Longrightarrow> bus_behind (port env) bus device (of_nat func) = Some b \<Longrightarrow>
      config (devices t dev) = 0 \<Longrightarrow> rb dev b t = rb' dev b t"
  shows "check_device rb env br bus device s = check_device rb' env br bus device s"
proof -
  have "scan_functions rb env dev br bus device s2 = scan_functions rb' env dev br bus device s2"
    if "new_device (junk env) s = Some (dev, s1)" "init_pci_dev env dev 0 bus device br s1 = Some s2" for dev s1 s2
    using device_made_port [OF that] assms by (intro scan_functions_cong) auto
  then show ?thesis unfolding check_device_split [OF assms(2)]
    by (auto intro!: Option.bind_cong)
qed

lemma bus_behind_bound: "bus_behind pt bus device func = Some b \<Longrightarrow> unat b < 256"
proof -
  assume "bus_behind pt bus device func = Some b"
  then have "b = drop_bit 8 (port_word pt bus device func 12) AND 0xFF"
    by (simp add: bus_behind_def getbyte_def split: if_splits)
  then have "b \<le> 0xFF" by (simp add: word_and_le1)
  then show ?thesis by (simp add: word_le_nat_alt)
qed

text \<open>The environment in which a call without fuel faults.\<close>

abbreviation cut :: "pci_env \<Rightarrow> pci_env" where
  "cut env \<equiv> env\<lparr>beyond := \<lambda>_ _ _. None\<rparr>"

lemma cut_keeps: "keeps_ports (check_bus n (cut env))"
  by (rule check_bus_keeps) (simp add: keeps_ports_def)

text \<open>The scan reads of the environment all but \<open>beyond\<close>.\<close>

lemma check_device_env: "check_device rb (env\<lparr>beyond := x\<rparr>) = check_device rb env"
  by (simp add: check_device_def check_function_def init_pci_dev_def fun_eq_iff Let_def cong: if_cong)

lemma check_bus_enough:
  assumes up: "\<And>bus device func b. bus < 256 \<Longrightarrow> device < PCI_MAX_DEVICES \<Longrightarrow> func < PCI_MAX_FUNCTIONS \<Longrightarrow>
      bus_behind (port env) bus (of_nat device) (of_nat func) = Some b \<Longrightarrow> bus < b"
    and "config (devices s br) = 0" "bus < 256" "256 - unat bus \<le> n"
  shows "check_bus n (env\<lparr>beyond := x\<rparr>) br bus s = check_bus (256 - unat bus) (cut env) br bus s"
  using assms(2-4)
proof (induction "256 - unat bus" arbitrary: n x br bus s rule: less_induct)
  case less
  have bus: "unat bus < 256" using less.prems(2) by (simp add: word_less_nat_alt)
  then obtain k where k: "256 - unat bus = Suc k" by (metis Suc_diff_Suc)
  then obtain n' where n': "n = Suc n'" "k \<le> n'" using less.prems(3) by (cases n) simp_all
  have same: "check_bus k (cut env) d b t = check_bus n' (env\<lparr>beyond := x\<rparr>) d b t"
    if "device < PCI_MAX_DEVICES" "func < PCI_MAX_FUNCTIONS" "config (devices t d) = 0"
      "bus_behind (port env) bus (of_nat device) (of_nat func) = Some b" for device func b d t
  proof -
    have b: "unat bus < unat b" "unat b < 256"
      using up [OF less.prems(2) that(1,2,4)] bus_behind_bound [OF that(4)] by (simp_all add: word_less_nat_alt)
    then have m: "256 - unat b < 256 - unat bus" "256 - unat b \<le> k" "b < 256" using k by (simp_all add: word_less_nat_alt)
    show ?thesis
      using less.hyps [OF m(1) that(3) m(3), of n' x] less.hyps [OF m(1) that(3) m(3), of k "\<lambda>_ _ _. None"] m(2) n'(2)
      by simp
  qed
  have "check_bus (Suc k) (cut env) br bus s = check_bus (Suc n') (env\<lparr>beyond := x\<rparr>) br bus s"
    unfolding check_bus.simps check_device_env
  proof (rule ofold_cong_inv [where P = "\<lambda>s. config (devices s br) = 0"])
    fix i and t t' :: pci assume t: "config (devices t br) = 0"
    assume i: "i \<in> set [0..<PCI_MAX_DEVICES]"
    show "check_device (check_bus k (cut env)) env br bus (of_nat i) t
        = check_device (check_bus n' (env\<lparr>beyond := x\<rparr>)) env br bus (of_nat i) t"
      using check_device_cong [OF cut_keeps t] same [of i] i by simp
    show "config (devices t' br) = 0" if "check_device (check_bus k (cut env)) env br bus (of_nat i) t = Some t'"
      by (rule check_device_keeps [OF cut_keeps that t t])
  qed (rule less.prems(1))
  then show ?case unfolding k n'(1) by simp
qed

text \<open>C24: when the configuration space is read through the ports and every bridge leads to a bus with a
  higher number, as the firmware numbers them, the recursion over the buses is at most as deep as
  there are bus numbers left: with that much fuel the result, a fault or a state, is one and the same
  for any amount of fuel and for anything that a call without fuel might do, so no such call is made.\<close>

theorem check_bus_depth:
  assumes up: "\<And>bus device func b. bus < 256 \<Longrightarrow> device < PCI_MAX_DEVICES \<Longrightarrow> func < PCI_MAX_FUNCTIONS \<Longrightarrow>
      bus_behind (port env) bus (of_nat device) (of_nat func) = Some b \<Longrightarrow> bus < b"
    and s: "config (devices s br) = 0" "bus < 256"
  shows "\<exists>r. \<forall>n x. 256 - unat bus \<le> n \<longrightarrow> check_bus n (env\<lparr>beyond := x\<rparr>) br bus s = r"
proof (intro exI allI impI)
  fix n x assume n: "256 - unat bus \<le> n"
  show "check_bus n (env\<lparr>beyond := x\<rparr>) br bus s = check_bus (256 - unat bus) (cut env) br bus s"
    by (rule check_bus_enough [OF _ s n]) (rule up)
qed

text \<open>A bridge that leads back to its own bus, on a device that answers, sends the scan of that
  bus into a recursion without end: there is no depth at which it returns.\<close>

theorem bridge_cycle_never_returns:
  assumes "config (devices s br) = 0" "device < PCI_MAX_DEVICES" "port_word (port env) bus (of_nat device) 0 0 \<noteq> 0xFFFF"
    and "bus_behind (port env) bus (of_nat device) 0 = Some bus"
  shows "check_bus n (cut env) br bus s = None"
  using assms(1)
proof (induction n arbitrary: br s)
  case (Suc n)
  have "check_device (check_bus n (cut env)) env br bus (of_nat device) t = None" if "config (devices t br) = 0" for t
  proof -
    have "scan_functions (check_bus n (cut env)) env dev br bus (of_nat device) t2 = None"
      if "new_device (junk env) t = Some (dev, t1)" "init_pci_dev env dev 0 bus (of_nat device) br t1 = Some t2" for dev t1 t2
      using device_made_port [OF that] \<open>config (devices t br) = 0\<close> Suc.IH assms(4)
      by (simp add: scan_functions_def check_function_port)
    then show ?thesis using assms(3) unfolding check_device_split [OF that]
      by (cases "new_device (junk env) t") (auto split: bind_split)
  qed
  moreover have "[0..<PCI_MAX_DEVICES] = [0..<device] @ device # [Suc device..<PCI_MAX_DEVICES]"
    using assms(2) upt_add_eq_append [of 0 device "PCI_MAX_DEVICES - device"] upt_conv_Cons [OF assms(2)] by simp
  ultimately show ?case
    using ofold_inv [of "[0..<device]" "\<lambda>s. config (devices s br) = 0"
        "\<lambda>dev. check_device (check_bus n (cut env)) env br bus (of_nat dev)" s] Suc.prems
        check_device_keeps [OF cut_keeps]
    by (auto simp: ofold_append check_device_env split: bind_split)
qed simp

subsection \<open>Registration\<close>

text \<open>The lists of all classes but the first are never initialised: they are zero.\<close>

definition zeroed_list :: "('l, 'e) lheap \<Rightarrow> 'l \<Rightarrow> bool" where
  "zeroed_list h l \<longleftrightarrow> prev h (Head l) = NULL \<and> nxt h (Tail l) = NULL \<and> lsize h l = 0"

lemma zeroed_list_push:
  assumes "zeroed_list h l"
  shows "\<exists>h'. list_push_back h l (Elem e) = Some h' \<and> list_rep h' l [e] \<and> same_outside {l} {e} h h'"
  using assms
  by (auto simp: list_push_back_def list_empty_def list_size_def field_defs list_rep_def zeroed_list_def same_outside_def)

lemma get_device_string_frame:
  "get_device_string j w fa ft dev s = Some (str, s') \<Longrightarrow> devices s' = devices s \<and> device_table s' = device_table s"
  by (auto simp: get_device_string_def pci_alloc_def extend_vm Let_def split: bind_splits if_splits)

lemma init_pci_dev_made:
  assumes "init_pci_dev env pdev cfg bus dev br s = Some s'"
  shows "\<exists>str. devices s' = (devices s)(pdev := (devices s pdev)\<lparr>config := cfg,
      dclass := getbyte (config_word (port env) s cfg bus dev 0 5) 1,
      dsubclass := getbyte (config_word (port env) s cfg bus dev 0 5) 0,
      progif := getbyte (config_word (port env) s cfg bus dev 0 4) 1,
      dev_id := config_word (port env) s cfg bus dev 0 1,
      buses := (buses (devices s pdev))(0 := bus), bridge := br, devstr := str\<rparr>)"
    "list_push_back (device_table s) (getbyte (config_word (port env) s cfg bus dev 0 5) 1) (Elem pdev) = Some (device_table s')"
proof -
  have c: "config_word p (t\<lparr>devices := ds\<rparr>) = config_word p t" for p ds t
    by (simp add: fun_eq_iff config_word_def)
  show "\<exists>str. devices s' = (devices s)(pdev := (devices s pdev)\<lparr>config := cfg,
      dclass := getbyte (config_word (port env) s cfg bus dev 0 5) 1,
      dsubclass := getbyte (config_word (port env) s cfg bus dev 0 5) 0,
      progif := getbyte (config_word (port env) s cfg bus dev 0 4) 1,
      dev_id := config_word (port env) s cfg bus dev 0 1,
      buses := (buses (devices s pdev))(0 := bus), bridge := br, devstr := str\<rparr>)"
    "list_push_back (device_table s) (getbyte (config_word (port env) s cfg bus dev 0 5) 1) (Elem pdev) = Some (device_table s')"
    using assms
    by (auto simp: init_pci_dev_def Let_def c upd_device_def dest!: get_device_string_frame split: bind_splits intro!: exI)
qed

text \<open>C23: a device that is registered goes to the end of the list of the class that its
  configuration space names, with the fields read from there, whether that list was
  initialised or, as the code leaves all but the first, is zero; the lists of the other classes
  keep their devices.  The first device of a class is then found by its class.\<close>

theorem init_pci_dev_registers:
  assumes "init_pci_dev env pdev cfg bus dev br s = Some s'"
    and "cls = getbyte (config_word (port env) s cfg bus dev 0 5) 1"
    and "list_rep (device_table s) cls ds \<or> zeroed_list (device_table s) cls \<and> ds = []"
    and "pdev \<notin> set ds" "Suc (length ds) < 18446744073709551616"
  shows "list_rep (device_table s') cls (ds @ [pdev]) \<and>
    dclass (devices s' pdev) = cls \<and> bridge (devices s' pdev) = br \<and> buses (devices s' pdev) 0 = bus \<and>
    dsubclass (devices s' pdev) = getbyte (config_word (port env) s cfg bus dev 0 5) 0 \<and>
    (\<forall>d. d \<noteq> pdev \<longrightarrow> devices s' d = devices s d) \<and>
    (\<forall>k xs. k \<noteq> cls \<longrightarrow> list_rep (device_table s) k xs \<longrightarrow> set xs \<inter> insert pdev (set ds) = {} \<longrightarrow>
      list_rep (device_table s') k xs) \<and>
    get_pci_device tail_sub s' cls (- 1) = Some (Elem (hd (ds @ [pdev])))"
proof -
  obtain str where dv: "devices s' = (devices s)(pdev := (devices s pdev)\<lparr>config := cfg,
      dclass := cls, dsubclass := getbyte (config_word (port env) s cfg bus dev 0 5) 0,
      progif := getbyte (config_word (port env) s cfg bus dev 0 4) 1,
      dev_id := config_word (port env) s cfg bus dev 0 1,
      buses := (buses (devices s pdev))(0 := bus), bridge := br, devstr := str\<rparr>)"
    using init_pci_dev_made(1) [OF assms(1)] assms(2) by blast
  have push: "list_push_back (device_table s) cls (Elem pdev) = Some (device_table s')"
    using init_pci_dev_made(2) [OF assms(1)] assms(2) by simp
  have made: "list_rep (device_table s') cls (ds @ [pdev])"
    "same_outside {cls} (insert pdev (set ds)) (device_table s) (device_table s')"
  proof -
    have "\<exists>h. list_push_back (device_table s) cls (Elem pdev) = Some h \<and> list_rep h cls (ds @ [pdev]) \<and>
        same_outside {cls} (insert pdev (set ds)) (device_table s) h"
      using assms(3)
    proof
      assume "list_rep (device_table s) cls ds"
      then show ?thesis using assms(4,5) by (rule push_back_rep)
    next
      assume "zeroed_list (device_table s) cls \<and> ds = []"
      then show ?thesis using zeroed_list_push [of "device_table s" cls pdev] by simp
    qed
    then show "list_rep (device_table s') cls (ds @ [pdev])"
      "same_outside {cls} (insert pdev (set ds)) (device_table s) (device_table s')" using push by auto
  qed
  have "cls = drop_bit 8 (config_word (port env) s cfg bus dev 0 5) AND 0xFF"
    using assms(2) by (simp add: getbyte_def)
  then have "cls \<le> 0xFF" by (simp add: word_and_le1)
  from get_pci_device_rep [OF made(1) this, of tail_sub "- 1"]
  have "get_pci_device tail_sub s' cls (- 1) = Some (Elem (hd (ds @ [pdev])))" by (cases ds) simp_all
  moreover have "list_rep (device_table s') k xs"
    if "k \<noteq> cls" "list_rep (device_table s) k xs" "set xs \<inter> insert pdev (set ds) = {}" for k xs
    using list_rep_frame [OF made(2) that(2)] that(1,3) by simp
  ultimately show ?thesis using made(1) dv by simp
qed

subsection \<open>Concrete runs\<close>

text \<open>No device answers, and the heap gives out the unset pointer.\<close>

definition demo_pci :: pci where
  "demo_pci = vm.extend (heap.extend (demo_heap\<lparr>mem := (\<lambda>_. 0)\<rparr>) (vm.fields 0x400000 0x1000 0x1000))
     (pci.fields (\<lambda>_. zero_device) \<lparr>prev = (\<lambda>_. NULL), nxt = (\<lambda>_. NULL), lsize = (\<lambda>_. 0)\<rparr> 0)"

definition demo_env :: "(u32 \<Rightarrow> u32) \<Rightarrow> pci_env" where
  "demo_env p = \<lparr>port = p, fmt = 16, junk = 0x5000, wjunk = 7, farg = no_farg, beyond = \<lambda>_ _ _. None\<rparr>"

lemma demo_pci_fields:
  "mem demo_pci = (\<lambda>_. 0)" "devices demo_pci = (\<lambda>_. zero_device)" "zeroed_list (device_table demo_pci) l"
  "pci_alloc 0x5000 128 1 (demo_pci\<lparr>devices := d\<rparr>) = Some (0x5000, demo_pci\<lparr>devices := d\<rparr>)"
  by (simp_all add: demo_pci_def vm.defs heap.defs pci.defs demo_heap_def zeroed_list_def pci_alloc_def vm_alloc_def
      kcalloc_def kmalloc_def find_desc_def)

theorem init_pci_dev_registers_witness:
  "\<exists>s'. init_pci_dev (demo_env (\<lambda>_. 0x06040000)) 0x9000 0 0 0 0 demo_pci = Some s' \<and>
     list_rep (device_table s') 6 [0x9000]"
proof -
  let ?env = "demo_env (\<lambda>_. 0x06040000)"
  have cls: "getbyte (config_word (port ?env) demo_pci 0 0 0 0 5) 1 = 6"
    by (simp add: config_word_def pci_config_word_def getbyte_def demo_env_def)
  obtain s' where s': "init_pci_dev ?env 0x9000 0 0 0 0 demo_pci = Some s'"
  proof -
    have z: "(\<lambda>_. 0)(a := 0) = (\<lambda>_. 0 :: u8)" for a :: u64 by (simp add: fun_eq_iff)
    have str: "get_device_string 0x5000 7 no_farg 16 0x9000 t = Some (0x5000, t\<lparr>mem := (\<lambda>_. 0)\<rparr>)"
      if "mem t = (\<lambda>_. 0)" "pci_alloc 0x5000 128 1 t = Some (0x5000, t)" for t
      using that by (simp add: get_device_string_def PCI_DEVSTRMAX_def sprintf_def vsprintf_def strchr.simps char_int_def
          format_loop_stop strlen_def strlen_loop.simps memcpy_def memcpy_loop.simps Let_def z)
    obtain h where "list_push_back (device_table demo_pci) 6 (Elem 0x9000) = Some h"
      using zeroed_list_push [OF demo_pci_fields(3)] by blast
    then show thesis using that cls
      by (simp add: init_pci_dev_def demo_env_def upd_device_def str demo_pci_fields(1,4) Let_def)
  qed
  have "list_rep (device_table s') 6 ([] @ [0x9000])"
    using init_pci_dev_registers [OF s' cls [symmetric], of "[]" 0] demo_pci_fields(3) by simp
  with s' show ?thesis by simp
qed

theorem find_rsdp_returns_iff_witness:
  "find_rsdp (\<lambda>a. if a - 0xE0000 < 8 then of_char (''RSD PTR '' ! unat (a - 0xE0000)) else 0) 0xE0000 = Some 0xE0000"
proof -
  let ?m = "\<lambda>a :: u64. if a - 0xE0000 < 8 then of_char (''RSD PTR '' ! unat (a - 0xE0000)) else (0 :: u8)"
  have at: "rsdp_at ?m 0xE0000"
  proof -
    have "(of_nat k :: u64) < 8 \<and> unat (of_nat k :: u64) = k" if "k < 8" for k
      using that by (simp add: word_less_nat_alt unat_of_nat)
    then show ?thesis by (simp add: rsdp_at_def)
  qed
  have "\<exists>j. (0xE0000 :: u64) = rsdp_slot j \<and> rsdp_at ?m 0xE0000 \<and> (\<forall>i < j. \<not> rsdp_at ?m (rsdp_slot i))"
    using at by (intro exI [of _ 0]) (simp add: rsdp_slot_def)
  then show ?thesis using find_rsdp_returns_iff [OF at, of "0xE0000"] by blast
qed

theorem get_pci_device_first_witness:
  "get_pci_device 4 (demo_pci\<lparr>device_table := list_init (device_table demo_pci) 6\<rparr>) 6 4 = Some NULL"
  using get_pci_device_first [of "demo_pci\<lparr>device_table := list_init (device_table demo_pci) 6\<rparr>" 6 "[]" 4 4]
    list_rep_init [of "device_table demo_pci" 6] by simp

text \<open>Every function of bus 2 is a bridge to bus 3, and no other bus has a bridge.\<close>

definition bridge_ports :: "u32 \<Rightarrow> u32" where
  "bridge_ports a =
     (if drop_bit 16 a AND 0xFF = 2 then if a AND 0xFC = 8 then 0x06040000 else 0x0300 else 0)"

lemma small_bits: "k < 2 ^ n \<Longrightarrow> n \<le> i \<Longrightarrow> \<not> bit (of_nat k :: 'a::len word) i"
proof
  assume k: "k < 2 ^ n" "n \<le> i" and b: "bit (of_nat k :: 'a word) i"
  have "(2 :: nat) ^ n \<le> 2 ^ i" using k(2) by (intro power_increasing) simp_all
  then have "k < 2 ^ i" by (rule order_less_le_trans [OF k(1)])
  then have "\<not> bit k i" by (simp add: bit_iff_odd [of k])
  then show False using b by (simp add: bit_simps)
qed

definition cfg_address :: "u32 \<Rightarrow> u32 \<Rightarrow> u32 \<Rightarrow> u32 \<Rightarrow> u32" where
  "cfg_address bus dev func lo = push_bit 16 (ucast (ucast bus :: u8)) OR push_bit 11 (ucast (ucast dev :: u8))
     OR push_bit 8 (ucast (ucast func :: u8)) OR lo OR 0x80000000"

lemma port_word_address:
  "port_word pt bus dev func ofs =
     ucast (ucast (drop_bit (unat (ofs AND 1) * 16) (pt (cfg_address bus dev func (ucast ofs * 2 AND 0xFC))) AND 0xFFFF) :: u16)"
  by (simp add: port_word_def pci_config_word_def cfg_address_def)

lemma cfg_address_parts:
  assumes "bus < 256" "device < 32" "func < 8" "lo < 256"
  shows "drop_bit 16 (cfg_address bus (of_nat device) (of_nat func) lo) AND 0xFF = bus"
    "cfg_address bus (of_nat device) (of_nat func) lo AND 0xFC = lo AND 0xFC"
proof -
  have d: "\<not> bit (of_nat device :: u32) j" if "5 \<le> j" for j using assms(2) that by (intro small_bits [of _ 5]) simp_all
  have f: "\<not> bit (of_nat func :: u32) j" if "3 \<le> j" for j using assms(3) that by (intro small_bits [of _ 3]) simp_all
  have l: "\<not> bit lo j" if "8 \<le> j" for j
    using small_bits [of "unat lo" 8 j, where ?'a = 32] assms(4) that by (simp add: word_less_nat_alt)
  have b: "\<not> bit bus j" if "8 \<le> j" for j
    using small_bits [of "unat bus" 8 j, where ?'a = 32] assms(1) that by (simp add: word_less_nat_alt)
  have c: "\<not> bit (0x8000 :: u32) j" "\<not> bit (0x80000000 :: u32) j" "bit (0xFF :: u32) j" if "j < 8" for j
    using that by (auto simp: less_Suc_eq numeral_eq_Suc)
  have e: "\<not> bit (0xFF :: u32) j" "\<not> bit (0xFC :: u32) j" if "8 \<le> j" for j
    using small_bits [of "0xFF" 8 j, where ?'a = 32] small_bits [of "0xFC" 8 j, where ?'a = 32] that by simp_all
  show "drop_bit 16 (cfg_address bus (of_nat device) (of_nat func) lo) AND 0xFF = bus"
  proof (rule bit_word_eqI)
    fix i assume i: "i < LENGTH(32)"
    show "bit (drop_bit 16 (cfg_address bus (of_nat device) (of_nat func) lo) AND 0xFF) i = bit bus i"
      using i d [of "16 + i - 11"] f [of "16 + i - 8"] l [of "16 + i"] b [of i] c [of i] e [of i]
      by (cases "i < 8")
        (simp_all add: cfg_address_def bit_and_iff bit_or_iff bit_drop_bit_eq bit_push_bit_iff bit_ucast_iff)
  qed
  show "cfg_address bus (of_nat device) (of_nat func) lo AND 0xFC = lo AND 0xFC"
  proof (rule bit_word_eqI)
    fix i assume "i < LENGTH(32)"
    then show "bit (cfg_address bus (of_nat device) (of_nat func) lo AND 0xFC) i = bit (lo AND 0xFC) i"
      using c [of i] e [of i]
      by (cases "i < 8")
        (simp_all add: cfg_address_def bit_and_iff bit_or_iff bit_push_bit_iff)
  qed
qed

theorem check_bus_depth_witness:
  "\<exists>r. \<forall>n x. 254 \<le> n \<longrightarrow> check_bus n ((demo_env bridge_ports)\<lparr>beyond := x\<rparr>) 0x9000 2 demo_pci = r"
proof -
  have behind: "bus_behind bridge_ports bus (of_nat device) (of_nat func) = (if bus = 2 then Some 3 else None)"
    if "bus < 256" "device < PCI_MAX_DEVICES" "func < PCI_MAX_FUNCTIONS" for bus device func
  proof -
    have n: "device < 32" "func < 8" using that by (simp_all add: PCI_MAX_DEVICES_def PCI_MAX_FUNCTIONS_def)
    show ?thesis using cfg_address_parts [OF that(1) n, of 8] cfg_address_parts [OF that(1) n, of 24]
      by (cases "bus = 2") (simp_all add: bus_behind_def port_word_address bridge_ports_def getbyte_def)
  qed
  have "\<exists>r. \<forall>n x. 256 - unat (2 :: u32) \<le> n \<longrightarrow>
      check_bus n ((demo_env bridge_ports)\<lparr>beyond := x\<rparr>) 0x9000 2 demo_pci = r"
    using behind by (intro check_bus_depth) (auto simp: demo_pci_fields zero_device_def demo_env_def split: if_splits)
  then show ?thesis by simp
qed

theorem bridge_cycle_never_returns_witness:
  "check_bus 300 (cut (demo_env (\<lambda>a. if a AND 0xFC = 8 then 0x06040000 else 0))) 0x9000 0 demo_pci = None"
proof (rule bridge_cycle_never_returns)
  show "config (devices demo_pci 0x9000) = 0" by (simp add: demo_pci_fields zero_device_def)
  show "(3 :: nat) < PCI_MAX_DEVICES" by (simp add: PCI_MAX_DEVICES_def)
  show "port_word (port (demo_env (\<lambda>a. if a AND 0xFC = 8 then 0x06040000 else 0))) 0 (of_nat 3) 0 0 \<noteq> 0xFFFF"
    "bus_behind (port (demo_env (\<lambda>a. if a AND 0xFC = 8 then 0x06040000 else 0))) 0 (of_nat 3) 0 = Some 0"
    by (simp_all add: port_word_def bus_behind_def pci_config_word_def getbyte_def demo_env_def)
qed

end
