(* ===== verification/Block.thy ===== *)
theory Block
  imports Pml4
begin

unbundle bit_operations_syntax

section \<open>Block devices (io/block.c, io/ide.c)\<close>

text \<open>
  Model of \<^verbatim>\<open>kern/lib/io/block.c\<close> and of the disk functions of \<^verbatim>\<open>io/ide.c\<close> that it calls, whose
  bodies are empty.  A device is the address of its \<^verbatim>\<open>struct block\<close>: its numbers are typed
  fields, the sector buffer behind them lies in the byte memory.  The model follows one thread
  of control: \<open>lock_value\<close> is the value of a lock's semaphore, and \<open>None\<close> also stands for a call
  that waits for a lock for ever, as every wait of the kernel's semaphores does.
\<close>

subsection \<open>State\<close>

record block_dev =
  block_name :: u64
  start_sector :: u32
  sector_count :: u32

record disk = vm +
  blocks :: "u64 \<Rightarrow> block_dev"
  block_devices :: u64
  lock_value :: "u64 \<Rightarrow> u64"

definition BLOCK_SECTOR_SIZE :: size_t where "BLOCK_SECTOR_SIZE = 512"
definition STRUCT_BLOCK_SIZE :: size_t where "STRUCT_BLOCK_SIZE = 584"
definition BLOCK_KERNEL :: nat where "BLOCK_KERNEL = 0"
definition BLOCK_FS :: nat where "BLOCK_FS = 1"
definition BLOCK_SWAP :: nat where "BLOCK_SWAP = 2"
definition BLOCK_COUNT :: nat where "BLOCK_COUNT = 4"

text \<open>The addresses of the lock and of the sector buffer of a device.\<close>

definition block_lock :: "u64 \<Rightarrow> u64" where
  "block_lock b = b + 16"

definition remainder :: "u64 \<Rightarrow> u64" where
  "remainder b = b + 72"

text \<open>The bytes of the literal \<^verbatim>\<open>DunkOS!\<close> and its terminator, read as a number.\<close>

definition DUNKOS_MAGIK :: u64 where
  "DUNKOS_MAGIK = foldr (\<lambda>c w. push_bit 8 w OR of_char c) ''DunkOS!'' 0"

definition disk_lock_init :: "u64 \<Rightarrow> ('a) disk_scheme \<Rightarrow> ('a) disk_scheme" where
  "disk_lock_init l s = s\<lparr>lock_value := (lock_value s)(l := 1)\<rparr>"

definition acquire :: "u64 \<Rightarrow> ('a) disk_scheme \<Rightarrow> ('a) disk_scheme option" where
  "acquire l s = (if lock_value s l = 0 then None else Some (s\<lparr>lock_value := (lock_value s)(l := lock_value s l - 1)\<rparr>))"

definition release :: "u64 \<Rightarrow> ('a) disk_scheme \<Rightarrow> ('a) disk_scheme" where
  "release l s = s\<lparr>lock_value := (lock_value s)(l := lock_value s l + 1)\<rparr>"

text \<open>The heap on the state of the disk.\<close>

definition disk_alloc :: "u64 \<Rightarrow> size_t \<Rightarrow> size_t \<Rightarrow> ('a) disk_scheme \<Rightarrow> (u64 \<times> ('a) disk_scheme) option" where
  "disk_alloc junk nmemb sz s = do {
     (b, v) \<leftarrow> vm_alloc junk nmemb sz (vm.truncate s);
     Some (b, vm.extend v (vm.more s)) }"

definition disk_free :: "u64 \<Rightarrow> ('a) disk_scheme \<Rightarrow> ('a) disk_scheme option" where
  "disk_free p s = do { v \<leftarrow> vm_free p (vm.truncate s); Some (vm.extend v (vm.more s)) }"

lemma disk_free_null [simp]: "disk_free 0 s = Some s"
  by (cases s) (simp add: disk_free_def vm_free_def kfree_def vm.defs heap.defs)

subsection \<open>The disk\<close>

text \<open>Both functions have empty bodies.\<close>

definition ide_read_sectors :: "u32 \<Rightarrow> u32 \<Rightarrow> u64 \<Rightarrow> ('a) disk_scheme \<Rightarrow> ('a) disk_scheme" where
  "ide_read_sectors start sectors dest s = s"

definition ide_write_sectors :: "u32 \<Rightarrow> u32 \<Rightarrow> u64 \<Rightarrow> ('a) disk_scheme \<Rightarrow> ('a) disk_scheme" where
  "ide_write_sectors start sectors src s = s"

subsection \<open>Operations\<close>

definition get_block :: "('a) disk_scheme \<Rightarrow> nat \<Rightarrow> u64" where
  "get_block s role = block_devices s + of_nat role * STRUCT_BLOCK_SIZE"

definition block_get_name :: "('a) disk_scheme \<Rightarrow> u64 \<Rightarrow> u64" where
  "block_get_name s b = block_name (blocks s b)"

definition block_sectors :: "('a) disk_scheme \<Rightarrow> u64 \<Rightarrow> size_t" where
  "block_sectors s b = ucast (sector_count (blocks s b))"

definition init_block :: "nat \<Rightarrow> ('a) disk_scheme \<Rightarrow> ('a) disk_scheme option" where
  "init_block i s = do {
     let b = get_block s i;
     let s = disk_lock_init (block_lock b) s;
     (m, _) \<leftarrow> memset (mem s) (remainder b) 0 BLOCK_SECTOR_SIZE;
     Some (s\<lparr>mem := m\<rparr>) }"

definition set_extent :: "u64 \<Rightarrow> u64 \<Rightarrow> u64 \<Rightarrow> ('a) disk_scheme \<Rightarrow> ('a) disk_scheme" where
  "set_extent b start sz s = s\<lparr>blocks := (blocks s)(b := (blocks s b)\<lparr>start_sector := ucast start, sector_count := ucast sz\<rparr>)\<rparr>"

definition init_block_devices :: "u64 \<Rightarrow> ('a) disk_scheme \<Rightarrow> ('a) disk_scheme option" where
  "init_block_devices junk s = do {
     s \<leftarrow> ofold init_block [0..<BLOCK_COUNT] s;
     (hdr, s) \<leftarrow> disk_alloc junk 1 512 s;
     let s = ide_read_sectors 0 1 hdr s;
     if load64 (mem s) (hdr + 40) \<noteq> DUNKOS_MAGIK then None
     else do {
       let s = set_extent (get_block s BLOCK_FS) (load64 (mem s) (hdr + 8)) (load64 (mem s) (hdr + 16)) s;
       let s = set_extent (get_block s BLOCK_SWAP) (load64 (mem s) (hdr + 24)) (load64 (mem s) (hdr + 32)) s;
       disk_free hdr s } }"

text \<open>The result is signed; the difference is positive.\<close>

definition block_read :: "u64 \<Rightarrow> u64 \<Rightarrow> size_t \<Rightarrow> size_t \<Rightarrow> ('a) disk_scheme \<Rightarrow> (u64 \<times> ('a) disk_scheme) option" where
  "block_read b dest start count s = do {
     s \<leftarrow> acquire (block_lock b) s;
     let sector_start = start_sector (blocks s b) + ucast start;
     let sectors = (ucast (count div BLOCK_SECTOR_SIZE) :: u32);
     let rest = (ucast (count mod BLOCK_SECTOR_SIZE) :: u32);
     let s = ide_read_sectors sector_start sectors dest s;
     let s = (if rest \<noteq> 0
        then (let s = ide_read_sectors (sector_start + sectors) 1 (remainder b) s;
                  (m, _) = memcpy (mem s) (dest + ucast sectors * BLOCK_SECTOR_SIZE) (remainder b) (ucast rest)
              in s\<lparr>mem := m\<rparr>)
        else s);
     Some (BLOCK_SECTOR_SIZE - ucast rest, release (block_lock b) s) }"

definition block_write :: "u64 \<Rightarrow> u64 \<Rightarrow> size_t \<Rightarrow> size_t \<Rightarrow> ('a) disk_scheme \<Rightarrow> (u64 \<times> ('a) disk_scheme) option" where
  "block_write b src start count s = do {
     s \<leftarrow> acquire (block_lock b) s;
     let sector_start = start_sector (blocks s b) + ucast start;
     let sectors = (ucast (count div BLOCK_SECTOR_SIZE) :: u32);
     let rest = (ucast (count mod BLOCK_SECTOR_SIZE) :: u32);
     let s = ide_write_sectors sector_start sectors src s;
     let s = (if rest \<noteq> 0
        then (let (m, _) = memcpy (mem s) (remainder b) (src + ucast sectors * BLOCK_SECTOR_SIZE) (ucast rest);
                  s = s\<lparr>mem := m\<rparr>
              in ide_write_sectors (sector_start + sectors) 1 (remainder b) s)
        else s);
     Some (BLOCK_SECTOR_SIZE - ucast rest, release (block_lock b) s) }"

subsection \<open>Properties\<close>

definition partial :: "size_t \<Rightarrow> nat" where
  "partial count = unat count mod 512"

lemma rest_partial: "unat (ucast (count mod 512 :: size_t) :: u32) = partial count" "ucast (ucast (count mod 512) :: u32) = (count mod 512 :: size_t)"
proof -
  have lt: "unat (count mod 512) < 512" by (simp add: unat_mod)
  then have a: "unat (ucast (count mod 512) :: u32) = unat (count mod 512)"
    by (simp add: unsigned_ucast_eq take_bit_eq_mod)
  then show "unat (ucast (count mod 512 :: size_t) :: u32) = partial count" by (simp add: partial_def unat_mod)
  have "unat (ucast (ucast (count mod 512) :: u32) :: size_t) = unat (count mod 512)"
    using lt by (simp add: unsigned_ucast_eq a take_bit_eq_mod unat_mod)
  then show "ucast (ucast (count mod 512) :: u32) = (count mod 512 :: size_t)" by (simp only: word_unat_eq_iff)
qed

text \<open>What a transfer of \<open>count\<close> bytes does to the bytes of memory.\<close>

lemma block_transfer:
  assumes "lock_value s (block_lock b) \<noteq> 0"
  shows "block_read b p st count s = Some (512 - count mod 512, s\<lparr>mem := (if count mod 512 = 0 then mem s
      else fst (memcpy (mem s) (p + ucast (ucast (count div 512) :: u32) * 512) (remainder b) (count mod 512)))\<rparr>)"
    "block_write b p st count s = Some (512 - count mod 512, s\<lparr>mem := (if count mod 512 = 0 then mem s
      else fst (memcpy (mem s) (remainder b) (p + ucast (ucast (count div 512) :: u32) * 512) (count mod 512)))\<rparr>)"
proof -
  have z: "(ucast (count mod 512 :: size_t) :: u32) = 0 \<longleftrightarrow> count mod 512 = 0"
    using rest_partial(2) [of count] by (metis unsigned_0)
  have u: "(lock_value s)(l := lock_value s l) = lock_value s" for l by simp
  show "block_read b p st count s = Some (512 - count mod 512, s\<lparr>mem := (if count mod 512 = 0 then mem s
      else fst (memcpy (mem s) (p + ucast (ucast (count div 512) :: u32) * 512) (remainder b) (count mod 512)))\<rparr>)"
    "block_write b p st count s = Some (512 - count mod 512, s\<lparr>mem := (if count mod 512 = 0 then mem s
      else fst (memcpy (mem s) (remainder b) (p + ucast (ucast (count div 512) :: u32) * 512) (count mod 512)))\<rparr>)"
    using assms
    by (simp_all add: block_read_def block_write_def acquire_def release_def ide_read_sectors_def ide_write_sectors_def
        BLOCK_SECTOR_SIZE_def z rest_partial(2) Let_def memcpy_def)
qed

text \<open>The result of a transfer of \<open>count\<close> bytes is 512 less the part behind the last whole
  sector: it is the number of bytes that was asked for when that is 256 or 512, and no other.\<close>

theorem block_result_wrong:
  assumes "lock_value s (block_lock b) \<noteq> 0"
  shows "\<exists>n s1 s2. block_read b p st count s = Some (n, s1) \<and> block_write b p st count s = Some (n, s2) \<and>
    unat n = 512 - unat count mod 512 \<and> (n = count \<longleftrightarrow> count = 256 \<or> count = 512)"
proof -
  have le: "count mod 512 \<le> 512" by (simp add: word_le_nat_alt unat_mod)
  have n: "unat (512 - count mod 512) = 512 - unat count mod 512"
    using unat_sub [OF le] by (simp add: unat_mod)
  have "512 - count mod 512 = count \<longleftrightarrow> 512 - unat count mod 512 = unat count"
    using n by (metis word_unat_eq_iff)
  also have "\<dots> \<longleftrightarrow> unat count = 256 \<or> unat count = 512"
  proof (cases "unat count < 512")
    case False
    then show ?thesis by auto
  qed auto
  also have "\<dots> \<longleftrightarrow> count = 256 \<or> count = 512" by (simp add: word_unat_eq_iff)
  finally show ?thesis using n block_transfer [OF assms] by blast
qed

text \<open>Nothing reaches the disk: part of a sector that is written to one sector is what a read of
  as many bytes of any other sector of the device gives back, from the buffer of the device.\<close>

theorem block_write_read_anywhere:
  assumes "lock_value s (block_lock b) \<noteq> 0" "0 < n" "n < 512"
    and "\<forall>a. in_region a (remainder b) (unat n) \<longrightarrow> \<not> in_region a src (unat n)"
    and "\<forall>a. in_region a dst (unat n) \<longrightarrow> \<not> in_region a (remainder b) (unat n)"
  shows "\<exists>s1 s2. block_write b src sector n s = Some (512 - n, s1) \<and> block_read b dst sector' n s1 = Some (512 - n, s2) \<and>
    (\<forall>i < unat n. mem s2 (dst + of_nat i) = mem s (src + of_nat i))"
proof -
  have n: "unat n < 512" "unat n \<noteq> 0" using assms(2,3) by (simp_all add: word_less_nat_alt)
  then have r: "n mod 512 = n" "n div 512 = 0" by (simp_all add: word_unat_eq_iff unat_mod unat_div)
  define m1 where "m1 = fst (memcpy (mem s) (remainder b) src n)"
  define m2 where "m2 = fst (memcpy m1 dst (remainder b) n)"
  have w: "block_write b src sector n s = Some (512 - n, s\<lparr>mem := m1\<rparr>)"
    using block_transfer(2) [OF assms(1), of src sector n] assms(2) by (simp add: r m1_def)
  have d: "block_read b dst sector' n (s\<lparr>mem := m1\<rparr>) = Some (512 - n, s\<lparr>mem := m2\<rparr>)"
    using block_transfer(1) [of "s\<lparr>mem := m1\<rparr>" b dst sector' n] assms(1,2) by (simp add: r m2_def)
  have "m2 (dst + of_nat i) = mem s (src + of_nat i)" if "i < unat n" for i
  proof -
    have i: "unat (of_nat i :: u64) = i" using that u64_unat_bound [of n] by (simp add: unat_of_nat)
    then have "in_region (dst + of_nat i) dst (unat n)" "in_region (remainder b + of_nat i) (remainder b) (unat n)"
      using that by (simp_all add: in_region_def)
    then show ?thesis
      by (simp add: m2_def m1_def memcpy_def memcpy_loop_spec [OF refl assms(5)] memcpy_loop_spec [OF refl assms(4)])
  qed
  then show ?thesis using w d by (intro exI [of _ "s\<lparr>mem := m1\<rparr>"] exI [of _ "s\<lparr>mem := m2\<rparr>"]) simp
qed

lemma heap_inv_mem: "heap_inv U (s\<lparr>mem := m\<rparr>) f = heap_inv U s f" for s :: heap
  by (simp add: heap_inv_def heap_block_def is_arena_def)

lemma init_block_heap:
  "init_block i s = Some s' \<Longrightarrow> \<exists>m. vm.truncate s' = (vm.truncate s)\<lparr>mem := m\<rparr>"
  by (auto simp: init_block_def disk_lock_init_def vm.defs memset_spec Let_def split: bind_splits)

text \<open>The start of the block devices never succeeds: the sector with the image header is not
  read, the buffer from the heap is zero and does not hold the magic number.\<close>

theorem init_block_devices_fails:
  assumes "heap_inv U (heap.truncate (vm.truncate s)) f"
  shows "init_block_devices junk s = None"
proof (cases "ofold init_block [0..<BLOCK_COUNT] s")
  case None
  then show ?thesis by (simp add: init_block_devices_def)
next
  case (Some s1)
  have "\<exists>m. vm.truncate s1 = (vm.truncate s)\<lparr>mem := m\<rparr>"
  proof (rule ofold_inv [OF _ Some, where P = "\<lambda>t. \<exists>m. vm.truncate t = (vm.truncate s)\<lparr>mem := m\<rparr>"])
    show "\<exists>m. vm.truncate t' = (vm.truncate s)\<lparr>mem := m\<rparr>"
      if "\<exists>m. vm.truncate t = (vm.truncate s)\<lparr>mem := m\<rparr>" "init_block i t = Some t'" for i t t'
      using that(1) init_block_heap [OF that(2)] by auto
  qed (auto simp: vm.defs)
  then obtain m where "heap.truncate (vm.truncate s1) = (heap.truncate (vm.truncate s))\<lparr>mem := m\<rparr>"
    by (auto simp: heap.defs)
  then have inv: "heap_inv U (heap.truncate (vm.truncate s1)) f" using assms by (simp add: heap_inv_mem)
  show ?thesis
  proof (cases "disk_alloc junk 1 512 s1")
    case None
    then show ?thesis using Some by (simp add: init_block_devices_def)
  next
    case al: (Some p)
    obtain hdr s2 where p: "p = (hdr, s2)" by (cases p)
    obtain h where h: "kmalloc junk 512 (heap.truncate (vm.truncate s1)) = Some (hdr, h)" "mem s2 = mem h"
      using al p by (auto simp: disk_alloc_def vm_alloc_def kcalloc_def vm.defs heap.defs split: bind_splits)
    obtain d where d: "(512 :: nat) \<le> 2 ^ (d + 3)" "\<forall>x. in_region x hdr (2 ^ (d + 3)) \<longrightarrow> mem h x = 0"
      using kmalloc_fresh [OF inv, of 512 junk] h(1) by auto
    have "load64 (mem s2) (hdr + 40) = 0"
    proof (rule load64_zero)
      fix w :: u64 assume "w < 8"
      then have "unat (40 + w) < 512" by (simp add: word_less_nat_alt unat_word_ariths)
      then have "in_region (hdr + 40 + w) hdr (2 ^ (d + 3))" using d(1) by (simp add: in_region_def add.assoc)
      then show "mem s2 (hdr + 40 + w) = 0" using d(2) h(2) by simp
    qed
    moreover have "DUNKOS_MAGIK \<noteq> 0" by (simp add: DUNKOS_MAGIK_def of_char_def)
    ultimately show ?thesis using Some al p by (simp add: init_block_devices_def ide_read_sectors_def Let_def)
  qed
qed

text \<open>The run of two operations on a free lock, and the start on a fresh heap.\<close>

definition demo_disk :: disk where
  "demo_disk = vm.extend (heap.extend (init_heap demo_heap) (vm.fields 0x400000 0x1000 0x1000))
     (disk.fields (\<lambda>_. \<lparr>block_name = 0, start_sector = 0, sector_count = 0\<rparr>) 0x8000 (\<lambda>_. 1))"

lemma demo_disk_fields:
  "lock_value demo_disk l = 1" "heap.truncate (vm.truncate demo_disk) = init_heap demo_heap" "mem demo_disk = (\<lambda>_. 0xAA)"
  by (simp_all add: demo_disk_def vm.defs heap.defs disk.defs) (simp add: init_heap_def demo_heap_def)

theorem block_result_wrong_witness:
  "\<exists>n s1 s2. block_read 0x8000 0x9000 3 100 demo_disk = Some (n, s1) \<and> block_write 0x8000 0x9000 3 100 demo_disk = Some (n, s2) \<and>
    unat n = 412"
  using block_result_wrong [of demo_disk "0x8000" "0x9000" 3 100] demo_disk_fields by auto

theorem block_write_read_anywhere_witness:
  "\<exists>s1 s2. block_write 0x8000 0x9000 3 8 demo_disk = Some (504, s1) \<and> block_read 0x8000 0xA000 77 8 s1 = Some (504, s2)"
proof -
  have "(0 :: size_t) < 8" "(8 :: size_t) < 512" "unat (8 :: size_t) = 8" by simp_all
  moreover have "\<forall>a. in_region a (remainder 0x8000) 8 \<longrightarrow> \<not> in_region a 0x9000 8"
    using regions_apart [where p = "remainder 0x8000" and n = 8 and q = "0x9000" and k = 8] by (auto simp: remainder_def)
  moreover have "\<forall>a. in_region a 0xA000 8 \<longrightarrow> \<not> in_region a (remainder 0x8000) 8"
    using regions_apart [where p = "remainder 0x8000" and n = 8 and q = "0xA000" and k = 8] by (auto simp: remainder_def)
  ultimately show ?thesis
    using block_write_read_anywhere [of demo_disk "0x8000" 8 "0x9000" "0xA000" 3 77] demo_disk_fields(1) by auto
qed

theorem init_block_devices_fails_witness: "init_block_devices 7 demo_disk = None"
  by (rule init_block_devices_fails [of "{}" _ no_blocks]) (simp add: demo_disk_fields demo_heap_inv)

subsection \<open>Clear blocks\<close>

lemma disk_alloc_clear:
  assumes "heap_inv U (heap.truncate (vm.truncate s)) f" "8 < n * sz" "n * sz \<le> 0x40000"
    and "disk_alloc junk n sz s = Some (b, s')" "in_region x b (unat (n * sz))"
  shows "mem s' x = 0"
proof -
  obtain h where h: "kmalloc junk (n * sz) (heap.truncate (vm.truncate s)) = Some (b, h)" "mem s' = mem h"
    using assms(4) by (auto simp: disk_alloc_def vm_alloc_def kcalloc_def vm.defs heap.defs split: bind_splits)
  obtain d where d: "unat (n * sz) \<le> 2 ^ (d + 3)" "\<forall>x. in_region x b (2 ^ (d + 3)) \<longrightarrow> mem h x = 0"
    using kmalloc_fresh [OF assms(1-3), of junk] h(1) by auto
  then show ?thesis using assms(5) h(2) by (auto simp: in_region_def)
qed

subsection \<open>The contract of the locks\<close>

text \<open>What code between taking and giving back a lock relies on.  The provider is the counter of a lock;
  \<^verbatim>\<open>Syscall\<close> provides the same contract on the whole state of the system.\<close>

locale mutex =
  fixes val :: "'s \<Rightarrow> u64 \<Rightarrow> u64" and acq :: "u64 \<Rightarrow> 's \<Rightarrow> 's option" and rel :: "u64 \<Rightarrow> 's \<Rightarrow> 's"
  assumes acq_waits: "acq l s = None \<longleftrightarrow> val s l = 0"
    and acq_val: "acq l s = Some t \<Longrightarrow> val t = (val s)(l := val s l - 1)"
    and rel_val: "val (rel l s) = (val s)(l := val s l + 1)"
    and rel_acq: "acq l s = Some t \<Longrightarrow> rel l t = s"
begin

lemma empty_section: "val s l \<noteq> 0 \<Longrightarrow> \<exists>t. acq l s = Some t \<and> rel l t = s"
  using acq_waits rel_acq by blast

lemma excludes: "acq l s = Some t \<Longrightarrow> val s l = 1 \<Longrightarrow> acq l t = None"
  by (simp add: acq_waits acq_val)

lemma balanced: "acq l s = Some t \<Longrightarrow> val u = val t \<Longrightarrow> val (rel l u) = val s"
  using acq_val rel_val by (auto simp: fun_eq_iff)

end

interpretation dl: mutex "lock_value :: ('a) disk_scheme \<Rightarrow> u64 \<Rightarrow> u64" acquire release
  by unfold_locales (auto simp: acquire_def release_def split: if_splits)

end
