(* ===== verification/Hashtable.thy ===== *)
theory Hashtable
  imports Klist
begin

section \<open>The hash table (util/hashtable.c)\<close>

text \<open>
  Model of \<^verbatim>\<open>kern/lib/util/hashtable.c\<close> and \<^verbatim>\<open>include/kern/util/hashtable.h\<close>.  A table is an
  array of lists of the intrusive list memory; the hash function and the identity are
  the two function pointers of the structure, here functions of the element's address.
  \<^verbatim>\<open>fn(e) % buckets\<close> with no buckets is a division fault.  The bucket array is allocated by
  \<^verbatim>\<open>kcalloc\<close>; its lists are the argument \<open>con\<close> of \<^verbatim>\<open>hashtable_init\<close>.
\<close>

subsection \<open>Table and operations\<close>

record ('l, 'e) hashtable =
  buckets :: size_t
  entries :: size_t
  bucket_con :: "size_t \<Rightarrow> 'l"
  fn :: "('l, 'e) ptr \<Rightarrow> size_t"
  eq :: "('l, 'e) ptr \<Rightarrow> ('l, 'e) ptr \<Rightarrow> bool"

definition INIT_BUCKETS :: size_t where
  "INIT_BUCKETS = 10"

function init_loop :: "size_t \<Rightarrow> (size_t \<Rightarrow> 'l) \<Rightarrow> ('l, 'e) lheap \<Rightarrow> ('l, 'e) lheap" where
  "init_loop i con h = (if i < INIT_BUCKETS then init_loop (i + 1) con (list_init h (con i)) else h)"
  by auto
termination by (relation "measure (\<lambda>(i, _). unat (INIT_BUCKETS - i))")
  (auto simp: INIT_BUCKETS_def word_less_nat_alt unat_sub word_le_nat_alt unat_plus_one)

definition hashtable_init ::
  "('l, 'e) lheap \<Rightarrow> (size_t \<Rightarrow> 'l) \<Rightarrow> (('l, 'e) ptr \<Rightarrow> size_t) \<Rightarrow> (('l, 'e) ptr \<Rightarrow> ('l, 'e) ptr \<Rightarrow> bool)
     \<Rightarrow> ('l, 'e) hashtable \<times> ('l, 'e) lheap" where
  "hashtable_init h con f ident =
     (\<lparr>buckets = INIT_BUCKETS, entries = 0, bucket_con = con, fn = f, eq = ident\<rparr>, init_loop 0 con h)"

definition hashtable_get_buckets :: "('l, 'e) hashtable \<Rightarrow> size_t" where
  "hashtable_get_buckets t = buckets t"

definition hashtable_size :: "('l, 'e) hashtable \<Rightarrow> size_t" where
  "hashtable_size t = entries t"

definition bucket_of :: "('l, 'e) hashtable \<Rightarrow> ('l, 'e) ptr \<Rightarrow> 'l option" where
  "bucket_of t e = (if buckets t = 0 then None else Some (bucket_con t (fn t e mod buckets t)))"

text \<open>The walk through a bucket that \<^verbatim>\<open>find\<close>, \<^verbatim>\<open>insert\<close> and \<^verbatim>\<open>remove\<close> share.\<close>

partial_function (option) find_loop ::
  "('l, 'e) lheap \<Rightarrow> 'l \<Rightarrow> (('l, 'e) ptr \<Rightarrow> bool) \<Rightarrow> ('l, 'e) ptr \<Rightarrow> ('l, 'e) ptr option" where
  "find_loop h bucket same b_el =
     (if b_el \<noteq> list_end bucket \<and> \<not> same b_el
      then do { ne \<leftarrow> list_next h b_el; find_loop h bucket same ne }
      else Some b_el)"

definition hashtable_find ::
  "('l, 'e) hashtable \<Rightarrow> ('l, 'e) lheap \<Rightarrow> ('l, 'e) ptr \<Rightarrow> ('l, 'e) ptr option" where
  "hashtable_find t h e = do {
     bucket \<leftarrow> bucket_of t e;
     b_el \<leftarrow> find_loop h bucket (eq t e) (list_begin h bucket);
     Some (if b_el = list_end bucket then NULL else b_el) }"

definition hashtable_insert ::
  "('l, 'e) hashtable \<Rightarrow> ('l, 'e) lheap \<Rightarrow> ('l, 'e) ptr \<Rightarrow> (('l, 'e) hashtable \<times> ('l, 'e) lheap) option" where
  "hashtable_insert t h e = do {
     bucket \<leftarrow> bucket_of t e;
     b_el \<leftarrow> find_loop h bucket (eq t e) (list_begin h bucket);
     if b_el = list_end bucket
     then do {
       h \<leftarrow> list_push_back h bucket e;
       Some (t\<lparr>entries := entries t + 1\<rparr>, h) }
     else do {
       h \<leftarrow> list_remove h bucket b_el;
       h \<leftarrow> list_push_back h bucket e;
       Some (t, h) } }"

definition hashtable_remove ::
  "('l, 'e) hashtable \<Rightarrow> ('l, 'e) lheap \<Rightarrow> ('l, 'e) ptr \<Rightarrow> ('l, 'e) lheap option" where
  "hashtable_remove t h e = do {
     bucket \<leftarrow> bucket_of t e;
     b_el \<leftarrow> find_loop h bucket (eq t e) (list_begin h bucket);
     if b_el \<noteq> list_end bucket then list_remove h bucket b_el else Some h }"

text \<open>
  \<^verbatim>\<open>hashtable_foreach\<close> runs an action on a state that holds the list memory; a null
  \<^verbatim>\<open>aux\<close> is replaced by the bucket that is walked.
\<close>

function foreach_bucket ::
  "('s \<Rightarrow> ('l, 'e) lheap) \<Rightarrow> ('l, 'e) hashtable \<Rightarrow> (('l, 'e) ptr \<Rightarrow> 'l + 'a \<Rightarrow> 's \<Rightarrow> 's option)
     \<Rightarrow> 'a option \<Rightarrow> size_t \<Rightarrow> 's \<Rightarrow> 's option" where
  "foreach_bucket hp t action aux b s =
     (if b < buckets t
      then do {
        let bucket = bucket_con t b;
        s \<leftarrow> foreach_loop hp (\<lambda>el. action el (case aux of None \<Rightarrow> Inl bucket | Some a \<Rightarrow> Inr a)) bucket
              (list_begin (hp s) bucket) s;
        foreach_bucket hp t action aux (b + 1) s }
      else Some s)"
  by auto
termination by (relation "measure (\<lambda>(_, t, _, _, b, _). unat (buckets t) - unat b)")
  (auto simp: unat_plus_one word_less_nat_alt)

declare init_loop.simps [simp del] foreach_bucket.simps [simp del]

definition hashtable_foreach ::
  "('s \<Rightarrow> ('l, 'e) lheap) \<Rightarrow> ('l, 'e) hashtable \<Rightarrow> (('l, 'e) ptr \<Rightarrow> 'l + 'a \<Rightarrow> 's \<Rightarrow> 's option)
     \<Rightarrow> 'a option \<Rightarrow> 's \<Rightarrow> 's option" where
  "hashtable_foreach hp t action aux s = foreach_bucket hp t action aux 0 s"

text \<open>\<^verbatim>\<open>free\<close> stands for the release of the bucket array by \<^verbatim>\<open>kfree\<close>.\<close>

definition hashtable_destroy ::
  "('s \<Rightarrow> ('l, 'e) lheap) \<Rightarrow> ((size_t \<Rightarrow> 'l) \<Rightarrow> 's \<Rightarrow> 's option) \<Rightarrow> ('l, 'e) hashtable
     \<Rightarrow> (('l, 'e) ptr \<Rightarrow> 'l + 'a \<Rightarrow> 's \<Rightarrow> 's option) \<Rightarrow> 'a option \<Rightarrow> 's \<Rightarrow> 's option" where
  "hashtable_destroy hp free t destructor aux s = do {
     s \<leftarrow> hashtable_foreach hp t destructor aux s;
     free (bucket_con t) s }"

subsection \<open>What a table holds\<close>

definition same_key :: "('l, 'e) hashtable \<Rightarrow> 'e \<Rightarrow> 'e \<Rightarrow> bool" where
  "same_key t x y \<longleftrightarrow> eq t (Elem x) (Elem y)"

text \<open>The identity is an equivalence that the hash function respects.\<close>

definition good_keys :: "('l, 'e) hashtable \<Rightarrow> bool" where
  "good_keys t \<longleftrightarrow> equivp (same_key t) \<and> (\<forall>x y. same_key t x y \<longrightarrow> fn t (Elem x) = fn t (Elem y))"

definition slot :: "('l, 'e) hashtable \<Rightarrow> 'e \<Rightarrow> 'l" where
  "slot t x = bucket_con t (fn t (Elem x) mod buckets t)"

text \<open>
  \<open>table_rep t h f\<close>: the buckets are the lists of \<open>f\<close>, every element sits in the bucket of its
  hash value and no two elements have the same key.
\<close>

definition table_rep :: "('l, 'e) hashtable \<Rightarrow> ('l, 'e) lheap \<Rightarrow> ('l \<rightharpoonup> 'e list) \<Rightarrow> bool" where
  "table_rep t h f \<longleftrightarrow> lists_rep h f \<and> buckets t \<noteq> 0 \<and> good_keys t \<and> dom f = bucket_con t ` {..<buckets t} \<and>
     (\<forall>l xs. f l = Some xs \<longrightarrow> (\<forall>x \<in> set xs. slot t x = l)) \<and>
     (\<forall>x \<in> linked f. \<forall>y \<in> linked f. same_key t x y \<longrightarrow> x = y)"

lemma find_loop_rep:
  assumes "list_rep h l (us @ ys)"
  shows "find_loop h l same (case ys of [] \<Rightarrow> Tail l | y # _ \<Rightarrow> Elem y)
    = Some (case dropWhile (\<lambda>x. \<not> same (Elem x)) ys of [] \<Rightarrow> Tail l | y # _ \<Rightarrow> Elem y)"
  using assms
proof (induction ys arbitrary: us)
  case Nil
  show ?case by (simp add: find_loop.simps list_end_def)
next
  case (Cons y ys)
  have nx: "list_next h (Elem y) = Some (case ys of [] \<Rightarrow> Tail l | y # _ \<Rightarrow> Elem y)"
    using list_rep_next [OF Cons.prems] .
  show ?case
  proof (cases "same (Elem y)")
    case False
    with nx Cons.IH [of "us @ [y]"] Cons.prems show ?thesis
      by (subst find_loop.simps) (simp add: list_end_def)
  next
    case True
    then show ?thesis by (subst find_loop.simps) simp
  qed
qed

lemma find_loop_begin:
  "list_rep h l ys \<Longrightarrow> find_loop h l same (list_begin h l)
    = Some (case dropWhile (\<lambda>x. \<not> same (Elem x)) ys of [] \<Rightarrow> Tail l | y # _ \<Rightarrow> Elem y)"
  using find_loop_rep [of h l "[]" ys same] by (simp add: list_rep_begin)

lemma table_bucket:
  assumes "table_rep t h f"
  obtains xs where "bucket_of t (Elem e) = Some (slot t e)" "f (slot t e) = Some xs"
    "list_rep h (slot t e) xs"
proof -
  have t: "lists_rep h f" "buckets t \<noteq> 0" "dom f = bucket_con t ` {..<buckets t}"
    using assms unfolding table_rep_def by blast+
  have "fn t (Elem e) mod buckets t < buckets t"
    using t(2) by (simp add: word_mod_less_divisor word_neq_0_conv)
  then have "slot t e \<in> dom f" unfolding t(3) slot_def by blast
  then obtain xs where xs: "f (slot t e) = Some xs" by blast
  moreover have "bucket_of t (Elem e) = Some (slot t e)"
    using t(2) by (simp add: bucket_of_def slot_def)
  ultimately show ?thesis using that lists_repD [OF t(1)] by blast
qed

lemma dropWhile_first:
  "dropWhile P xs = y # ys \<Longrightarrow> \<exists>us. xs = us @ y # ys \<and> \<not> P y"
  by (metis dropWhile_eq_Cons_conv takeWhile_dropWhile_id)

text \<open>A walk from the bucket's begin stops at the stored element with the key, or at the end.\<close>

lemma table_walk:
  assumes rep: "table_rep t h f"
  obtains xs us x ys where "bucket_of t (Elem e) = Some (slot t e)" "f (slot t e) = Some xs" "xs = us @ x # ys"
      "find_loop h (slot t e) (eq t (Elem e)) (list_begin h (slot t e)) = Some (Elem x)" "same_key t e x" "x \<in> linked f"
  | xs where "bucket_of t (Elem e) = Some (slot t e)" "f (slot t e) = Some xs"
      "find_loop h (slot t e) (eq t (Elem e)) (list_begin h (slot t e)) = Some (Tail (slot t e))"
      "\<forall>x \<in> linked f. \<not> same_key t e x"
proof -
  obtain xs where xs: "bucket_of t (Elem e) = Some (slot t e)" "f (slot t e) = Some xs" "list_rep h (slot t e) xs"
    using table_bucket [OF rep] .
  note walk = find_loop_begin [OF xs(3), of "eq t (Elem e)"]
  show ?thesis
  proof (cases "dropWhile (\<lambda>x. \<not> eq t (Elem e) (Elem x)) xs")
    case Nil
    have "\<not> same_key t e x" if "x \<in> linked f" for x
    proof
      assume same: "same_key t e x"
      from that obtain l zs where z: "f l = Some zs" "x \<in> set zs" by (auto simp: linked_iff)
      then have "slot t x = l" using rep unfolding table_rep_def by blast
      moreover have "fn t (Elem e) = fn t (Elem x)" using rep same unfolding table_rep_def good_keys_def by blast
      ultimately have "l = slot t e" by (simp add: slot_def)
      then have "x \<in> set xs" using z xs(2) by simp
      then show False using Nil same by (auto simp: dropWhile_eq_Nil_conv same_key_def)
    qed
    with that(2) xs walk Nil show ?thesis by simp
  next
    case (Cons x ys)
    then obtain us where "xs = us @ x # ys" "same_key t e x" using dropWhile_first by (fastforce simp: same_key_def)
    with that(1) xs walk Cons show ?thesis by (fastforce simp: linked_iff)
  qed
qed

subsection \<open>The operations on a table\<close>

lemma same_key_sym: "table_rep t h f \<Longrightarrow> same_key t x y \<Longrightarrow> same_key t y x"
  unfolding table_rep_def good_keys_def by (meson equivp_symp)

lemma same_key_trans: "table_rep t h f \<Longrightarrow> same_key t x y \<Longrightarrow> same_key t y z \<Longrightarrow> same_key t x z"
  unfolding table_rep_def good_keys_def by (meson equivp_transp)

lemma same_key_refl: "table_rep t h f \<Longrightarrow> same_key t x x"
  unfolding table_rep_def good_keys_def by (meson equivp_reflp)

lemma table_unique:
  "table_rep t h f \<Longrightarrow> x \<in> linked f \<Longrightarrow> y \<in> linked f \<Longrightarrow> same_key t e x \<Longrightarrow> same_key t e y \<Longrightarrow> x = y"
  by (metis same_key_sym same_key_trans table_rep_def)

lemma hashtable_find_spec:
  assumes rep: "table_rep t h f"
  shows "x \<in> linked f \<Longrightarrow> same_key t e x \<Longrightarrow> hashtable_find t h (Elem e) = Some (Elem x)"
    and "\<forall>x \<in> linked f. \<not> same_key t e x \<Longrightarrow> hashtable_find t h (Elem e) = Some NULL"
proof -
  show "hashtable_find t h (Elem e) = Some (Elem x)" if x: "x \<in> linked f" "same_key t e x"
    using rep
  proof (cases rule: table_walk [where e = e])
    case (1 xs us y ys)
    then have "y = x" using table_unique [OF rep] x by blast
    with 1 show ?thesis by (simp add: hashtable_find_def list_end_def)
  next
    case 2
    with x show ?thesis by blast
  qed
  show "hashtable_find t h (Elem e) = Some NULL" if no: "\<forall>x \<in> linked f. \<not> same_key t e x"
    using rep
  proof (cases rule: table_walk [where e = e])
    case (1 xs us y ys)
    with no show ?thesis by blast
  next
    case 2
    then show ?thesis by (simp add: hashtable_find_def list_end_def)
  qed
qed

text \<open>A bucket's contents change to a part of them and, perhaps, a new element of the bucket.\<close>

lemma table_rep_upd:
  assumes rep: "table_rep t h f" and new: "lists_rep h' (f(l \<mapsto> zs))" and l: "f l = Some xs"
    and zs: "\<forall>z \<in> set zs. slot t z = l"
    and uniq: "\<forall>x \<in> linked (f(l \<mapsto> zs)). \<forall>y \<in> linked (f(l \<mapsto> zs)). same_key t x y \<longrightarrow> x = y"
    and t': "buckets t' = buckets t" "bucket_con t' = bucket_con t" "fn t' = fn t" "eq t' = eq t"
  shows "table_rep t' h' (f(l \<mapsto> zs))"
proof -
  have k: "slot t' = slot t" "same_key t' = same_key t"
    using t' by (simp_all add: slot_def same_key_def fun_eq_iff)
  then have g: "good_keys t' = good_keys t" using t' by (simp add: good_keys_def)
  have d: "dom (f(l \<mapsto> zs)) = dom f" using l by auto
  have s: "\<forall>x \<in> set ys. slot t x = k" if "(f(l \<mapsto> zs)) k = Some ys" for k ys
  proof (cases "k = l")
    case True
    with that zs show ?thesis by simp
  next
    case False
    with that rep show ?thesis unfolding table_rep_def by simp
  qed
  have b: "buckets t \<noteq> 0" "good_keys t" "dom f = bucket_con t ` {..<buckets t}"
    using rep unfolding table_rep_def by blast+
  show ?thesis unfolding table_rep_def k g t' d using new uniq b s by (intro conjI allI impI) assumption+
qed

lemma hashtable_remove_spec:
  assumes rep: "table_rep t h f"
  shows "\<exists>h' f'. hashtable_remove t h (Elem e) = Some h' \<and> table_rep t h' f' \<and>
    linked f' = {x \<in> linked f. \<not> same_key t e x}"
  using rep
proof (cases rule: table_walk [where e = e])
  case (1 xs us x ys)
  have lr: "lists_rep h f" using rep unfolding table_rep_def by blast
  let ?f = "f(slot t e \<mapsto> us @ ys)"
  obtain h' where h': "list_remove h (slot t e) (Elem x) = Some h'" "lists_rep h' ?f"
    using lists_remove [OF lr] 1 by blast
  have "distinct xs" using kl.dist [OF lr] 1 by blast
  have sub: "set xs \<subseteq> linked f" using 1(2) by (rule linked_sub)
  have lk: "linked ?f = linked f - {x}"
    unfolding linked_upd [OF lr 1(2)] using sub \<open>distinct xs\<close> 1(3) by auto
  have "table_rep t h' ?f"
  proof (rule table_rep_upd [OF rep h'(2) 1(2)])
    show "\<forall>z \<in> set (us @ ys). slot t z = slot t e"
      using rep 1(2,3) unfolding table_rep_def by (metis Un_iff set_append set_subset_Cons subsetD)
    show "\<forall>x \<in> linked ?f. \<forall>y \<in> linked ?f. same_key t x y \<longrightarrow> x = y"
      using rep unfolding lk table_rep_def by blast
  qed simp_all
  moreover have "linked ?f = {x \<in> linked f. \<not> same_key t e x}"
    using lk 1(5,6) table_unique [OF rep] by blast
  moreover have "hashtable_remove t h (Elem e) = Some h'"
    using 1 h' by (simp add: hashtable_remove_def list_end_def)
  ultimately show ?thesis by blast
next
  case (2 xs)
  then have "hashtable_remove t h (Elem e) = Some h" by (simp add: hashtable_remove_def list_end_def)
  with rep 2(4) show ?thesis by blast
qed

text \<open>An element in no bucket, whose key is new, is added at the end of its bucket.\<close>

lemma table_push:
  assumes rep: "table_rep t h f" and f: "f (slot t e) = Some xs" and e: "e \<notin> linked f"
    and new: "\<forall>x \<in> linked f. \<not> same_key t e x" and room: "Suc (length xs) < 18446744073709551616"
    and t': "buckets t' = buckets t" "bucket_con t' = bucket_con t" "fn t' = fn t" "eq t' = eq t"
  shows "\<exists>h' f'. list_push_back h (slot t e) (Elem e) = Some h' \<and> table_rep t' h' f' \<and> linked f' = insert e (linked f)"
proof -
  have lr: "lists_rep h f" using rep unfolding table_rep_def by blast
  let ?f = "f(slot t e \<mapsto> xs @ [e])"
  obtain h' where h': "list_push_back h (slot t e) (Elem e) = Some h'" "lists_rep h' ?f"
    using lists_push_back [OF lr f e room] by blast
  have lk: "linked ?f = insert e (linked f)"
    unfolding linked_upd [OF lr f] using f by (auto simp: linked_iff)
  have "table_rep t' h' ?f"
  proof (rule table_rep_upd [OF rep h'(2) f _ _ t'])
    show "\<forall>z \<in> set (xs @ [e]). slot t z = slot t e"
      using rep f unfolding table_rep_def by auto
    show "\<forall>x \<in> linked ?f. \<forall>y \<in> linked ?f. same_key t x y \<longrightarrow> x = y"
      unfolding lk using rep new same_key_sym [OF rep] unfolding table_rep_def by blast
  qed
  with h' lk show ?thesis by blast
qed

lemma hashtable_insert_spec:
  assumes rep: "table_rep t h f" and e: "e \<notin> linked f"
    and room: "\<And>l xs. f l = Some xs \<Longrightarrow> Suc (length xs) < 18446744073709551616"
  shows "\<exists>t' h' f'. hashtable_insert t h (Elem e) = Some (t', h') \<and> table_rep t' h' f' \<and>
    linked f' = insert e {x \<in> linked f. \<not> same_key t e x} \<and> eq t' = eq t \<and>
    entries t' = (if \<exists>x \<in> linked f. same_key t e x then entries t else entries t + 1)"
  using rep
proof (cases rule: table_walk [where e = e])
  case (1 xs us x ys)
  obtain h1 f1 where r: "hashtable_remove t h (Elem e) = Some h1" "table_rep t h1 f1"
      "linked f1 = {x \<in> linked f. \<not> same_key t e x}"
    using hashtable_remove_spec [OF rep] by blast
  have h1: "list_remove h (slot t e) (Elem x) = Some h1"
    using r(1) 1 by (simp add: hashtable_remove_def list_end_def)
  obtain zs where zs: "f1 (slot t e) = Some zs" "list_rep h1 (slot t e) zs" using table_bucket [OF r(2)] .
  have lr: "lists_rep h f" using rep unfolding table_rep_def by blast
  obtain h2 where "list_remove h (slot t e) (Elem x) = Some h2" "list_rep h2 (slot t e) (us @ ys)"
    using remove_rep [of h "slot t e" us x ys] lists_repD [OF lr 1(2)] 1(3) by blast
  then have "list_rep h1 (slot t e) (us @ ys)" using h1 by simp
  then have "length zs = length (us @ ys)" using zs(2) by (metis list_rep_def)
  then have rm: "Suc (length zs) < 18446744073709551616" using room [OF 1(2)] 1(3) by simp
  have e1: "e \<notin> linked f1" "\<forall>x \<in> linked f1. \<not> same_key t e x" unfolding r(3) using e by blast+
  obtain h' f' where h': "list_push_back h1 (slot t e) (Elem e) = Some h'" "table_rep t h' f'"
      "linked f' = insert e (linked f1)"
    using table_push [OF r(2) zs(1) e1 rm refl refl refl refl] by blast
  have "hashtable_insert t h (Elem e) = Some (t, h')"
    using 1(1,4) h1 h'(1) by (simp add: hashtable_insert_def list_end_def)
  moreover have ex: "(\<exists>x \<in> linked f. same_key t e x) = True" using 1(5,6) by blast
  ultimately show ?thesis unfolding ex using h'(2,3) r(3) by auto
next
  case (2 xs)
  obtain h' f' where h': "list_push_back h (slot t e) (Elem e) = Some h'" "table_rep (t\<lparr>entries := entries t + 1\<rparr>) h' f'"
      "linked f' = insert e (linked f)"
    using table_push [OF rep 2(2) e 2(4) room [OF 2(2)], of "t\<lparr>entries := entries t + 1\<rparr>"] by auto
  have "hashtable_insert t h (Elem e) = Some (t\<lparr>entries := entries t + 1\<rparr>, h')"
    using 2(1,3) h'(1) by (simp add: hashtable_insert_def list_end_def)
  moreover have "linked f' = insert e {x \<in> linked f. \<not> same_key t e x}" using h'(3) 2(4) by blast
  moreover have ex: "(\<exists>x \<in> linked f. same_key t e x) = False" using 2(4) by blast
  ultimately show ?thesis unfolding ex using h'(2) by auto
qed

subsection \<open>The table as a store of keyed elements\<close>

text \<open>
  The contract of a keyed store: looking up a key gives the stored element that has it, and
  putting or deleting changes the answer for that key only.
\<close>

locale key_store =
  fixes rep :: "'s \<Rightarrow> 'e set \<Rightarrow> bool"
    and same :: "'s \<Rightarrow> 'e \<Rightarrow> 'e \<Rightarrow> bool"
    and lookup :: "'s \<Rightarrow> 'e \<Rightarrow> 'e option option"
    and put :: "'s \<Rightarrow> 'e \<Rightarrow> 's option"
    and del :: "'s \<Rightarrow> 'e \<Rightarrow> 's option"
    and room :: "nat \<Rightarrow> bool"
  assumes lookup_in: "rep s M \<Longrightarrow> x \<in> M \<Longrightarrow> same s k x \<Longrightarrow> lookup s k = Some (Some x)"
    and lookup_out: "rep s M \<Longrightarrow> \<forall>x \<in> M. \<not> same s k x \<Longrightarrow> lookup s k = Some None"
    and put: "rep s M \<Longrightarrow> e \<notin> M \<Longrightarrow> room (Suc (card M)) \<Longrightarrow>
      \<exists>s'. put s e = Some s' \<and> rep s' (insert e {x \<in> M. \<not> same s e x}) \<and> same s' = same s"
    and del: "rep s M \<Longrightarrow> \<exists>s'. del s e = Some s' \<and> rep s' {x \<in> M. \<not> same s e x} \<and> same s' = same s"
    and equiv: "rep s M \<Longrightarrow> equivp (same s)"
    and fin: "rep s M \<Longrightarrow> finite M"
    and room_mono: "room n \<Longrightarrow> m \<le> n \<Longrightarrow> room m"
begin

lemma lookup_put:
  assumes "rep s M" "e \<notin> M" "room (Suc (card M))"
  shows "\<exists>s'. put s e = Some s' \<and> rep s' (insert e {x \<in> M. \<not> same s e x}) \<and> same s' = same s \<and>
    (\<forall>k. lookup s' k = (if same s k e then Some (Some e) else lookup s k))"
proof -
  obtain s' where s': "put s e = Some s'" "rep s' (insert e {x \<in> M. \<not> same s e x})" "same s' = same s"
    using put [OF assms] by blast
  note eq = equivp_reflp [OF equiv [OF assms(1)]] equivp_symp [OF equiv [OF assms(1)]]
    equivp_transp [OF equiv [OF assms(1)]]
  have "lookup s' k = (if same s k e then Some (Some e) else lookup s k)" for k
  proof (cases "same s k e")
    case True
    with lookup_in [OF s'(2), of e k] s'(3) show ?thesis by simp
  next
    case k: False
    show ?thesis
    proof (cases "\<exists>x \<in> M. same s k x")
      case True
      then obtain x where x: "x \<in> M" "same s k x" by blast
      then have "\<not> same s e x" using k eq by blast
      then show ?thesis
        using lookup_in [OF s'(2), of x k] lookup_in [OF assms(1) x] x k s'(3) by simp
    next
      case False
      then show ?thesis
        using lookup_out [OF s'(2), of k] lookup_out [OF assms(1), of k] k s'(3) by simp
    qed
  qed
  with s' show ?thesis by blast
qed

lemma lookup_del:
  assumes "rep s M"
  shows "\<exists>s'. del s e = Some s' \<and> rep s' {x \<in> M. \<not> same s e x} \<and> same s' = same s \<and>
    (\<forall>k. lookup s' k = (if same s k e then Some None else lookup s k))"
proof -
  obtain s' where s': "del s e = Some s'" "rep s' {x \<in> M. \<not> same s e x}" "same s' = same s"
    using del [OF assms] by blast
  note eq = equivp_reflp [OF equiv [OF assms(1)]] equivp_symp [OF equiv [OF assms(1)]]
    equivp_transp [OF equiv [OF assms(1)]]
  have "lookup s' k = (if same s k e then Some None else lookup s k)" for k
  proof (cases "\<exists>x \<in> M. same s k x \<and> \<not> same s e x")
    case True
    then obtain x where x: "x \<in> M" "same s k x" "\<not> same s e x" by blast
    then have "\<not> same s k e" using eq by blast
    then show ?thesis
      using lookup_in [OF s'(2), of x k] lookup_in [OF assms(1) x(1,2)] x s'(3) by simp
  next
    case no: False
    then have out: "lookup s' k = Some None" using lookup_out [OF s'(2), of k] s'(3) by auto
    show ?thesis
    proof (cases "same s k e")
      case False
      then have "\<forall>x \<in> M. \<not> same s k x" using no eq by blast
      with out False show ?thesis using lookup_out [OF assms(1)] by simp
    qed (simp add: out)
  qed
  with s' show ?thesis by blast
qed

text \<open>Elements with different keys that are put one after the other are all found.\<close>

lemma lookup_put_all:
  assumes "rep s M" "set es \<inter> M = {}" "sorted_wrt (\<lambda>x y. \<not> same s x y) es" "room (card M + length es)"
  shows "\<exists>s' M'. ofold (\<lambda>e s. put s e) es s = Some s' \<and> rep s' M' \<and>
    (\<forall>e \<in> set es. lookup s' e = Some (Some e)) \<and>
    (\<forall>k. (\<forall>e \<in> set es. \<not> same s k e) \<longrightarrow> lookup s' k = lookup s k)"
  using assms
proof (induction es arbitrary: s M)
  case Nil
  then show ?case by auto
next
  case (Cons e es)
  have rm: "room (Suc (card M))" by (rule room_mono [OF Cons.prems(4)]) simp
  obtain s1 where s1: "put s e = Some s1" "rep s1 (insert e {x \<in> M. \<not> same s e x})" "same s1 = same s"
    "\<And>k. lookup s1 k = (if same s k e then Some (Some e) else lookup s k)"
    using lookup_put [OF Cons.prems(1) _ rm, of e] Cons.prems(2) by auto
  note eq = equivp_reflp [OF equiv [OF Cons.prems(1)]] equivp_symp [OF equiv [OF Cons.prems(1)]]
  have "e \<notin> set es" using Cons.prems(3) eq(1) by auto
  then have "set es \<inter> insert e {x \<in> M. \<not> same s e x} = {}" using Cons.prems(2) by auto
  moreover have "card {x \<in> M. \<not> same s e x} \<le> card M"
    using fin [OF Cons.prems(1)] by (rule card_mono) blast
  then have "card (insert e {x \<in> M. \<not> same s e x}) \<le> Suc (card M)"
    using fin [OF Cons.prems(1)] by (simp add: card_insert_if)
  then have "room (card (insert e {x \<in> M. \<not> same s e x}) + length es)"
    by (intro room_mono [OF Cons.prems(4)]) simp
  ultimately obtain s' M' where s': "ofold (\<lambda>e s. put s e) es s1 = Some s'" "rep s' M'"
      "\<forall>e \<in> set es. lookup s' e = Some (Some e)"
      "\<forall>k. (\<forall>e \<in> set es. \<not> same s k e) \<longrightarrow> lookup s' k = lookup s1 k"
    using Cons.IH [OF s1(2)] Cons.prems(3) s1(3) by auto
  have "\<forall>x \<in> set es. \<not> same s e x" using Cons.prems(3) by simp
  then have "lookup s' e = Some (Some e)" using s'(4) s1(4) eq(1) by simp
  with s' s1 show ?case by (intro exI [of _ s'] exI [of _ M']) auto
qed

end

definition store_rep :: "('l, 'e) hashtable \<times> ('l, 'e) lheap \<Rightarrow> 'e set \<Rightarrow> bool" where
  "store_rep s M \<longleftrightarrow> (\<exists>f. table_rep (fst s) (snd s) f \<and> linked f = M)"

definition store_lookup :: "('l, 'e) hashtable \<times> ('l, 'e) lheap \<Rightarrow> 'e \<Rightarrow> 'e option option" where
  "store_lookup s k = map_option elem_value (hashtable_find (fst s) (snd s) (Elem k))"

definition store_put ::
  "('l, 'e) hashtable \<times> ('l, 'e) lheap \<Rightarrow> 'e \<Rightarrow> (('l, 'e) hashtable \<times> ('l, 'e) lheap) option" where
  "store_put s e = hashtable_insert (fst s) (snd s) (Elem e)"

definition store_del ::
  "('l, 'e) hashtable \<times> ('l, 'e) lheap \<Rightarrow> 'e \<Rightarrow> (('l, 'e) hashtable \<times> ('l, 'e) lheap) option" where
  "store_del s e = map_option (Pair (fst s)) (hashtable_remove (fst s) (snd s) (Elem e))"

lemma table_finite: "table_rep t h f \<Longrightarrow> finite (linked f)"
  unfolding table_rep_def linked_def by (metis List.finite_set finite_UN finite_imageI finite_ran finite)

lemma bucket_card:
  assumes "table_rep t h f" "f l = Some xs"
  shows "length xs \<le> card (linked f)"
proof -
  have "lists_rep h f" using assms(1) unfolding table_rep_def by blast
  then have "distinct xs" using assms(2) by (rule kl.dist)
  then show ?thesis
    using card_mono [OF table_finite [OF assms(1)] linked_sub [of f l xs, OF assms(2)]] by (simp add: distinct_card)
qed

interpretation ht: key_store store_rep "\<lambda>s. same_key (fst s)" store_lookup store_put store_del
  "\<lambda>n. n < 18446744073709551616"
proof unfold_locales
  fix s :: "('l, 'e) hashtable \<times> ('l, 'e) lheap" and M x k
  assume a: "store_rep s M" "x \<in> M" "same_key (fst s) k x"
  then obtain f where f: "table_rep (fst s) (snd s) f" "linked f = M" unfolding store_rep_def by blast
  from hashtable_find_spec(1) [OF f(1), of x k] a f(2)
  show "store_lookup s k = Some (Some x)" by (simp add: store_lookup_def)
next
  fix s :: "('l, 'e) hashtable \<times> ('l, 'e) lheap" and M k
  assume a: "store_rep s M" "\<forall>x \<in> M. \<not> same_key (fst s) k x"
  then obtain f where f: "table_rep (fst s) (snd s) f" "linked f = M" unfolding store_rep_def by blast
  from hashtable_find_spec(2) [OF f(1), of k] a f(2)
  show "store_lookup s k = Some None" by (simp add: store_lookup_def)
next
  fix s :: "('l, 'e) hashtable \<times> ('l, 'e) lheap" and M e
  assume a: "store_rep s M" "e \<notin> M" "Suc (card M) < 18446744073709551616"
  then obtain f where f: "table_rep (fst s) (snd s) f" "linked f = M" unfolding store_rep_def by blast
  have rm: "Suc (length xs) < 18446744073709551616" if "f l = Some xs" for l xs
    using bucket_card [OF f(1) that] a(3) f(2) by simp
  have e: "e \<notin> linked f" using a(2) f(2) by simp
  have "\<exists>t' h' f'. hashtable_insert (fst s) (snd s) (Elem e) = Some (t', h') \<and> table_rep t' h' f' \<and>
    linked f' = insert e {x \<in> linked f. \<not> same_key (fst s) e x} \<and> eq t' = eq (fst s) \<and>
    entries t' = (if \<exists>x \<in> linked f. same_key (fst s) e x then entries (fst s) else entries (fst s) + 1)"
    by (rule hashtable_insert_spec [OF f(1) e]) (rule rm)
  then obtain t' h' f' where "hashtable_insert (fst s) (snd s) (Elem e) = Some (t', h')" "table_rep t' h' f'"
    "linked f' = insert e {x \<in> M. \<not> same_key (fst s) e x}" "eq t' = eq (fst s)"
    unfolding f(2) by blast
  then show "\<exists>s'. store_put s e = Some s' \<and> store_rep s' (insert e {x \<in> M. \<not> same_key (fst s) e x}) \<and>
      same_key (fst s') = same_key (fst s)"
    by (intro exI [of _ "(t', h')"]) (auto simp: store_put_def store_rep_def same_key_def fun_eq_iff)
next
  fix s :: "('l, 'e) hashtable \<times> ('l, 'e) lheap" and M e
  assume "store_rep s M"
  then obtain f where f: "table_rep (fst s) (snd s) f" "linked f = M" unfolding store_rep_def by blast
  obtain h' f' where "hashtable_remove (fst s) (snd s) (Elem e) = Some h'" "table_rep (fst s) h' f'"
    "linked f' = {x \<in> M. \<not> same_key (fst s) e x}"
    using hashtable_remove_spec [OF f(1), of e] unfolding f(2) by blast
  then show "\<exists>s'. store_del s e = Some s' \<and> store_rep s' {x \<in> M. \<not> same_key (fst s) e x} \<and>
      same_key (fst s') = same_key (fst s)"
    by (intro exI [of _ "(fst s, h')"]) (auto simp: store_del_def store_rep_def)
next
  fix s :: "('l, 'e) hashtable \<times> ('l, 'e) lheap" and M
  assume "store_rep s M"
  then obtain f where f: "table_rep (fst s) (snd s) f" "linked f = M" unfolding store_rep_def by blast
  then show "finite M" using table_finite by blast
  from f(1) show "equivp (same_key (fst s))" unfolding table_rep_def good_keys_def by blast
qed simp

subsection \<open>Initialisation\<close>

lemma init_loop_rep:
  assumes "i \<le> INIT_BUCKETS" "inj_on con {..<INIT_BUCKETS}"
    and "lists_rep h (\<lambda>l. if l \<in> con ` {..<i} then Some [] else None)"
  shows "lists_rep (init_loop i con h) (\<lambda>l. if l \<in> con ` {..<INIT_BUCKETS} then Some [] else None)"
  using assms
proof (induction i con h rule: init_loop.induct)
  case (1 i con h)
  show ?case
  proof (cases "i < INIT_BUCKETS")
    case True
    have eq: "{..<i + 1} = insert i {..<i}"
      using unat_plus_one [OF True] by (auto simp: word_less_nat_alt less_Suc_eq word_unat_eq_iff)
    have nin: "con i \<notin> con ` {..<i}"
    proof
      assume "con i \<in> con ` {..<i}"
      then obtain j where j: "con i = con j" "j < i" by blast
      then have "j < INIT_BUCKETS" using True by (meson order.strict_trans)
      then show False using inj_onD [OF "1.prems"(2) j(1)] True j(2) by simp
    qed
    have fe: "(\<lambda>l. if l \<in> con ` {..<i} then Some [] else None)(con i \<mapsto> [])
        = (\<lambda>l. if l \<in> con ` {..<i + 1} then Some [] else None)"
      unfolding eq by auto
    have "lists_rep (list_init h (con i)) (\<lambda>l. if l \<in> con ` {..<i + 1} then Some [] else None)"
      unfolding fe [symmetric] by (rule lists_init [OF "1.prems"(3)]) (simp add: nin)
    moreover have "i + 1 \<le> INIT_BUCKETS"
      using unat_plus_one [OF True] True by (simp add: word_le_nat_alt word_less_nat_alt)
    ultimately show ?thesis
      using "1.IH" [OF True] "1.prems"(2) True by (subst init_loop.simps) simp
  next
    case False
    then have "i = INIT_BUCKETS" using "1.prems"(1) by simp
    with "1.prems"(3) False show ?thesis by (subst init_loop.simps) simp
  qed
qed

lemma hashtable_init_rep:
  fixes h :: "('l, 'e) lheap"
  assumes "inj_on con {..<INIT_BUCKETS}" "hashtable_init h con f ident = (t, h')" "good_keys t"
  shows "table_rep t h' (\<lambda>l. if l \<in> con ` {..<INIT_BUCKETS} then Some [] else None)"
proof -
  have t: "t = \<lparr>buckets = INIT_BUCKETS, entries = 0, bucket_con = con, fn = f, eq = ident\<rparr>" "h' = init_loop 0 con h"
    using assms(2) by (simp_all add: hashtable_init_def)
  have e: "{..<0 :: size_t} = {}" by auto
  have "lists_rep h (\<lambda>l. if l \<in> con ` {..<0} then Some [] else None)"
    unfolding e by (simp add: lists_rep_def)
  from init_loop_rep [OF word_coorder.extremum assms(1) this]
  have "lists_rep h' (\<lambda>l. if l \<in> con ` {..<INIT_BUCKETS} then Some [] else None)"
    unfolding t(2) .
  moreover have "buckets t \<noteq> 0" "bucket_con t ` {..<buckets t} = con ` {..<INIT_BUCKETS}"
    by (simp_all add: t(1) INIT_BUCKETS_def)
  moreover have "linked (\<lambda>l. if l \<in> con ` {..<INIT_BUCKETS} then Some [] else None) = ({} :: 'e set)"
    unfolding linked_def by (auto simp: ran_def split: if_splits)
  moreover have "dom (\<lambda>l. if l \<in> con ` {..<INIT_BUCKETS} then Some [] else None) = con ` {..<INIT_BUCKETS}"
    by (simp add: dom_def)
  ultimately show ?thesis
    using assms(3) unfolding table_rep_def by (intro conjI) (simp_all split: if_splits)
qed

subsection \<open>Properties\<close>

text \<open>C10: after an element is inserted, looking up its key gives it, looking up any other key
  gives what it gave before, and the elements of the table are the old ones without the one
  with that key, and the new one.\<close>

theorem hashtable_insert_find:
  assumes "table_rep t h f" "e \<notin> linked f" "Suc (card (linked f)) < 2 ^ 64"
  shows "\<exists>t' h' f'. hashtable_insert t h (Elem e) = Some (t', h') \<and> table_rep t' h' f' \<and>
    linked f' = insert e {x \<in> linked f. \<not> same_key t e x} \<and>
    (\<forall>k. map_option elem_value (hashtable_find t' h' (Elem k)) =
       (if same_key t k e then Some (Some e) else map_option elem_value (hashtable_find t h (Elem k))))"
proof -
  have rep: "store_rep (t, h) (linked f)" using assms(1) by (auto simp: store_rep_def)
  obtain s' where s': "store_put (t, h) e = Some s'" "store_rep s' (insert e {x \<in> linked f. \<not> same_key t e x})"
    "\<forall>k. store_lookup s' k = (if same_key t k e then Some (Some e) else store_lookup (t, h) k)"
    using ht.lookup_put [OF rep assms(2)] assms(3) by auto
  obtain f' where "table_rep (fst s') (snd s') f'" "linked f' = insert e {x \<in> linked f. \<not> same_key t e x}"
    using s'(2) by (auto simp: store_rep_def)
  with s'(1,3) show ?thesis
    by (intro exI [of _ "fst s'"] exI [of _ "snd s'"] exI [of _ f']) (simp add: store_put_def store_lookup_def)
qed

text \<open>C13: after a key is removed, looking it up gives nothing, looking up any other key gives
  what it gave before; but the table still counts the element: \<^verbatim>\<open>hashtable_size\<close> of a table
  that counted right is now one too many.\<close>

theorem hashtable_remove_find:
  assumes "table_rep t h f" "x \<in> linked f" "same_key t e x" "unat (hashtable_size t) = card (linked f)"
  shows "\<exists>h' f'. hashtable_remove t h (Elem e) = Some h' \<and> table_rep t h' f' \<and> linked f' = linked f - {x} \<and>
    (\<forall>k. map_option elem_value (hashtable_find t h' (Elem k)) =
       (if same_key t k e then Some None else map_option elem_value (hashtable_find t h (Elem k)))) \<and>
    unat (hashtable_size t) = Suc (card (linked f'))"
proof -
  have rep: "store_rep (t, h) (linked f)" using assms(1) by (auto simp: store_rep_def)
  obtain s' where s': "store_del (t, h) e = Some s'" "store_rep s' {x \<in> linked f. \<not> same_key t e x}"
    "\<forall>k. store_lookup s' k = (if same_key t k e then Some None else store_lookup (t, h) k)"
    using ht.lookup_del [OF rep, of e] by auto
  obtain h' where h': "s' = (t, h')" "hashtable_remove t h (Elem e) = Some h'"
    using s'(1) by (auto simp: store_del_def)
  have gone: "{x \<in> linked f. \<not> same_key t e x} = linked f - {x}"
    using table_unique [OF assms(1)] assms(2,3) by blast
  then obtain f' where f': "table_rep t h' f'" "linked f' = linked f - {x}"
    using s'(2) h'(1) by (auto simp: store_rep_def)
  moreover have "card (linked f) = Suc (card (linked f'))"
    unfolding f'(2) using assms(2) table_finite [OF assms(1)] by (rule card.remove [rotated])
  ultimately show ?thesis
    using h' s'(3) assms(4) by (intro exI [of _ h'] exI [of _ f']) (simp add: store_lookup_def)
qed

subsubsection \<open>A concrete table\<close>

definition demo_fn :: "(size_t, nat) ptr \<Rightarrow> size_t" where
  "demo_fn p = (case p of Elem n \<Rightarrow> of_nat n | _ \<Rightarrow> 0)"

definition demo_table :: "(size_t, nat) hashtable \<times> (size_t, nat) lheap" where
  "demo_table = hashtable_init \<lparr>prev = (\<lambda>_. NULL), nxt = (\<lambda>_. NULL), lsize = (\<lambda>_. 0)\<rparr> (\<lambda>i. i) demo_fn (=)"

lemma demo_same_key: "same_key (fst demo_table) = (=)"
  by (simp add: same_key_def fun_eq_iff demo_table_def hashtable_init_def)

lemma demo_table_rep:
  "table_rep (fst demo_table) (snd demo_table) (\<lambda>l. if l \<in> (\<lambda>i. i) ` {..<INIT_BUCKETS} then Some [] else None)"
proof (rule hashtable_init_rep)
  show "good_keys (fst demo_table)"
    by (simp add: good_keys_def demo_same_key identity_equivp)
  show "hashtable_init \<lparr>prev = (\<lambda>_. NULL), nxt = (\<lambda>_. NULL), lsize = (\<lambda>_. 0)\<rparr> (\<lambda>i. i) demo_fn (=)
      = (fst demo_table, snd demo_table)"
    by (simp add: demo_table_def)
qed simp

lemma linked_all_empty: "linked (\<lambda>l. if l \<in> L then Some [] else None) = {}"
  unfolding linked_def by (auto simp: ran_def split: if_splits)

theorem hashtable_insert_find_witness:
  "\<exists>t' h' f'. hashtable_insert (fst demo_table) (snd demo_table) (Elem 13) = Some (t', h') \<and>
    table_rep t' h' f' \<and> linked f' = {13} \<and>
    map_option elem_value (hashtable_find t' h' (Elem 13)) = Some (Some 13)"
proof -
  from hashtable_insert_find [OF demo_table_rep, of 13]
  obtain t' h' f' where r: "hashtable_insert (fst demo_table) (snd demo_table) (Elem 13) = Some (t', h')"
    "table_rep t' h' f'" "linked f' = {13}"
    "\<forall>k. map_option elem_value (hashtable_find t' h' (Elem k)) = (if same_key (fst demo_table) k 13 then Some (Some 13)
        else map_option elem_value (hashtable_find (fst demo_table) (snd demo_table) (Elem k)))"
    unfolding linked_all_empty by auto
  moreover have "same_key (fst demo_table) 13 13" by (simp add: same_key_def demo_table_def hashtable_init_def)
  ultimately show ?thesis by (intro exI [of _ t'] exI [of _ h'] exI [of _ f']) simp
qed

lemma demo_table_one:
  "\<exists>t h f. hashtable_insert (fst demo_table) (snd demo_table) (Elem 13) = Some (t, h) \<and> table_rep t h f \<and>
    linked f = {13} \<and> hashtable_size t = 1"
proof -
  have "\<exists>t' h' f'. hashtable_insert (fst demo_table) (snd demo_table) (Elem 13) = Some (t', h') \<and> table_rep t' h' f' \<and>
    linked f' = insert 13 {x \<in> linked (\<lambda>l. if l \<in> (\<lambda>i. i) ` {..<INIT_BUCKETS} then Some [] else None). \<not> same_key (fst demo_table) 13 x} \<and>
    eq t' = eq (fst demo_table) \<and>
    entries t' = (if \<exists>x \<in> linked (\<lambda>l. if l \<in> (\<lambda>i. i) ` {..<INIT_BUCKETS} then Some [] else None). same_key (fst demo_table) 13 x
      then entries (fst demo_table) else entries (fst demo_table) + 1)"
  proof (rule hashtable_insert_spec [OF demo_table_rep])
    show "13 \<notin> linked (\<lambda>l. if l \<in> (\<lambda>i. i) ` {..<INIT_BUCKETS} then Some [] else None)"
      unfolding linked_all_empty by simp
  qed (simp split: if_splits)
  then obtain t h f where "hashtable_insert (fst demo_table) (snd demo_table) (Elem 13) = Some (t, h)" "table_rep t h f"
    "linked f = {13}" "entries t = entries (fst demo_table) + 1"
    unfolding linked_all_empty by auto
  moreover have "entries (fst demo_table) = 0" by (simp add: demo_table_def hashtable_init_def)
  ultimately show ?thesis by (intro exI [of _ t] exI [of _ h] exI [of _ f]) (simp add: hashtable_size_def)
qed

theorem hashtable_remove_find_witness:
  "\<exists>t h h' f'. hashtable_insert (fst demo_table) (snd demo_table) (Elem 13) = Some (t, h) \<and>
    hashtable_remove t h (Elem 13) = Some h' \<and> linked f' = {} \<and> table_rep t h' f' \<and> unat (hashtable_size t) = 1"
proof -
  obtain t h f where d: "hashtable_insert (fst demo_table) (snd demo_table) (Elem 13) = Some (t, h)" "table_rep t h f"
    "linked f = {13}" "hashtable_size t = 1" using demo_table_one by blast
  have "13 \<in> linked f" "unat (hashtable_size t) = card (linked f)" using d(3,4) by simp_all
  from hashtable_remove_find [OF d(2) this(1) same_key_refl [OF d(2)] this(2)]
  obtain h' f' where "hashtable_remove t h (Elem 13) = Some h'" "table_rep t h' f'" "linked f' = {}"
    unfolding d(3) by auto
  with d(1,4) show ?thesis by (intro exI [of _ t] exI [of _ h] exI [of _ h'] exI [of _ f']) simp
qed

subsubsection \<open>Visiting every element\<close>

definition bucket_contents :: "('l, 'e) hashtable \<Rightarrow> ('l \<rightharpoonup> 'e list) \<Rightarrow> nat \<Rightarrow> 'e list" where
  "bucket_contents t f i = the (f (bucket_con t (of_nat i)))"

lemma foreach_bucket_rep:
  fixes t :: "('l, 'e) hashtable"
  assumes "table_rep t h f" "\<forall>x y s s'. action x y s = Some s' \<longrightarrow> hp s' = hp s" "hp s = h" "b \<le> buckets t"
  shows "foreach_bucket hp t action (Some a) b s
    = ofold (\<lambda>x. action (Elem x) (Inr a)) (concat (map (bucket_contents t f) [unat b..<unat (buckets t)])) s"
  using assms(3,4)
proof (induction "unat (buckets t) - unat b" arbitrary: b s)
  case 0
  then have "\<not> b < buckets t" by (simp add: word_less_nat_alt)
  then show ?case using 0 by (subst foreach_bucket.simps) simp
next
  case (Suc n)
  have b: "b < buckets t" using Suc.hyps(2) by (simp add: word_less_nat_alt)
  have "bucket_con t b \<in> dom f" using assms(1) b unfolding table_rep_def by blast
  then obtain xs where xs: "f (bucket_con t b) = Some xs" by blast
  have "lists_rep h f" using assms(1) unfolding table_rep_def by blast
  then have lr: "list_rep (hp s) (bucket_con t b) xs" using lists_repD [of h f, OF _ xs] Suc.prems(1) by simp
  let ?act = "\<lambda>y. action (Elem y) (Inr a)"
  have walk: "foreach_loop hp (\<lambda>el. action el (Inr a)) (bucket_con t b) (list_begin (hp s) (bucket_con t b)) s
      = ofold ?act xs s"
  proof -
    have "list_rep (hp s) (bucket_con t b) ([] @ xs)" using lr by simp
    then show ?thesis
      unfolding list_rep_begin [OF lr] by (rule foreach_loop_rep) (use assms(2) in blast)
  qed
  have hp: "ofold ?act ys s = Some s' \<Longrightarrow> hp s' = hp s" for ys s s'
  proof (induction ys arbitrary: s)
    case (Cons y ys)
    then obtain s1 where "action (Elem y) (Inr a) s = Some s1" "ofold ?act ys s1 = Some s'"
      by (auto split: bind_splits)
    with Cons.IH [of s1] assms(2) show ?case by metis
  qed simp
  have b1: "unat (b + 1) = Suc (unat b)" using unat_plus_one [OF b] .
  have cons: "[unat b..<unat (buckets t)] = unat b # [unat (b + 1)..<unat (buckets t)]"
    unfolding b1 using b by (simp add: upt_conv_Cons word_less_nat_alt)
  have xs2: "bucket_contents t f (unat b) = xs" using xs by (simp add: bucket_contents_def)
  have "b + 1 \<le> buckets t" using b b1 by (simp add: word_le_nat_alt word_less_nat_alt)
  then have IH: "foreach_bucket hp t action (Some a) (b + 1) s'
      = ofold ?act (concat (map (bucket_contents t f) [unat (b + 1)..<unat (buckets t)])) s'" if "hp s' = h" for s'
    using Suc.hyps(1) [of "b + 1" s'] Suc.hyps(2) b1 that by simp
  show ?case
    using IH hp Suc.prems(1) b unfolding cons
    by (subst foreach_bucket.simps) (auto simp: walk xs2 ofold_append split: bind_split)
qed

lemma distinct_concat_upt:
  "(\<And>i. i < n \<Longrightarrow> distinct (g i)) \<Longrightarrow> (\<And>i j. i < n \<Longrightarrow> j < n \<Longrightarrow> i \<noteq> j \<Longrightarrow> set (g i) \<inter> set (g j) = {})
   \<Longrightarrow> distinct (concat (map g [0..<n]))"
proof (induction n)
  case (Suc n)
  have "distinct (concat (map g [0..<n]))"
  proof (rule Suc.IH)
    show "distinct (g i)" if "i < n" for i using Suc.prems(1) [of i] that by simp
    show "set (g i) \<inter> set (g j) = {}" if "i < n" "j < n" "i \<noteq> j" for i j
      using Suc.prems(2) [of i j] that by simp
  qed
  moreover have "set (g i) \<inter> set (g n) = {}" if "i < n" for i using Suc.prems(2) [of i n] that by simp
  then have "set (concat (map g [0..<n])) \<inter> set (g n) = {}" by fastforce
  ultimately show ?case using Suc.prems(1) [of n] by simp
qed simp

text \<open>A walk over the table whose action leaves the links alone runs the action once for every
  element, bucket by bucket and within a bucket from front to back.\<close>

theorem hashtable_foreach_visits:
  assumes "table_rep t h f" "\<forall>x y s s'. action x y s = Some s' \<longrightarrow> hp s' = hp s" "hp s = h"
    and "inj_on (bucket_con t) {..<buckets t}"
  shows "hashtable_foreach hp t action (Some a) s
      = ofold (\<lambda>x. action (Elem x) (Inr a)) (concat (map (bucket_contents t f) [0..<unat (buckets t)])) s \<and>
    set (concat (map (bucket_contents t f) [0..<unat (buckets t)])) = linked f \<and>
    distinct (concat (map (bucket_contents t f) [0..<unat (buckets t)]))"
proof (intro conjI)
  show "hashtable_foreach hp t action (Some a) s
      = ofold (\<lambda>x. action (Elem x) (Inr a)) (concat (map (bucket_contents t f) [0..<unat (buckets t)])) s"
    using foreach_bucket_rep [OF assms(1,2,3) word_coorder.extremum] by (simp add: hashtable_foreach_def)
  have lr: "lists_rep h f" and d: "dom f = bucket_con t ` {..<buckets t}"
    using assms(1) unfolding table_rep_def by blast+
  have get: "f (bucket_con t (of_nat i)) = Some (bucket_contents t f i)" if "i < unat (buckets t)" for i
  proof -
    have "of_nat i < buckets t" using that by (simp add: of_nat_word_less_iff word_less_nat_alt unat_of_nat order.strict_trans1 [OF mod_less_eq_dividend])
    then have "bucket_con t (of_nat i) \<in> dom f" unfolding d by blast
    then show ?thesis by (auto simp: bucket_contents_def)
  qed
  have "x \<in> linked f \<longleftrightarrow> (\<exists>i < unat (buckets t). x \<in> set (bucket_contents t f i))" for x
  proof
    assume "x \<in> linked f"
    then obtain l xs where l: "f l = Some xs" "x \<in> set xs" by (auto simp: linked_iff)
    then obtain b where "b < buckets t" "l = bucket_con t b" using d by blast
    with l show "\<exists>i < unat (buckets t). x \<in> set (bucket_contents t f i)"
      by (intro exI [of _ "unat b"]) (simp add: bucket_contents_def word_less_nat_alt)
  next
    assume "\<exists>i < unat (buckets t). x \<in> set (bucket_contents t f i)"
    then obtain i where i: "i < unat (buckets t)" "x \<in> set (bucket_contents t f i)" by blast
    then show "x \<in> linked f" using linked_sub [of f, OF get [OF i(1)]] by blast
  qed
  then show "set (concat (map (bucket_contents t f) [0..<unat (buckets t)])) = linked f" by fastforce
  have "distinct (bucket_contents t f i)" if "i < unat (buckets t)" for i
    using kl.dist [OF lr get [OF that]] .
  moreover have "set (bucket_contents t f i) \<inter> set (bucket_contents t f j) = {}"
    if ij: "i < unat (buckets t)" "j < unat (buckets t)" "i \<noteq> j" for i j
  proof -
    have b: "unat (buckets t) < 2 ^ 64" using u64_unat_bound [of "buckets t"] by simp
    have u: "unat (of_nat i :: size_t) = i" "unat (of_nat j :: size_t) = j"
      using ij b by (simp_all add: unat_eq_of_nat)
    then have "(of_nat i :: size_t) \<noteq> of_nat j" using ij(3) by metis
    moreover have "(of_nat i :: size_t) < buckets t" "(of_nat j :: size_t) < buckets t"
      using ij u by (simp_all add: word_less_nat_alt)
    ultimately have "bucket_con t (of_nat i) \<noteq> bucket_con t (of_nat j)"
      using assms(4) by (meson inj_onD lessThan_iff)
    then show ?thesis using kl.disjoint [OF lr get [OF ij(1)] get [OF ij(2)]] by blast
  qed
  ultimately show "distinct (concat (map (bucket_contents t f) [0..<unat (buckets t)]))"
    by (intro distinct_concat_upt)
qed

definition demo_visit :: "(size_t, nat) ptr \<Rightarrow> size_t + unit \<Rightarrow> (size_t, nat) lheap \<times> nat list
    \<Rightarrow> ((size_t, nat) lheap \<times> nat list) option" where
  "demo_visit p aux s = (case p of Elem n \<Rightarrow> Some (fst s, n # snd s) | _ \<Rightarrow> None)"

theorem hashtable_foreach_visits_witness:
  "\<exists>t h ns. hashtable_insert (fst demo_table) (snd demo_table) (Elem 13) = Some (t, h) \<and> set ns = {13} \<and>
    hashtable_foreach fst t demo_visit (Some ()) (h, []) = ofold (\<lambda>x. demo_visit (Elem x) (Inr ())) ns (h, [])"
proof -
  obtain t h f where d: "hashtable_insert (fst demo_table) (snd demo_table) (Elem 13) = Some (t, h)" "table_rep t h f"
    "linked f = {13}" using demo_table_one by blast
  have "bucket_con t = (\<lambda>i. i)"
    using d(1) by (auto simp: hashtable_insert_def demo_table_def hashtable_init_def split: bind_splits if_splits)
  then have "inj_on (bucket_con t) {..<buckets t}" by simp
  moreover have "\<forall>x y s s'. demo_visit x y s = Some s' \<longrightarrow> fst s' = fst s"
    by (auto simp: demo_visit_def split: ptr.splits)
  ultimately show ?thesis
    using hashtable_foreach_visits [OF d(2), of demo_visit fst "(h, [])" "()"] d(1,3)
    by (intro exI [of _ t] exI [of _ h] exI [of _ "concat (map (bucket_contents t f) [0..<unat (buckets t)])"]) simp
qed

text \<open>A table that was just initialised is empty: every look-up gives nothing.\<close>

theorem hashtable_init_empty:
  assumes "hashtable_init h con f ident = (t, h')" "inj_on con {..<INIT_BUCKETS}" "good_keys t"
  shows "hashtable_find t h' (Elem k) = Some NULL \<and> hashtable_size t = 0 \<and> hashtable_get_buckets t = 10"
  using hashtable_find_spec(2) [OF hashtable_init_rep [OF assms(2,1,3)], of k] assms(1)
  by (auto simp: linked_all_empty hashtable_init_def hashtable_size_def hashtable_get_buckets_def INIT_BUCKETS_def)

theorem hashtable_init_empty_witness:
  "hashtable_find (fst demo_table) (snd demo_table) (Elem 5) = Some NULL"
proof -
  have "hashtable_init \<lparr>prev = (\<lambda>_. NULL), nxt = (\<lambda>_. NULL), lsize = (\<lambda>_. 0)\<rparr> (\<lambda>i. i) demo_fn (=)
      = (fst demo_table, snd demo_table)"
    by (simp add: demo_table_def)
  from hashtable_init_empty [OF this] show ?thesis
    by (simp add: good_keys_def demo_same_key identity_equivp)
qed

end
