(* ===== verification/Filesys.thy ===== *)
theory Filesys
  imports Block Hashtable
begin

unbundle bit_operations_syntax

section \<open>Inodes, files and directories (io/filesys.c)\<close>

text \<open>
  Model of \<^verbatim>\<open>kern/lib/io/filesys.c\<close>.  Inodes, files and directory entries lie in the byte memory
  at the offsets of their structures; the list element of an inode is named by the inode's
  address.  Several calls pass \<^verbatim>\<open>&fs_free_map\<close>, the address of the pointer, where the bitmap is
  meant: the bitmap code takes the pointer for the number of bits and the variables that follow it in
  memory for the bits (\<open>pointer_as_map\<close>).  A body without a
  \<^verbatim>\<open>return\<close> yields the value \<open>unset\<close>, which is also what unset variables hold; the addresses of
  local variables are fields of the state.  Locks are those of the block devices.
\<close>

subsection \<open>State\<close>

text \<open>
  What lies behind the pointer \<^verbatim>\<open>fs_free_map\<close> is up to the linker: \<open>word_behind\<close> is the first word,
  \<open>words_behind\<close> are those after it, to the end of the mapped memory, and \<open>slots\<close> says which of them are
  the value of a lock, the count of free sectors or the file system's block.  Other variables that
  may lie there (the table of inodes, the waiting threads) are not followed.
\<close>

datatype static = LockWord u64 | FreeSectors | FsBlock

record fs = disk +
  fs_block :: u64
  fs_free_sectors :: size_t
  fs_free_map :: bitmap
  fs_map_ptr :: u64
  word_behind :: size_t
  words_behind :: "size_t list"
  slots :: "nat \<Rightarrow> static option"
  inode_map :: "(u64, u64) hashtable"
  inode_lists :: "(u64, u64) lheap"
  fs_free_map_lock :: u64
  inode_map_lock :: u64
  unset :: u64
  resolved :: "u64 \<times> u64"
  key_var :: u64
  ent_var :: u64
  sector_var :: u64
  zeroes :: u64
  dot_dot :: u64
  dot :: u64

definition INODE_HEADER_EXTENTS :: size_t where "INODE_HEADER_EXTENTS = 59"
definition INODE_DISK_NPOS :: u32 where "INODE_DISK_NPOS = - 1"
definition INODE_DISK_EXTENTS :: size_t where "INODE_DISK_EXTENTS = BLOCK_SECTOR_SIZE div 8"
definition INODE_DISK_INDICES :: size_t where "INODE_DISK_INDICES = BLOCK_SECTOR_SIZE div 4"
definition INODE_DISK_SIZE :: size_t where "INODE_DISK_SIZE = 512"
definition INODE_SIZE :: size_t where "INODE_SIZE = 672"
definition FILE_SIZE :: size_t where "FILE_SIZE = 24"
definition DIR_SIZE :: size_t where "DIR_SIZE = 32"
definition DIR_ENTRY_SIZE :: size_t where "DIR_ENTRY_SIZE = 40"
definition DIR_BASE_OFS :: u64 where "DIR_BASE_OFS = DIR_ENTRY_SIZE * 2"
definition ROOT_DIR_SECTOR :: u64 where "ROOT_DIR_SECTOR = 0"
definition BITMAP_HEADER_SIZE :: size_t where "BITMAP_HEADER_SIZE = 16"
definition NAME_MAX :: size_t where "NAME_MAX = 32"
definition FILEINFO_MODE_BASE :: nat where "FILEINFO_MODE_BASE = 8"

definition FILEINFO_MODE_MASK :: u32 where
  "FILEINFO_MODE_MASK = push_bit 14 7 OR push_bit 11 7 OR push_bit 8 7"

subsection \<open>Fields\<close>

text \<open>The fields of \<^verbatim>\<open>struct inode_disk\<close>.\<close>

definition next_extent :: "bytes \<Rightarrow> u64 \<Rightarrow> u32" where "next_extent m d = load32 m (d + 16)"
definition next_first_level :: "bytes \<Rightarrow> u64 \<Rightarrow> u32" where "next_first_level m d = load32 m (d + 20)"
definition next_second_level :: "bytes \<Rightarrow> u64 \<Rightarrow> u32" where "next_second_level m d = load32 m (d + 24)"
definition first_level_table :: "bytes \<Rightarrow> u64 \<Rightarrow> u32" where "first_level_table m d = load32 m (d + 28)"
definition second_level_table :: "bytes \<Rightarrow> u64 \<Rightarrow> u32" where "second_level_table m d = load32 m (d + 32)"
definition third_level_table :: "bytes \<Rightarrow> u64 \<Rightarrow> u32" where "third_level_table m d = load32 m (d + 36)"

definition header_extents :: "u64 \<Rightarrow> u64" where
  "header_extents d = d + 40"

text \<open>The fields of \<^verbatim>\<open>struct inode\<close> and \<^verbatim>\<open>struct file\<close>.\<close>

definition inode_lock :: "u64 \<Rightarrow> u64" where "inode_lock i = i + 24"
definition inode_dir_lock :: "u64 \<Rightarrow> u64" where "inode_dir_lock i = i + 80"
definition open_count :: "u64 \<Rightarrow> u64" where "open_count i = i + 136"
definition inode_removed :: "u64 \<Rightarrow> u64" where "inode_removed i = i + 152"
definition inode_data :: "u64 \<Rightarrow> u64" where "inode_data i = i + 160"
definition file_inode :: "bytes \<Rightarrow> u64 \<Rightarrow> u64" where "file_inode m f = load64 m f"
definition streampos :: "bytes \<Rightarrow> u64 \<Rightarrow> u64" where "streampos m f = load64 m (f + 8)"

definition put64 :: "u64 \<Rightarrow> u64 \<Rightarrow> ('a) fs_scheme \<Rightarrow> ('a) fs_scheme" where
  "put64 p v s = s\<lparr>mem := store64 (mem s) p v\<rparr>"

definition put32 :: "u64 \<Rightarrow> u32 \<Rightarrow> ('a) fs_scheme \<Rightarrow> ('a) fs_scheme" where
  "put32 p v s = s\<lparr>mem := store32 (mem s) p v\<rparr>"

definition put8 :: "u64 \<Rightarrow> u8 \<Rightarrow> ('a) fs_scheme \<Rightarrow> ('a) fs_scheme" where
  "put8 p v s = s\<lparr>mem := (mem s)(p := v)\<rparr>"

subsection \<open>The levels of an inode\<close>

definition inode_disk_at_header :: "bytes \<Rightarrow> u64 \<Rightarrow> bool" where
  "inode_disk_at_header m d \<longleftrightarrow> first_level_table m d = INODE_DISK_NPOS"

definition inode_disk_at_first_level :: "bytes \<Rightarrow> u64 \<Rightarrow> bool" where
  "inode_disk_at_first_level m d \<longleftrightarrow> first_level_table m d \<noteq> INODE_DISK_NPOS \<and>
     second_level_table m d = INODE_DISK_NPOS \<and> third_level_table m d = INODE_DISK_NPOS"

definition inode_disk_at_second_level :: "bytes \<Rightarrow> u64 \<Rightarrow> bool" where
  "inode_disk_at_second_level m d \<longleftrightarrow>
     second_level_table m d \<noteq> INODE_DISK_NPOS \<and> third_level_table m d = INODE_DISK_NPOS"

definition inode_disk_at_third_level :: "bytes \<Rightarrow> u64 \<Rightarrow> bool" where
  "inode_disk_at_third_level m d \<longleftrightarrow> third_level_table m d \<noteq> INODE_DISK_NPOS"

subsection \<open>The walk over the extents\<close>

type_synonym ('a) action = "u64 \<Rightarrow> ('a) fs_scheme \<Rightarrow> ('a) fs_scheme option"
type_synonym ('a) table_action = "u32 \<Rightarrow> ('a) fs_scheme \<Rightarrow> ('a) fs_scheme option"
type_synonym ('a) conditional = "(('a) fs_scheme \<Rightarrow> bool) option"

definition keep_on :: "('a) conditional \<Rightarrow> ('a) fs_scheme \<Rightarrow> bool" where
  "keep_on cond s = (case cond of None \<Rightarrow> True | Some c \<Rightarrow> c s)"

text \<open>\<^verbatim>\<open>for (i = ...; i < lim && (ignore_cond || cond(aux)); ++i)\<close>\<close>

partial_function (option) for_loop ::
  "('a) conditional \<Rightarrow> (('a) fs_scheme \<Rightarrow> size_t) \<Rightarrow> (size_t \<Rightarrow> ('a) fs_scheme \<Rightarrow> ('a) fs_scheme option)
     \<Rightarrow> size_t \<Rightarrow> ('a) fs_scheme \<Rightarrow> ('a) fs_scheme option" where
  "for_loop cond lim body i s =
     (if i < lim s \<and> keep_on cond s
      then do { s \<leftarrow> body i s; for_loop cond lim body (i + 1) s }
      else Some s)"

definition extent_loop ::
  "('a) conditional \<Rightarrow> (('a) fs_scheme \<Rightarrow> size_t) \<Rightarrow> ('a) action \<Rightarrow> u64 \<Rightarrow> ('a) fs_scheme \<Rightarrow> ('a) fs_scheme option" where
  "extent_loop cond lim exta extents s = for_loop cond lim (\<lambda>i. exta (extents + 8 * i)) 0 s"

definition sector_read :: "u64 \<Rightarrow> u32 \<Rightarrow> ('a) fs_scheme \<Rightarrow> ('a) fs_scheme option" where
  "sector_read dest sector s = do {
     (_, s) \<leftarrow> block_read (fs_block s) dest (ucast sector) BLOCK_SECTOR_SIZE s;
     Some s }"

definition inode_disk_foreach_header ::
  "u64 \<Rightarrow> ('a) action \<Rightarrow> ('a) conditional \<Rightarrow> ('a) fs_scheme \<Rightarrow> ('a) fs_scheme option" where
  "inode_disk_foreach_header d exta cond s =
     (let num = (if \<not> inode_disk_at_header (mem s) d then INODE_HEADER_EXTENTS else ucast (next_extent (mem s) d))
      in extent_loop cond (\<lambda>_. num) exta (header_extents d) s)"

definition inode_disk_foreach_first_level ::
  "u64 \<Rightarrow> ('a) action \<Rightarrow> ('a) conditional \<Rightarrow> ('a) fs_scheme \<Rightarrow> ('a) fs_scheme option" where
  "inode_disk_foreach_first_level d exta cond s = do {
     s \<leftarrow> inode_disk_foreach_header d exta cond s;
     (extents, s) \<leftarrow> disk_alloc (unset s) INODE_DISK_EXTENTS 8 s;
     s \<leftarrow> sector_read extents (first_level_table (mem s) d) s;
     let num = (if \<not> inode_disk_at_first_level (mem s) d then INODE_DISK_EXTENTS else ucast (next_extent (mem s) d));
     s \<leftarrow> extent_loop cond (\<lambda>_. num) exta extents s;
     (_, s) \<leftarrow> block_write (fs_block s) extents (ucast (first_level_table (mem s) d)) BLOCK_SECTOR_SIZE s;
     disk_free extents s }"

text \<open>\<open>indices[i]\<close>\<close>

definition index_at :: "u64 \<Rightarrow> size_t \<Rightarrow> ('a) fs_scheme \<Rightarrow> u32" where
  "index_at indices i s = load32 (mem s) (indices + 4 * i)"

definition on_table :: "('a) table_action option \<Rightarrow> u32 \<Rightarrow> ('a) fs_scheme \<Rightarrow> ('a) fs_scheme option" where
  "on_table tablea sector s = (case tablea of None \<Rightarrow> Some s | Some a \<Rightarrow> a sector s)"

text \<open>The variable \<^verbatim>\<open>at_second_level\<close> holds the negation of what its name says.\<close>

definition inode_disk_foreach_second_level ::
  "u64 \<Rightarrow> ('a) action \<Rightarrow> ('a) table_action option \<Rightarrow> ('a) conditional \<Rightarrow> ('a) fs_scheme \<Rightarrow> ('a) fs_scheme option" where
  "inode_disk_foreach_second_level d exta tablea cond s = do {
     s \<leftarrow> inode_disk_foreach_first_level d exta cond s;
     let at_second_level = (\<not> inode_disk_at_second_level (mem s) d);
     if \<not> at_second_level \<or> next_first_level (mem s) d \<noteq> 0
     then do {
       (indices, s) \<leftarrow> disk_alloc (unset s) INODE_DISK_INDICES 4 s;
       s \<leftarrow> sector_read indices (second_level_table (mem s) d) s;
       (extents, s) \<leftarrow> disk_alloc (unset s) INODE_DISK_EXTENTS 8 s;
       let extent_blocks = (if \<not> at_second_level then INODE_DISK_INDICES else ucast (next_first_level (mem s) d - 1));
       s \<leftarrow> for_loop cond (\<lambda>_. extent_blocks) (\<lambda>i s. do {
            s \<leftarrow> sector_read extents (index_at indices i s) s;
            s \<leftarrow> on_table tablea (index_at indices i s) s;
            extent_loop cond (\<lambda>_. INODE_DISK_EXTENTS) exta extents s }) 0 s;
       s \<leftarrow> (if at_second_level
          then do {
            s \<leftarrow> sector_read extents (next_first_level (mem s) d - 1) s;
            extent_loop cond (\<lambda>s. ucast (next_extent (mem s) d)) exta extents s }
          else Some s);
       s \<leftarrow> disk_free indices s;
       disk_free extents s }
     else Some s }"

text \<open>\<^verbatim>\<open>if (!ignore_indices && (ignore_cond || cond(aux)))\<close>\<close>

definition on_table_cond :: "('a) table_action option \<Rightarrow> ('a) conditional \<Rightarrow> u32 \<Rightarrow> ('a) fs_scheme \<Rightarrow> ('a) fs_scheme option" where
  "on_table_cond tablea cond sector s = (if tablea \<noteq> None \<and> keep_on cond s then on_table tablea sector s else Some s)"

text \<open>A table of the first level: the sectors of extents from \<open>fstlvl\<close> up to \<open>lim\<close>.\<close>

definition first_table_loop ::
  "('a) action \<Rightarrow> ('a) table_action option \<Rightarrow> ('a) conditional \<Rightarrow> (('a) fs_scheme \<Rightarrow> size_t) \<Rightarrow> u64 \<Rightarrow> u64
     \<Rightarrow> ('a) fs_scheme \<Rightarrow> ('a) fs_scheme option" where
  "first_table_loop exta tablea cond lim indices extents s =
     for_loop cond lim (\<lambda>i s. do {
       s \<leftarrow> sector_read extents (index_at indices i s) s;
       s \<leftarrow> extent_loop cond (\<lambda>_. INODE_DISK_EXTENTS) exta extents s;
       on_table_cond tablea cond (index_at indices i s) s }) 0 s"

definition inode_disk_foreach_third_level ::
  "u64 \<Rightarrow> ('a) action \<Rightarrow> ('a) table_action option \<Rightarrow> ('a) conditional \<Rightarrow> ('a) fs_scheme \<Rightarrow> ('a) fs_scheme option" where
  "inode_disk_foreach_third_level d exta tablea cond s = do {
     s \<leftarrow> inode_disk_foreach_second_level d exta tablea cond s;
     if next_second_level (mem s) d \<noteq> 0
     then do {
       (snd_indices, s) \<leftarrow> disk_alloc (unset s) INODE_DISK_INDICES 4 s;
       s \<leftarrow> sector_read snd_indices (third_level_table (mem s) d) s;
       (fst_indices, s) \<leftarrow> disk_alloc (unset s) INODE_DISK_INDICES 4 s;
       (extents, s) \<leftarrow> disk_alloc (unset s) INODE_DISK_EXTENTS 8 s;
       s \<leftarrow> for_loop cond (\<lambda>s. ucast (next_second_level (mem s) d - 1)) (\<lambda>i s. do {
            s \<leftarrow> sector_read fst_indices (index_at snd_indices i s) s;
            s \<leftarrow> first_table_loop exta tablea cond (\<lambda>_. INODE_DISK_INDICES) fst_indices extents s;
            on_table_cond tablea cond (index_at snd_indices i s) s }) 0 s;
       s \<leftarrow> sector_read fst_indices (index_at snd_indices (ucast (next_second_level (mem s) d - 1)) s) s;
       s \<leftarrow> first_table_loop exta tablea cond (\<lambda>s. ucast (next_first_level (mem s) d - 1)) fst_indices extents s;
       s \<leftarrow> sector_read extents (index_at fst_indices (ucast (next_first_level (mem s) d - 1)) s) s;
       s \<leftarrow> on_table_cond tablea cond (index_at fst_indices (ucast (next_first_level (mem s) d - 1)) s) s;
       s \<leftarrow> extent_loop cond (\<lambda>s. ucast (next_extent (mem s) d)) exta extents s;
       s \<leftarrow> disk_free snd_indices s;
       s \<leftarrow> disk_free fst_indices s;
       disk_free extents s }
     else Some s }"

definition inode_disk_foreach ::
  "u64 \<Rightarrow> ('a) action \<Rightarrow> ('a) table_action option \<Rightarrow> ('a) conditional \<Rightarrow> ('a) fs_scheme \<Rightarrow> ('a) fs_scheme option" where
  "inode_disk_foreach d exta tablea cond s =
     (let m = mem s
      in if \<not> (inode_disk_at_header m d \<or> inode_disk_at_first_level m d \<or> inode_disk_at_second_level m d
           \<or> inode_disk_at_third_level m d) then None
         else if inode_disk_at_header m d then inode_disk_foreach_header d exta cond s
         else if inode_disk_at_first_level m d then inode_disk_foreach_first_level d exta cond s
         else if inode_disk_at_second_level m d then inode_disk_foreach_second_level d exta tablea cond s
         else if inode_disk_at_third_level m d then inode_disk_foreach_third_level d exta tablea cond s
         else Some s)"

subsection \<open>Free sectors\<close>

fun get_static :: "('a) fs_scheme \<Rightarrow> static \<Rightarrow> size_t" where
  "get_static s (LockWord l) = lock_value s l"
| "get_static s FreeSectors = fs_free_sectors s"
| "get_static s FsBlock = fs_block s"

fun put_static :: "static \<Rightarrow> size_t \<Rightarrow> ('a) fs_scheme \<Rightarrow> ('a) fs_scheme" where
  "put_static (LockWord l) w s = s\<lparr>lock_value := (lock_value s)(l := w)\<rparr>"
| "put_static FreeSectors w s = s\<lparr>fs_free_sectors := w\<rparr>"
| "put_static FsBlock w s = s\<lparr>fs_block := w\<rparr>"

text \<open>The bitmap that \<^verbatim>\<open>&fs_free_map\<close> is taken for, and its words written back.\<close>

definition pointer_as_map :: "('a) fs_scheme \<Rightarrow> bitmap" where
  "pointer_as_map s = \<lparr>bitcount = fs_map_ptr s, bufsize = word_behind s,
     bits = map (\<lambda>k. case slots s k of Some v \<Rightarrow> get_static s v | None \<Rightarrow> words_behind s ! k) [0..<length (words_behind s)]\<rparr>"

definition put_map_words :: "bitmap \<Rightarrow> ('a) fs_scheme \<Rightarrow> ('a) fs_scheme" where
  "put_map_words bm s =
     fold (\<lambda>k s. case slots s k of Some v \<Rightarrow> put_static v (bits bm ! k) s | None \<Rightarrow> s) [0..<length (bits bm)]
       (s\<lparr>words_behind := bits bm\<rparr>)"

definition free_map_allocate :: "size_t \<Rightarrow> ('a) fs_scheme \<Rightarrow> (size_t \<times> ('a) fs_scheme) option" where
  "free_map_allocate sectors s = do {
     s \<leftarrow> acquire (fs_free_map_lock s) s;
     if \<not> sectors < bitmap_size (pointer_as_map s) then None
     else do {
       (sector, bm) \<leftarrow> bitmap_scan_and_flip (pointer_as_map s) 0 sectors False;
       let s = put_map_words bm s;
       Some (sector, release (fs_free_map_lock s) s) } }"

definition free_map_release :: "size_t \<Rightarrow> size_t \<Rightarrow> ('a) fs_scheme \<Rightarrow> ('a) fs_scheme option" where
  "free_map_release start sectors s = do {
     s \<leftarrow> acquire (fs_free_map_lock s) s;
     full \<leftarrow> bitmap_all (pointer_as_map s) start sectors True;
     if \<not> full then None
     else do {
       bm \<leftarrow> bitmap_set (pointer_as_map s) start sectors False;
       let s = put_map_words bm s;
       Some (release (fs_free_map_lock s) s) } }"

text \<open>\<^verbatim>\<open>inode_disk_insert_extent\<close> has an empty body.\<close>

definition inode_disk_insert_extent :: "u64 \<Rightarrow> u32 \<Rightarrow> u32 \<Rightarrow> ('a) fs_scheme \<Rightarrow> ('a) fs_scheme" where
  "inode_disk_insert_extent d start sectors s = s"

partial_function (option) attempt_loop :: "size_t \<Rightarrow> ('a) fs_scheme \<Rightarrow> (size_t \<times> size_t \<times> ('a) fs_scheme) option" where
  "attempt_loop best s = do {
     (start, s) \<leftarrow> free_map_allocate best s;
     if start = BITMAP_NPOS then attempt_loop (best - 1) s else Some (start, best, s) }"

partial_function (option) space_loop :: "u64 \<Rightarrow> size_t \<Rightarrow> ('a) fs_scheme \<Rightarrow> ('a) fs_scheme option" where
  "space_loop d sectors s =
     (if sectors > 0
      then do {
        (start, best, s) \<leftarrow> attempt_loop sectors s;
        let s = inode_disk_insert_extent d (ucast start) (ucast best) s;
        space_loop d (sectors - best) s }
      else Some s)"

definition inode_disk_allocate_space :: "u64 \<Rightarrow> size_t \<Rightarrow> ('a) fs_scheme \<Rightarrow> (bool \<times> ('a) fs_scheme) option" where
  "inode_disk_allocate_space d sectors s = do {
     s \<leftarrow> acquire (fs_free_map_lock s) s;
     (success, s) \<leftarrow> (if sectors \<le> fs_free_sectors s
        then do {
          let s = release (fs_free_map_lock s) s;
          s \<leftarrow> space_loop d sectors s;
          Some (True, s) }
        else Some (False, s));
     Some (success, release (fs_free_map_lock s) s) }"

subsection \<open>Inodes\<close>

fun inode_ptr :: "(u64, u64) ptr \<Rightarrow> u64" where
  "inode_ptr (Elem i) = i"
| "inode_ptr _ = - 8"

definition hash_inode :: "bytes \<Rightarrow> (u64, u64) ptr \<Rightarrow> size_t" where
  "hash_inode m e = hash_uint64 (load64 m (inode_ptr e))"

definition inode_equal :: "bytes \<Rightarrow> (u64, u64) ptr \<Rightarrow> (u64, u64) ptr \<Rightarrow> bool" where
  "inode_equal m l r \<longleftrightarrow> load64 m (inode_ptr l) = load64 m (inode_ptr r)"

text \<open>The table with its functions, which read the sectors from the memory.\<close>

definition inode_table :: "('a) fs_scheme \<Rightarrow> (u64, u64) hashtable" where
  "inode_table s = (inode_map s)\<lparr>fn := hash_inode (mem s), eq := inode_equal (mem s)\<rparr>"

definition init_filesystem :: "('a) fs_scheme \<Rightarrow> ('a) fs_scheme option" where
  "init_filesystem s = do {
     let s = s\<lparr>fs_block := get_block s BLOCK_FS\<rparr>;
     let n = block_sectors s (fs_block s);
     (p, s) \<leftarrow> disk_alloc (unset s) 1 (BITMAP_HEADER_SIZE + bitmap_bufsize n) s;
     _ \<leftarrow> (if p = 0 then None else Some ());
     let s = s\<lparr>fs_free_map := bitmap_create n, fs_map_ptr := p\<rparr>;
     (con, s) \<leftarrow> disk_alloc (unset s) INIT_BUCKETS 40 s;
     let (t, h) = hashtable_init (inode_lists s) (\<lambda>i. con + 40 * i) (hash_inode (mem s)) (inode_equal (mem s));
     let s = s\<lparr>inode_map := t, inode_lists := h\<rparr>;
     let s = disk_lock_init (fs_free_map_lock s) s;
     let s = disk_lock_init (inode_map_lock s) s;
     bm \<leftarrow> bitmap_set (fs_free_map s) ROOT_DIR_SECTOR 1 True;
     Some (s\<lparr>fs_free_map := bm\<rparr>) }"

definition create_inode :: "size_t \<Rightarrow> u64 \<Rightarrow> u64 \<Rightarrow> ('a) fs_scheme \<Rightarrow> (bool \<times> ('a) fs_scheme) option" where
  "create_inode sz info sector s = do {
     let sectors = div_rnd_up sz BLOCK_SECTOR_SIZE;
     (header, s) \<leftarrow> free_map_allocate 1 s;
     if header = BITMAP_NPOS then Some (False, s)
     else do {
       (d, s) \<leftarrow> disk_alloc (unset s) 1 INODE_DISK_SIZE s;
       (success, s) \<leftarrow> (if d = 0 then Some (False, s)
          else do {
            let s = put64 d info s;
            let s = put32 (d + 16) 0 s;
            let s = put32 (d + 20) INODE_DISK_NPOS s;
            let s = put32 (d + 24) INODE_DISK_NPOS s;
            let s = put32 (d + 28) INODE_DISK_NPOS s;
            let s = put32 (d + 32) INODE_DISK_NPOS s;
            let s = put32 (d + 36) INODE_DISK_NPOS s;
            (success, s) \<leftarrow> (if sectors = 0 then Some (True, s) else inode_disk_allocate_space d sectors s);
            (success, s) \<leftarrow> (if success
               then do {
                 (n, s) \<leftarrow> block_write (fs_block s) d header INODE_DISK_SIZE s;
                 Some (n = INODE_DISK_SIZE, s) }
               else Some (False, s));
            Some (success, if success \<and> sector \<noteq> 0 then put64 sector header s else s) });
       s \<leftarrow> disk_free d s;
       Some (success, s) } }"

definition get_inode :: "u64 \<Rightarrow> ('a) fs_scheme \<Rightarrow> (u64 \<times> ('a) fs_scheme) option" where
  "get_inode sector s = do {
     let s = put64 (key_var s) sector s;
     s \<leftarrow> acquire (inode_map_lock s) s;
     el \<leftarrow> hashtable_find (inode_table s) (inode_lists s) (Elem (key_var s));
     Some (inode_ptr el, release (inode_map_lock s) s) }"

definition open_inode :: "u64 \<Rightarrow> ('a) fs_scheme \<Rightarrow> (u64 \<times> ('a) fs_scheme) option" where
  "open_inode sector s = do {
     s \<leftarrow> acquire (fs_free_map_lock s) s;
     taken \<leftarrow> bitmap_all (fs_free_map s) sector 1 True;
     if \<not> sector < bitmap_size (pointer_as_map s) \<or> \<not> taken then None
     else do {
       let s = release (fs_free_map_lock s) s;
       s \<leftarrow> acquire (inode_map_lock s) s;
       (node, s) \<leftarrow> get_inode sector s;
       (node, s) \<leftarrow> (if node = 0
          then do {
            (node, s) \<leftarrow> disk_alloc (unset s) 1 INODE_SIZE s;
            if node = 0 then None
            else do {
              let s = ide_read_sectors (ucast sector) 1 (inode_data node) s;
              let s = put64 (open_count node) 1 s;
              let s = put64 node sector s;
              let s = disk_lock_init (inode_lock node) s;
              let s = disk_lock_init (inode_dir_lock node) s;
              (t, h) \<leftarrow> hashtable_insert (inode_table s) (inode_lists s) (Elem node);
              Some (node, s\<lparr>inode_map := t, inode_lists := h\<rparr>) } }
          else Some (node, put64 (open_count node) (load64 (mem s) (open_count node) + 1) s));
       Some (node, release (inode_map_lock s) s) } }"

definition inode_extent_free :: "('a) action" where
  "inode_extent_free ext s = do {
     s \<leftarrow> acquire (fs_free_map_lock s) s;
     full \<leftarrow> bitmap_all (pointer_as_map s) (ucast (load32 (mem s) ext)) (ucast (load32 (mem s) (ext + 4))) True;
     if \<not> full then None
     else do {
       let s = release (fs_free_map_lock s) s;
       free_map_release (ucast (load32 (mem s) ext)) (ucast (load32 (mem s) (ext + 4))) s } }"

definition inode_free_data :: "u64 \<Rightarrow> ('a) fs_scheme \<Rightarrow> ('a) fs_scheme option" where
  "inode_free_data d s = inode_disk_foreach d inode_extent_free None None s"

text \<open>\<^verbatim>\<open>calcuate_offset\<close> only declares a variable, so the result stays what the unset variable
  \<^verbatim>\<open>c\<close> held.\<close>

definition calcuate_offset :: "('a) action" where
  "calcuate_offset ext s = Some s"

definition continue_calculating :: "u32 \<Rightarrow> ('a) fs_scheme \<Rightarrow> bool" where
  "continue_calculating res s \<longleftrightarrow> res = INODE_DISK_NPOS"

definition inode_offset :: "u64 \<Rightarrow> u64 \<Rightarrow> ('a) fs_scheme \<Rightarrow> (u32 \<times> ('a) fs_scheme) option" where
  "inode_offset inode off s = do {
     let res = ucast (unset s);
     s \<leftarrow> inode_disk_foreach (inode_data inode) calcuate_offset None (Some (continue_calculating res)) s;
     Some (res, s) }"

definition inode_read_at :: "u64 \<Rightarrow> u64 \<Rightarrow> u64 \<Rightarrow> size_t \<Rightarrow> ('a) fs_scheme \<Rightarrow> (u64 \<times> ('a) fs_scheme) option" where
  "inode_read_at inode dest at count s = do {
     s \<leftarrow> acquire (inode_lock inode) s;
     (ofs, s) \<leftarrow> inode_offset inode at s;
     let s = release (inode_lock inode) s;
     block_read (fs_block s) dest (ucast ofs) count s }"

definition inode_write_at :: "u64 \<Rightarrow> u64 \<Rightarrow> u64 \<Rightarrow> size_t \<Rightarrow> ('a) fs_scheme \<Rightarrow> (u64 \<times> ('a) fs_scheme) option" where
  "inode_write_at inode src at count s = do {
     s \<leftarrow> acquire (inode_lock inode) s;
     (ofs, s) \<leftarrow> inode_offset inode at s;
     let s = release (inode_lock inode) s;
     block_write (fs_block s) src (ucast ofs) count s }"

definition inode_close :: "u64 \<Rightarrow> ('a) fs_scheme \<Rightarrow> ('a) fs_scheme option" where
  "inode_close node s = do {
     s \<leftarrow> acquire (inode_map_lock s) s;
     s \<leftarrow> acquire (inode_lock node) s;
     let s = put64 (open_count node) (load64 (mem s) (open_count node) - 1) s;
     s \<leftarrow> (if load64 (mem s) (open_count node) = 0
        then do {
          s \<leftarrow> (if mem s (inode_removed node) \<noteq> 0 then inode_free_data (inode_data node) s
             else do {
               (_, s) \<leftarrow> block_write (fs_block s) (inode_data node) (load64 (mem s) node) BLOCK_SECTOR_SIZE s;
               Some s });
          h \<leftarrow> hashtable_remove (inode_table s) (inode_lists s) (Elem node);
          disk_free node (s\<lparr>inode_lists := h\<rparr>) }
        else Some (release (inode_lock node) s));
     Some (release (inode_map_lock s) s) }"

subsection \<open>Files\<close>

text \<open>\<^verbatim>\<open>resolve_path\<close> measures the path and returns nothing, and its out parameter is not set:
  \<open>resolved\<close> is the pair that the caller finds there.\<close>

definition resolve_path :: "u64 \<Rightarrow> ('a) fs_scheme \<Rightarrow> (u64 \<times> u64) option" where
  "resolve_path pth s = do { _ \<leftarrow> strlen (mem s) pth; Some (resolved s) }"

definition init_file :: "u64 \<Rightarrow> u64 \<Rightarrow> ('a) fs_scheme \<Rightarrow> ('a) fs_scheme option" where
  "init_file f inode s = do {
     let s = put8 (f + 16) 0 s;
     let s = put64 (f + 8) 0 s;
     let s = put64 f inode s;
     s \<leftarrow> acquire (inode_lock inode) s;
     Some (release (inode_lock inode) s) }"

definition file_close :: "u64 \<Rightarrow> ('a) fs_scheme \<Rightarrow> ('a) fs_scheme option" where
  "file_close f s = (if f \<noteq> 0 then do { s \<leftarrow> inode_close (file_inode (mem s) f) s; disk_free f s } else Some s)"

definition file_set_info :: "u64 \<Rightarrow> u64 \<Rightarrow> ('a) fs_scheme \<Rightarrow> ('a) fs_scheme option" where
  "file_set_info f infomask s = do {
     let inode = file_inode (mem s) f;
     s \<leftarrow> acquire (inode_lock inode) s;
     let s = put64 (inode_data inode) infomask s;
     Some (release (inode_lock inode) s) }"

definition file_get_info :: "u64 \<Rightarrow> ('a) fs_scheme \<Rightarrow> (u64 \<times> ('a) fs_scheme) option" where
  "file_get_info f s = do {
     s \<leftarrow> acquire (inode_lock (file_inode (mem s) f)) s;
     let info = load64 (mem s) (inode_data (file_inode (mem s) f));
     Some (info, release (inode_lock (file_inode (mem s) f)) s) }"

definition file_set_mode :: "u64 \<Rightarrow> u32 \<Rightarrow> ('a) fs_scheme \<Rightarrow> ('a) fs_scheme option" where
  "file_set_mode f mode s = do {
     (i, s) \<leftarrow> file_get_info f s;
     let info = i AND scast (NOT FILEINFO_MODE_MASK);
     file_set_info f (info OR scast (push_bit FILEINFO_MODE_BASE mode)) s }"

definition file_get_mode :: "u64 \<Rightarrow> ('a) fs_scheme \<Rightarrow> u32" where
  "file_get_mode f s = ucast (drop_bit FILEINFO_MODE_BASE (load64 (mem s) (inode_data (file_inode (mem s) f))))"

definition file_read_at :: "u64 \<Rightarrow> u64 \<Rightarrow> u64 \<Rightarrow> size_t \<Rightarrow> ('a) fs_scheme \<Rightarrow> (u64 \<times> ('a) fs_scheme) option" where
  "file_read_at f dest at count s = inode_read_at (file_inode (mem s) f) dest at count s"

definition file_write_at :: "u64 \<Rightarrow> u64 \<Rightarrow> u64 \<Rightarrow> size_t \<Rightarrow> ('a) fs_scheme \<Rightarrow> (u64 \<times> ('a) fs_scheme) option" where
  "file_write_at f src at count s = inode_write_at (file_inode (mem s) f) src at count s"

definition file_read :: "u64 \<Rightarrow> u64 \<Rightarrow> size_t \<Rightarrow> ('a) fs_scheme \<Rightarrow> (u64 \<times> ('a) fs_scheme) option" where
  "file_read f dest count s = do {
     (n, s) \<leftarrow> file_read_at f dest (streampos (mem s) f) count s;
     Some (n, put64 (f + 8) (streampos (mem s) f + n) s) }"

definition file_write :: "u64 \<Rightarrow> u64 \<Rightarrow> size_t \<Rightarrow> ('a) fs_scheme \<Rightarrow> (u64 \<times> ('a) fs_scheme) option" where
  "file_write f src count s = do {
     (n, s) \<leftarrow> file_write_at f src (streampos (mem s) f) count s;
     Some (n, put64 (f + 8) (streampos (mem s) f + n) s) }"

definition file_eof :: "u64 \<Rightarrow> ('a) fs_scheme \<Rightarrow> (bool \<times> ('a) fs_scheme) option" where
  "file_eof f s = do {
     let inode = file_inode (mem s) f;
     s \<leftarrow> acquire (inode_lock inode) s;
     let eof = (streampos (mem s) f = ucast (load32 (mem s) (inode_data inode + 8)));
     Some (eof, release (inode_lock inode) s) }"

definition file_isdir :: "u64 \<Rightarrow> ('a) fs_scheme \<Rightarrow> bool" where
  "file_isdir f s \<longleftrightarrow> mem s (f + 16) \<noteq> 0"

subsection \<open>Directories\<close>

text \<open>\<open>file_to_directory\<close> and \<open>dir_to_file\<close> are casts: a directory starts with its file.\<close>

definition dir_close :: "u64 \<Rightarrow> ('a) fs_scheme \<Rightarrow> ('a) fs_scheme option" where
  "dir_close d s = file_close d s"

partial_function (option) mapping_loop :: "u64 \<Rightarrow> u64 \<Rightarrow> u64 \<Rightarrow> u64 \<Rightarrow> ('a) fs_scheme \<Rightarrow> (u64 \<times> ('a) fs_scheme) option" where
  "mapping_loop d nm entryofs ofs s =
     (if ofs < BLOCK_SECTOR_SIZE
      then do {
        (_, s) \<leftarrow> file_read_at d (ent_var s) ofs DIR_ENTRY_SIZE s;
        if strncmp (mem s) (ent_var s) nm NAME_MAX = 0
        then (let s = (if entryofs \<noteq> 0 then put64 entryofs ofs s else s)
              in Some (ucast (load32 (mem s) (ent_var s + 36)), s))
        else mapping_loop d nm entryofs (ofs + DIR_ENTRY_SIZE) s }
      else Some (ucast INODE_DISK_NPOS, s))"

definition dir_get_mapping :: "u64 \<Rightarrow> u64 \<Rightarrow> u64 \<Rightarrow> ('a) fs_scheme \<Rightarrow> (u64 \<times> ('a) fs_scheme) option" where
  "dir_get_mapping d nm entryofs s = mapping_loop d nm entryofs 0 s"

text \<open>Initialising the array \<^verbatim>\<open>name\<close> from a pointer converts the pointer to its first character.
  The local variables \<^verbatim>\<open>emptyofs\<close> and \<^verbatim>\<open>new_ent\<close> are at \<open>sector_var + 8\<close> and \<open>ent_var + 40\<close>.\<close>

definition put_entry :: "u64 \<Rightarrow> u64 \<Rightarrow> u64 \<Rightarrow> ('a) fs_scheme \<Rightarrow> ('a) fs_scheme option" where
  "put_entry e nm sector s = do {
     (m, _) \<leftarrow> memset (mem s) e 0 DIR_ENTRY_SIZE;
     let s = s\<lparr>mem := m\<rparr>;
     let s = put8 e (ucast nm) s;
     Some (put32 (e + 36) (ucast sector) s) }"

definition dir_add_file :: "u64 \<Rightarrow> u64 \<Rightarrow> u64 \<Rightarrow> ('a) fs_scheme \<Rightarrow> (bool \<times> ('a) fs_scheme) option" where
  "dir_add_file d sector nm s = do {
     let emptyofs = sector_var s + 8;
     (found, s) \<leftarrow> dir_get_mapping d nm emptyofs s;
     if found \<noteq> ucast INODE_DISK_NPOS
     then do {
       let new_ent = ent_var s + 40;
       s \<leftarrow> put_entry new_ent nm sector s;
       (n, s) \<leftarrow> file_write_at d new_ent (load64 (mem s) emptyofs) DIR_ENTRY_SIZE s;
       Some (n = DIR_ENTRY_SIZE, s) }
     else Some (False, s) }"

text \<open>\<^verbatim>\<open>dir_remove\<close> has no \<^verbatim>\<open>return\<close>.\<close>

definition dir_remove :: "u64 \<Rightarrow> u64 \<Rightarrow> ('a) fs_scheme \<Rightarrow> (bool \<times> ('a) fs_scheme) option" where
  "dir_remove d nm s = do {
     let entryofs = sector_var s + 8;
     (inode_sector, s) \<leftarrow> dir_get_mapping d nm entryofs s;
     s \<leftarrow> (if inode_sector \<noteq> ucast INODE_DISK_NPOS
        then do {
          (_, s) \<leftarrow> file_write_at d (zeroes s) (load64 (mem s) entryofs) DIR_ENTRY_SIZE s;
          (data, s) \<leftarrow> disk_alloc (unset s) 1 INODE_DISK_SIZE s;
          (_, s) \<leftarrow> block_read (fs_block s) data inode_sector INODE_DISK_SIZE s;
          s \<leftarrow> inode_free_data data s;
          disk_free data s }
        else Some s);
     Some (unset s \<noteq> 0, s) }"

definition create_file :: "u64 \<Rightarrow> u64 \<Rightarrow> u32 \<Rightarrow> ('a) fs_scheme \<Rightarrow> (bool \<times> ('a) fs_scheme) option" where
  "create_file relative pth mode s = do {
     (filename, parent) \<leftarrow> resolve_path pth s;
     (success, s) \<leftarrow> create_inode 0 (scast (push_bit FILEINFO_MODE_BASE mode)) (sector_var s) s;
     (success, s) \<leftarrow> (if success then dir_add_file parent (load64 (mem s) (sector_var s)) filename s else Some (False, s));
     s \<leftarrow> dir_close parent s;
     s \<leftarrow> disk_free filename s;
     Some (success, s) }"

definition remove_file :: "u64 \<Rightarrow> u64 \<Rightarrow> ('a) fs_scheme \<Rightarrow> (bool \<times> ('a) fs_scheme) option" where
  "remove_file relative pth s = do {
     (filename, parent) \<leftarrow> resolve_path pth s;
     (success, s) \<leftarrow> dir_remove parent filename s;
     s \<leftarrow> dir_close parent s;
     s \<leftarrow> disk_free filename s;
     Some (success, s) }"

definition open_file :: "u64 \<Rightarrow> u64 \<Rightarrow> ('a) fs_scheme \<Rightarrow> (u64 \<times> ('a) fs_scheme) option" where
  "open_file relative pth s = do {
     (filename, parent) \<leftarrow> resolve_path pth s;
     (f, s) \<leftarrow> (if filename \<noteq> 0
        then do {
          (f, s) \<leftarrow> disk_alloc (unset s) 1 FILE_SIZE s;
          (sector, s) \<leftarrow> dir_get_mapping parent filename 0 s;
          (inode, s) \<leftarrow> get_inode sector s;
          if f = 0 then None else do { s \<leftarrow> init_file f inode s; Some (f, s) } }
        else Some (0, s));
     s \<leftarrow> disk_free filename s;
     s \<leftarrow> dir_close parent s;
     Some (f, s) }"

definition open_dir :: "u64 \<Rightarrow> u64 \<Rightarrow> ('a) fs_scheme \<Rightarrow> (u64 \<times> ('a) fs_scheme) option" where
  "open_dir relative pth s = do {
     (filename, parent) \<leftarrow> resolve_path pth s;
     (inode, s) \<leftarrow> (if filename \<noteq> 0
        then do { (sector, s) \<leftarrow> dir_get_mapping parent filename 0 s; get_inode sector s }
        else if parent \<noteq> 0 then get_inode (load64 (mem s) (file_inode (mem s) relative)) s
        else Some (0, s));
     (d, s) \<leftarrow> (if inode \<noteq> 0
        then do {
          (d, s) \<leftarrow> disk_alloc (unset s) 1 DIR_SIZE s;
          if d = 0 then None
          else do {
            s \<leftarrow> init_file d inode s;
            let s = put8 (d + 16) 1 s;
            Some (d, put64 (d + 24) DIR_BASE_OFS s) } }
        else Some (0, s));
     s \<leftarrow> dir_close parent s;
     s \<leftarrow> disk_free filename s;
     Some (d, s) }"

definition init_dir :: "u64 \<Rightarrow> u64 \<Rightarrow> ('a) fs_scheme \<Rightarrow> (bool \<times> ('a) fs_scheme) option" where
  "init_dir relative pth s = do {
     (d, s) \<leftarrow> open_dir relative pth s;
     if d = 0 then None
     else do {
       let inode = file_inode (mem s) d;
       (success, s) \<leftarrow> (if relative \<noteq> 0
          then dir_add_file d (ucast (load32 (mem s) (inode_data inode + 12))) (dot_dot s) s
          else dir_add_file d (load64 (mem s) inode) (dot_dot s) s);
       (success, s) \<leftarrow> (if success then dir_add_file d (load64 (mem s) (file_inode (mem s) d)) (dot s) s else Some (False, s));
       s \<leftarrow> file_close d s;
       Some (success, s) } }"

definition create_dir :: "u64 \<Rightarrow> u64 \<Rightarrow> ('a) fs_scheme \<Rightarrow> (bool \<times> ('a) fs_scheme) option" where
  "create_dir relative pth s = do {
     (success, s) \<leftarrow> create_file relative pth 438 s;
     if success then init_dir relative pth s else Some (False, s) }"

definition get_root_dir :: "('a) fs_scheme \<Rightarrow> (u64 \<times> ('a) fs_scheme) option" where
  "get_root_dir s = do {
     (root, s) \<leftarrow> disk_alloc (unset s) 1 DIR_SIZE s;
     (inode, s) \<leftarrow> get_inode ROOT_DIR_SECTOR s;
     if root = 0 then None
     else do {
       let s = put64 root inode s;
       let s = put8 (root + 16) 1 s;
       let s = put64 (root + 8) 0 s;
       Some (root, put64 (root + 24) DIR_BASE_OFS s) } }"

subsection \<open>Transfers\<close>

lemma block_write_result: "block_write b p st count s = Some (n, s') \<Longrightarrow> n = 512 - count mod 512"
proof (cases "lock_value s (block_lock b) = 0")
  case True
  then show "block_write b p st count s = Some (n, s') \<Longrightarrow> ?thesis" by (simp add: block_write_def acquire_def)
next
  case False
  then show "block_write b p st count s = Some (n, s') \<Longrightarrow> ?thesis" using block_transfer(2) [OF False, of p st count] by simp
qed

lemma file_write_at_result: "file_write_at f p at count s = Some (n, s') \<Longrightarrow> n = 512 - count mod 512"
  by (auto simp: file_write_at_def inode_write_at_def Let_def split: bind_splits dest: block_write_result)

lemma dir_add_file_false: "dir_add_file d sector nm s = Some (r, s') \<Longrightarrow> \<not> r"
  by (auto simp: dir_add_file_def DIR_ENTRY_SIZE_def Let_def split: bind_splits if_splits dest!: file_write_at_result)

lemma create_file_false: "create_file rel p mode s = Some (r, s') \<Longrightarrow> \<not> r"
  by (auto simp: create_file_def split: bind_splits if_splits dest!: dir_add_file_false)

text \<open>C26: no entry is ever added to a directory and no file or directory is ever created: a write of
  an entry, when it comes to it, reports 472 bytes and not 40.\<close>

theorem create_never_succeeds:
  "dir_add_file d sector nm s \<noteq> Some (True, s') \<and> create_file rel p mode s \<noteq> Some (True, s') \<and>
   init_dir rel p s \<noteq> Some (True, s') \<and> create_dir rel p s \<noteq> Some (True, s')"
proof (intro conjI notI)
  show False if "init_dir rel p s = Some (True, s')"
    using that by (auto simp: init_dir_def Let_def split: bind_splits if_splits dest!: dir_add_file_false)
  then show False if "create_dir rel p s = Some (True, s')"
    using that by (auto simp: create_dir_def split: bind_splits if_splits dest!: create_file_false)
qed (auto dest: dir_add_file_false create_file_false)

subsection \<open>Modes\<close>

definition set_mode_bits :: "u64 \<Rightarrow> u32 \<Rightarrow> u64" where
  "set_mode_bits info mode = (info AND scast (NOT FILEINFO_MODE_MASK)) OR scast (push_bit FILEINFO_MODE_BASE mode)"

lemma mode_mask_bit: "bit FILEINFO_MODE_MASK n \<longleftrightarrow> 8 \<le> n \<and> n < 17"
proof -
  have "FILEINFO_MODE_MASK = push_bit 8 (mask 9)" by (simp add: FILEINFO_MODE_MASK_def mask_eq_exp_minus_1)
  then show ?thesis unfolding \<open>FILEINFO_MODE_MASK = _\<close> by (auto simp: bit_simps)
qed

lemma low9_bit: "(mode :: u32) < 512 \<Longrightarrow> bit mode n \<Longrightarrow> n < 9"
proof -
  assume "mode < 512" "bit mode n"
  then have "take_bit 9 mode = mode" by (simp add: take_bit_eq_mod word_less_nat_alt mod_word_less)
  then show ?thesis using \<open>bit mode n\<close> by (metis bit_take_bit_iff)
qed

lemma get_set_mode_bits:
  assumes "mode < 512"
  shows "ucast (drop_bit 8 (set_mode_bits info mode)) = ((ucast (drop_bit 8 info) AND NOT 511) OR mode :: u32)"
proof (rule bit_word_eqI)
  fix n :: nat
  assume n: "n < LENGTH(32)"
  have e: "(511 :: u32) = mask 9" by (simp add: mask_eq_exp_minus_1)
  show "bit (ucast (drop_bit 8 (set_mode_bits info mode)) :: u32) n
      \<longleftrightarrow> bit ((ucast (drop_bit 8 info) AND NOT 511) OR mode :: u32) n"
    unfolding e using n low9_bit [OF assms, of n] low9_bit [OF assms, of 23]
    by (auto simp: set_mode_bits_def bit_simps mode_mask_bit FILEINFO_MODE_BASE_def min_def simp del: mask_eq_exp_minus_1)
qed

text \<open>C29: setting the mode of a file and reading it gives the mode, under the bits above the nine
  of a mode, which stay.\<close>

theorem file_mode_round_trip:
  assumes "lock_value s (inode_lock (file_inode (mem s) f)) \<noteq> 0" "mode < 512"
    and apart: "\<forall>a. in_region a f 8 \<longrightarrow> \<not> in_region a (inode_data (file_inode (mem s) f)) 8"
  shows "\<exists>s'. file_set_mode f mode s = Some s' \<and> file_get_mode f s' = (file_get_mode f s AND NOT 511) OR mode"
proof -
  define i where "i = file_inode (mem s) f"
  have keep: "file_inode (store64 (mem s) (inode_data i) v) f = i" for v
  proof -
    have "load64 (store64 (mem s) (inode_data i) v) f = load64 (mem s) f"
    proof (rule load64_cong)
      fix w :: u64 assume "w < 8"
      then have "in_region (f + w) f 8" by (simp add: in_region_def word_less_nat_alt)
      then have "\<not> in_region (f + w) (inode_data i) 8" using apart by (simp add: i_def)
      then show "store64 (mem s) (inode_data i) v (f + w) = mem s (f + w)"
        by (simp add: store64_at in_region_def word_less_nat_alt)
    qed
    then show ?thesis by (simp add: file_inode_def i_def)
  qed
  have u: "(lock_value s)(l := lock_value s l) = lock_value s" for l by simp
  have "file_set_mode f mode s = Some (put64 (inode_data i) (set_mode_bits (load64 (mem s) (inode_data i)) mode) s)"
    using assms(1)
    by (simp add: file_set_mode_def file_get_info_def file_set_info_def acquire_def release_def put64_def set_mode_bits_def
        i_def Let_def)
  moreover have "file_get_mode f (put64 (inode_data i) (set_mode_bits (load64 (mem s) (inode_data i)) mode) s)
      = (file_get_mode f s AND NOT 511) OR mode"
    by (simp add: file_get_mode_def put64_def keep load_store_same get_set_mode_bits [OF assms(2)] FILEINFO_MODE_BASE_def flip: i_def)
  ultimately show ?thesis by blast
qed

subsection \<open>Loops\<close>

lemma for_loop_ofold:
  "unat i + k = unat n \<Longrightarrow>
   for_loop None (\<lambda>_. n) body i s = ofold (\<lambda>j. body (i + of_nat j)) [0..<k] s"
proof (induction k arbitrary: i s)
  case 0
  then show ?case by (simp add: for_loop.simps word_less_nat_alt)
next
  case (Suc k)
  have i: "i < n" "unat (i + 1) + k = unat n" using Suc.prems unat_plus_one [of i n] by (simp_all add: word_less_nat_alt)
  have "[0..<Suc k] = 0 # map Suc [0..<k]" by (simp add: map_Suc_upt upt_conv_Cons del: upt_Suc)
  moreover have "ofold (\<lambda>j. body (i + of_nat j)) (map Suc xs) t = ofold (\<lambda>j. body (i + 1 + of_nat j)) xs t" for xs t
    by (induction xs arbitrary: t) (auto simp: add.assoc split: bind_split)
  ultimately show ?case using i Suc.IH [OF i(2)]
    by (subst for_loop.simps) (simp add: keep_on_def cong: Option.bind_cong)
qed

lemma for_loop_skip: "unat n - unat i = k \<Longrightarrow> for_loop cond (\<lambda>_. n) (\<lambda>_. Some) i s = Some s"
proof (induction k arbitrary: i)
  case 0
  then show ?case by (simp add: for_loop.simps word_less_nat_alt)
next
  case (Suc k)
  then have "i < n" by (simp add: word_less_nat_alt)
  then have "unat n - unat (i + 1) = k" using Suc.prems unat_plus_one [of i n] by simp
  then show ?case using Suc.IH by (subst for_loop.simps) simp
qed

lemma unat_ucast32 [simp]: "unat (ucast (x :: u32) :: u64) = unat x"
proof -
  have "unat x < 18446744073709551616" using unat_less_2p [of x] by simp
  then show ?thesis by (simp add: unsigned_ucast_eq take_bit_eq_mod)
qed

text \<open>The walk over an inode without tables runs the action on each of its extents, in order
  and once, and stops with the first that fails.\<close>

theorem foreach_header_visits:
  assumes "inode_disk_at_header (mem s) d"
  shows "inode_disk_foreach d exta tablea None s =
    ofold (\<lambda>i. exta (d + 40 + 8 * of_nat i)) [0..<unat (next_extent (mem s) d)] s"
  using assms for_loop_ofold [of 0 "unat (next_extent (mem s) d)" "ucast (next_extent (mem s) d)"]
  by (simp add: inode_disk_foreach_def inode_disk_foreach_header_def extent_loop_def header_extents_def)

subsection \<open>Positions\<close>

lemma inode_offset_header:
  assumes "inode_disk_at_header (mem s) (inode_data i)"
  shows "inode_offset i at s = Some (ucast (unset s), s)"
proof -
  have c: "(\<lambda>j. calcuate_offset (e + 8 * j)) = (\<lambda>_. Some)" for e by (simp add: fun_eq_iff calcuate_offset_def)
  show ?thesis using assms
    by (simp add: inode_offset_def inode_disk_foreach_def inode_disk_foreach_header_def extent_loop_def c Let_def
        for_loop_skip [OF refl])
qed

text \<open>Reading from and writing to a file whose inode has no tables ignores the position: the
  sector is the value of a variable that is never set.  A read of whole sectors, of none as
  of any number, reports 512 bytes and moves the position by 512.\<close>

theorem file_transfer_ignores_position:
  assumes "lock_value s (inode_lock (file_inode (mem s) f)) \<noteq> 0" "lock_value s (block_lock (fs_block s)) \<noteq> 0"
    and "inode_disk_at_header (mem s) (inode_data (file_inode (mem s) f))"
  shows "file_read_at f p at count s = block_read (fs_block s) p (ucast (ucast (unset s) :: u32)) count s \<and>
    file_write_at f p at count s = block_write (fs_block s) p (ucast (ucast (unset s) :: u32)) count s \<and>
    (count mod 512 = 0 \<longrightarrow> (\<exists>s'. file_read f p count s = Some (512, s') \<and>
      streampos (mem s') f = streampos (mem s) f + 512))"
proof -
  define t where "t = s\<lparr>lock_value := (lock_value s)(inode_lock (file_inode (mem s) f) := lock_value s (inode_lock (file_inode (mem s) f)) - 1)\<rparr>"
  have t: "acquire (inode_lock (file_inode (mem s) f)) s = Some t" "release (inode_lock (file_inode (mem s) f)) t = s"
    "inode_offset (file_inode (mem s) f) at t = Some (ucast (unset s), t)" for at
    using assms(1,3) inode_offset_header [of t] by (simp_all add: t_def acquire_def release_def)
  have rd: "file_read_at f p at count s = block_read (fs_block s) p (ucast (ucast (unset s) :: u32)) count s" for at
    by (simp add: file_read_at_def inode_read_at_def t)
  moreover have "file_write_at f p at count s = block_write (fs_block s) p (ucast (ucast (unset s) :: u32)) count s"
    by (simp add: file_write_at_def inode_write_at_def t)
  moreover have "\<exists>s'. file_read f p count s = Some (512, s') \<and> streampos (mem s') f = streampos (mem s) f + 512"
    if "count mod 512 = 0"
    using that by (simp add: file_read_def rd block_transfer(1) [OF assms(2)] put64_def streampos_def load_store_same)
  ultimately show ?thesis by blast
qed

subsection \<open>Space\<close>

lemma disk_alloc_fs:
  "disk_alloc j n sz s = Some (b, s') \<Longrightarrow> fs_free_sectors s' = fs_free_sectors s \<and> fs_free_map_lock s' = fs_free_map_lock s \<and>
    inode_map_lock s' = inode_map_lock s \<and> lock_value s' = lock_value s"
  for s s' :: "'a fs_scheme"
  by (cases s) (auto simp: disk_alloc_def vm.defs split: bind_splits)

lemma init_filesystem_locks:
  assumes "init_filesystem s0 = Some s" "fs_free_map_lock s0 \<noteq> inode_map_lock s0"
  shows "fs_free_sectors s = fs_free_sectors s0 \<and> lock_value s (fs_free_map_lock s) = 1"
  using assms
  by (auto simp: init_filesystem_def disk_lock_init_def Let_def split: bind_splits if_splits prod.splits dest!: disk_alloc_fs)

text \<open>C28: \<^verbatim>\<open>fs_free_sectors\<close>, zero from the start of the program, is never set, also not by
  \<^verbatim>\<open>init_filesystem\<close>, which makes both locks (they lie at different addresses) free: after it every request of \<^verbatim>\<open>inode_disk_allocate_space\<close> for at least one sector fails and
  changes nothing.  The request for none is met, and releases the lock of the free map, which is
  taken once, twice: two threads can hold it afterwards.\<close>

theorem allocate_space_never_allocates:
  assumes "init_filesystem s0 = Some s" "fs_free_sectors s0 = 0" "fs_free_map_lock s0 \<noteq> inode_map_lock s0"
  shows "(0 < n \<longrightarrow> inode_disk_allocate_space d n s = Some (False, s)) \<and>
    (\<exists>s'. inode_disk_allocate_space d 0 s = Some (True, s') \<and> lock_value s' (fs_free_map_lock s') = 2)"
proof -
  have z: "fs_free_sectors s = 0" "lock_value s (fs_free_map_lock s) = 1"
    using init_filesystem_locks [OF assms(1,3)] assms(2) by simp_all
  have "inode_disk_allocate_space d n s = Some (False, s)" if "0 < n"
  proof -
    have "\<not> n \<le> 0" using that by simp
    then show ?thesis using z by (simp add: inode_disk_allocate_space_def acquire_def release_def fun_upd_idem)
  qed
  then show ?thesis using z
    by (auto simp: inode_disk_allocate_space_def acquire_def release_def space_loop.simps)
qed

text \<open>\<^verbatim>\<open>free_map_allocate\<close> looks for a clear bit in the variables behind the pointer: when the first of
  them is an even word, it gives out sector zero, that of the root directory, which the free map has
  as taken, flips the lowest bit of that variable and leaves the free map alone.\<close>

theorem root_sector_given_out:
  assumes "lock_value s (fs_free_map_lock s) \<noteq> 0" "1 < fs_map_ptr s" "words_behind s = w # ws" "even w"
    and "slots s = (\<lambda>_. None)"
  shows "\<exists>s'. free_map_allocate 1 s = Some (ROOT_DIR_SECTOR, s') \<and> fs_free_map s' = fs_free_map s \<and>
    words_behind s' = (w XOR 1) # ws"
proof -
  define t where "t = s\<lparr>lock_value := (lock_value s)(fs_free_map_lock s := lock_value s (fs_free_map_lock s) - 1)\<rparr>"
  have t: "acquire (fs_free_map_lock s) s = Some t" using assms(1) by (simp add: t_def acquire_def)
  have view: "pointer_as_map t = \<lparr>bitcount = fs_map_ptr s, bufsize = word_behind s, bits = w # ws\<rparr>"
    using assms(3,5) map_nth [of "w # ws"] by (simp add: pointer_as_map_def t_def)
  have "fs_map_ptr s \<noteq> 0" using assms(2) by auto
  then have pos: "0 < fs_map_ptr s" by (simp add: word_neq_0_conv)
  have clear: "w AND 1 = 0" using assms(4) by (simp add: and_one_eq even_iff_mod_2_eq_zero)
  have "bitmap_scan_and_flip (pointer_as_map t) 0 1 False
      = Some (0, \<lparr>bitcount = fs_map_ptr s, bufsize = word_behind s, bits = (w XOR 1) # ws\<rparr>)"
    using pos clear unfolding view
    by (simp add: bitmap_scan_and_flip_def bitmap_scan.simps [of _ 0] scan_run.simps bitmap_test_def bitmap_elem_def
        bitmap_elem_put_def bitmap_mask_def bit_to_elem_def ELEM_BITS_def bitmap_flip.simps BITMAP_NPOS_def Let_def)
  moreover have "put_map_words bm t = t\<lparr>words_behind := bits bm\<rparr>" for bm
  proof -
    have "fold (\<lambda>k s. case slots s k of Some v \<Rightarrow> put_static v (bits bm ! k) s | None \<Rightarrow> s) ks u = u"
      if "slots u = (\<lambda>_. None)" for ks and u :: "'a fs_scheme"
      using that by (induction ks) simp_all
    then show ?thesis using assms(5) by (simp add: put_map_words_def t_def)
  qed
  moreover have "fs_free_map t = fs_free_map s" by (simp add: t_def)
  ultimately show ?thesis
    using assms(2) view by (simp add: free_map_allocate_def t bitmap_size_def release_def ROOT_DIR_SECTOR_def)
qed

text \<open>C27: \<^verbatim>\<open>open_inode\<close> never returns: it looks the inode up while it holds the lock that the lookup
  takes.\<close>

theorem open_inode_never_returns:
  assumes "lock_value s (inode_map_lock s) \<le> 1"
  shows "open_inode sector s = None"
proof -
  have g: "get_inode k t = None" if "lock_value t (inode_map_lock t) = 0" for k and t :: "'a fs_scheme"
    using that by (simp add: get_inode_def acquire_def put64_def)
  have twice: "get_inode sector u = None" if "acquire (inode_map_lock s) s = Some u" for u
  proof -
    have nz: "lock_value s (inode_map_lock s) \<noteq> 0" using that by (simp add: acquire_def split: if_splits)
    then have "0 < unat (lock_value s (inode_map_lock s))" "unat (lock_value s (inode_map_lock s)) \<le> 1"
      using assms by (simp_all add: unat_gt_0 word_le_nat_alt)
    then have "lock_value s (inode_map_lock s) = 1" by (simp add: word_unat_eq_iff)
    then show ?thesis using that by (auto simp: acquire_def intro!: g)
  qed
  show ?thesis
  proof (cases "acquire (fs_free_map_lock s) s")
    case None
    then show ?thesis by (simp add: open_inode_def)
  next
    case (Some t)
    have r: "release (fs_free_map_lock t) t = s"
      using Some by (auto simp: acquire_def release_def split: if_splits)
    show ?thesis by (auto simp: open_inode_def Some r Let_def dest!: twice split: bind_split)
  qed
qed

subsection \<open>Lookup\<close>

text \<open>An inode that is not in the table is answered with the address -8, the container of the
  null list element, which is not the null pointer that the callers test for.\<close>

theorem get_inode_missing:
  assumes "lock_value s (inode_map_lock s) \<noteq> 0"
    and "\<forall>b. list_rep (inode_lists s) (bucket_con (inode_map s) b) []" "buckets (inode_map s) \<noteq> 0"
  shows "\<exists>s'. get_inode sector s = Some (- 8, s') \<and> lock_value s' = lock_value s"
proof -
  define t where "t = put64 (key_var s) sector s"
  define u where "u = t\<lparr>lock_value := (lock_value s)(inode_map_lock s := lock_value s (inode_map_lock s) - 1)\<rparr>"
  have u: "acquire (inode_map_lock t) t = Some u" "lock_value (release (inode_map_lock u) u) = lock_value s"
    using assms(1) by (simp_all add: u_def t_def acquire_def release_def put64_def)
  have "list_begin (inode_lists s) (bucket_con (inode_map s) b) = Tail (bucket_con (inode_map s) b)" for b
    using assms(2) list_rep_begin by fastforce
  then have "hashtable_find (inode_table u) (inode_lists u) e = Some NULL" for e
    using assms(3)
    by (simp add: hashtable_find_def bucket_of_def inode_table_def u_def t_def put64_def find_loop.simps list_end_def)
  then show ?thesis using u by (simp add: get_inode_def Let_def flip: t_def)
qed

subsection \<open>Concrete runs\<close>

definition demo_fs :: "u8 \<Rightarrow> fs" where
  "demo_fs v = disk.extend
     (vm.extend (heap.extend (demo_heap\<lparr>mem := (\<lambda>_. v)\<rparr>) (vm.fields 0x400000 0x1000 0x1000))
       (disk.fields (\<lambda>_. \<lparr>block_name = 0, start_sector = 0, sector_count = 0\<rparr>) 0x8000 (\<lambda>_. 1)))
     (fs.fields 0x8000 0 (bitmap_create 70) 0xFFFF800000500018 0 [6, 5] (\<lambda>_. None)
        (fst (hashtable_init \<lparr>prev = (\<lambda>_. NULL), nxt = (\<lambda>_. NULL), lsize = (\<lambda>_. 0)\<rparr> (\<lambda>i. 0) (hash_inode (\<lambda>_. v)) (inode_equal (\<lambda>_. v))))
        (list_init \<lparr>prev = (\<lambda>_. NULL), nxt = (\<lambda>_. NULL), lsize = (\<lambda>_. 0)\<rparr> 0)
        0x10 0x20 5 (0x30, 0x40) 0x50 0x60 0xA0 0xC0 0xD0 0xE0)"

lemma demo_fs_fields:
  "mem (demo_fs v) = (\<lambda>_. v)" "lock_value (demo_fs v) l = 1" "fs_free_sectors (demo_fs v) = 0"
  "fs_map_ptr (demo_fs v) = 0xFFFF800000500018" "words_behind (demo_fs v) = [6, 5]" "slots (demo_fs v) = (\<lambda>_. None)"
  "fs_free_map_lock (demo_fs v) = 0x10" "inode_map_lock (demo_fs v) = 0x20"
  "list_rep (inode_lists (demo_fs v)) 0 []"
  "bucket_con (inode_map (demo_fs v)) b = 0" "buckets (inode_map (demo_fs v)) = 10"
  by (simp_all add: demo_fs_def disk.defs vm.defs heap.defs fs.defs list_rep_init hashtable_init_def INIT_BUCKETS_def)

theorem get_inode_missing_witness: "\<exists>s'. get_inode 3 (demo_fs 0) = Some (- 8, s')"
  using get_inode_missing [of "demo_fs 0" 3] by (auto simp: demo_fs_fields)

theorem open_inode_never_returns_witness: "open_inode 3 (demo_fs 0) = None"
  by (rule open_inode_never_returns) (simp add: demo_fs_fields)

theorem file_mode_round_trip_witness:
  "\<exists>s'. file_set_mode 0x9000 438 (demo_fs 0) = Some s' \<and> file_get_mode 0x9000 s' = 438"
proof -
  have z: "file_inode (\<lambda>_. 0) f = 0" for f by (simp add: file_inode_def load64_def)
  have "\<forall>a. in_region a 0x9000 8 \<longrightarrow> \<not> in_region a (inode_data 0) 8"
    using regions_apart [where p = "inode_data 0" and n = 8 and q = "0x9000" and k = 8] by (auto simp: inode_data_def)
  moreover have "file_get_mode f (demo_fs 0) = 0" for f
    by (simp add: file_get_mode_def demo_fs_fields z load64_def FILEINFO_MODE_BASE_def)
  ultimately show ?thesis using file_mode_round_trip [of "demo_fs 0" "0x9000" 438] by (simp add: demo_fs_fields z)
qed

lemma demo_fs_header: "inode_disk_at_header (mem (demo_fs 255)) d"
  by (simp add: inode_disk_at_header_def first_level_table_def INODE_DISK_NPOS_def load32_def demo_fs_fields)

theorem foreach_header_visits_witness:
  "inode_disk_foreach 0x9000 (\<lambda>e s. None) None None (demo_fs 255) =
    ofold (\<lambda>i s. None) [0..<unat (next_extent (mem (demo_fs 255)) 0x9000)] (demo_fs 255)"
  by (rule foreach_header_visits) (rule demo_fs_header)

theorem file_transfer_ignores_position_witness:
  "\<exists>s'. file_read 0x9000 0x100 4096 (demo_fs 255) = Some (512, s') \<and>
     streampos (mem s') 0x9000 = streampos (mem (demo_fs 255)) 0x9000 + 512"
  using file_transfer_ignores_position [OF _ _ demo_fs_header, of "0x9000" "0x100" 0 4096] by (simp add: demo_fs_fields)

theorem root_sector_given_out_witness:
  "\<exists>s'. free_map_allocate 1 (demo_fs 0) = Some (0, s') \<and> words_behind s' = [7, 5]"
  using root_sector_given_out [of "demo_fs 0" 6 "[5]"] by (auto simp: demo_fs_fields ROOT_DIR_SECTOR_def)

text \<open>A heap without size classes answers every request with the unset value.\<close>

lemma disk_alloc_junk:
  "(\<And>i. block_size (descriptors s i) = 0) \<Longrightarrow> n * sz \<noteq> 0 \<Longrightarrow> disk_alloc j n sz s = Some (j, s)"
  by (cases s) (simp add: disk_alloc_def vm_alloc_def kcalloc_def kmalloc_def find_desc_def vm.defs heap.defs)

theorem allocate_space_never_allocates_witness:
  "\<exists>s s'. init_filesystem (demo_fs 0) = Some s \<and> inode_disk_allocate_space 0x9000 4 s = Some (False, s) \<and>
     inode_disk_allocate_space 0x9000 0 s = Some (True, s') \<and> lock_value s' (fs_free_map_lock s') = 2"
proof -
  have h: "block_size (descriptors (demo_fs 0) i) = 0" for i
    by (simp add: demo_fs_def disk.defs vm.defs heap.defs fs.defs demo_heap_def)
  have n: "block_sectors (demo_fs 0) b = 0" for b
    by (simp add: block_sectors_def demo_fs_def disk.defs vm.defs heap.defs fs.defs)
  have "unset (demo_fs 0) = 5" by (simp add: demo_fs_def disk.defs vm.defs heap.defs fs.defs)
  moreover have "bitmap_bufsize 0 = 0" by (simp add: bitmap_bufsize_def div_rnd_up_def)
  ultimately obtain s where s: "init_filesystem (demo_fs 0) = Some s"
    using n by (simp add: init_filesystem_def Let_def disk_alloc_junk h BITMAP_HEADER_SIZE_def INIT_BUCKETS_def demo_fs_fields
        block_sectors_def get_block_def bitmap_set.simps bitmap_create_def ROOT_DIR_SECTOR_def disk_lock_init_def case_prod_unfold)
  from allocate_space_never_allocates [OF s, of 4 "0x9000"] s show ?thesis by (auto simp: demo_fs_fields)
qed

end
