(* ===== verification/Fdtable.thy ===== *)
theory Fdtable
  imports Filesys
begin

unbundle bit_operations_syntax

section \<open>File descriptors (thr/fdtable.c)\<close>

text \<open>
  Model of \<^verbatim>\<open>kern/lib/thr/fdtable.c\<close>.  A \<^verbatim>\<open>struct fd\<close> lies in the byte memory of the file system
  state and its list element is named by its address; the fields of a \<^verbatim>\<open>struct fdtable\<close> other
  than its lock are typed.  \<open>file_read_ptr\<close> and \<open>file_write_ptr\<close> are the addresses of the two
  functions that a descriptor calls through its pointers; a call through any other pointer
  faults, as does an access through the null pointer.  The local key of a lookup is at \<open>fd_key\<close>.
\<close>

subsection \<open>State\<close>

record fdtable =
  fdmap :: "(u64, u64) hashtable"
  freefdmap :: bitmap
  cwd :: u64

record fdstate =
  files :: fs
  fdtables :: "u64 \<Rightarrow> fdtable"
  fd_lists :: "(u64, u64) lheap"
  fd_key :: u64
  file_read_ptr :: u64
  file_write_ptr :: u64

definition FD_SIZE :: size_t where "FD_SIZE = 104"
definition FDTABLE_SIZE :: size_t where "FDTABLE_SIZE = 112"
definition FDTYPE_FILE :: u32 where "FDTYPE_FILE = 0"

definition fd_number :: "bytes \<Rightarrow> u64 \<Rightarrow> u32" where "fd_number m fd = load32 m fd"
definition fd_type :: "bytes \<Rightarrow> u64 \<Rightarrow> u32" where "fd_type m fd = load32 m (fd + 4)"
definition io_object :: "bytes \<Rightarrow> u64 \<Rightarrow> u64" where "io_object m fd = load64 m (fd + 24)"
definition readfunc :: "bytes \<Rightarrow> u64 \<Rightarrow> u64" where "readfunc m fd = load64 m (fd + 32)"
definition writefunc :: "bytes \<Rightarrow> u64 \<Rightarrow> u64" where "writefunc m fd = load64 m (fd + 40)"
definition fd_lock :: "u64 \<Rightarrow> u64" where "fd_lock fd = fd + 48"
definition fdtable_lock :: "u64 \<Rightarrow> u64" where "fdtable_lock t = t + 56"

definition set_files :: "fs \<Rightarrow> ('a) fdstate_scheme \<Rightarrow> ('a) fdstate_scheme" where
  "set_files v s = s\<lparr>files := v\<rparr>"

definition upd_fdtable :: "u64 \<Rightarrow> (fdtable \<Rightarrow> fdtable) \<Rightarrow> ('a) fdstate_scheme \<Rightarrow> ('a) fdstate_scheme" where
  "upd_fdtable t g s = s\<lparr>fdtables := (fdtables s)(t := g (fdtables s t))\<rparr>"

subsection \<open>The table\<close>

text \<open>A descriptor starts eight bytes before its list element, as an inode does: \<open>inode_ptr\<close> is
  the container of an element.  The number is signed and is extended to 64 bits.\<close>

definition hash_fd :: "bytes \<Rightarrow> (u64, u64) ptr \<Rightarrow> size_t" where
  "hash_fd m e = hash_uint64 (scast (fd_number m (inode_ptr e)))"

definition fd_identity :: "bytes \<Rightarrow> (u64, u64) ptr \<Rightarrow> (u64, u64) ptr \<Rightarrow> bool" where
  "fd_identity m l r \<longleftrightarrow> fd_number m (inode_ptr l) = fd_number m (inode_ptr r)"

definition fd_table :: "('a) fdstate_scheme \<Rightarrow> u64 \<Rightarrow> (u64, u64) hashtable" where
  "fd_table s t = (fdmap (fdtables s t))\<lparr>fn := hash_fd (mem (files s)), eq := fd_identity (mem (files s))\<rparr>"

definition create_fdtable :: "u64 \<Rightarrow> size_t \<Rightarrow> ('a) fdstate_scheme \<Rightarrow> (u64 \<times> ('a) fdstate_scheme) option" where
  "create_fdtable dir cnt s = do {
     (t, v) \<leftarrow> disk_alloc (unset (files s)) 1 FDTABLE_SIZE (files s);
     if t = 0 then None
     else do {
       (con, v) \<leftarrow> disk_alloc (unset v) INIT_BUCKETS 40 v;
       let (tab, h) = hashtable_init (fd_lists s) (\<lambda>i. con + 40 * i) (hash_fd (mem v)) (fd_identity (mem v));
       let s = set_files v (s\<lparr>fd_lists := h\<rparr>);
       bm \<leftarrow> bitmap_set (bitmap_create cnt) 0 3 True;
       let s = upd_fdtable t (\<lambda>_. \<lparr>fdmap = tab, freefdmap = bm, cwd = dir\<rparr>) s;
       Some (t, set_files (disk_lock_init (fdtable_lock t) (files s)) s) } }"

definition fd_free :: "u64 \<Rightarrow> ('a) fdstate_scheme \<Rightarrow> ('a) fdstate_scheme option" where
  "fd_free fd s =
     (if fd = 0 then None
      else do {
        v \<leftarrow> (if fd_type (mem (files s)) fd = FDTYPE_FILE then file_close (io_object (mem (files s)) fd) (files s)
             else Some (files s));
        v \<leftarrow> disk_free fd v;
        Some (set_files v s) })"

definition fd_destroy :: "(u64, u64) ptr \<Rightarrow> u64 + unit \<Rightarrow> ('a) fdstate_scheme \<Rightarrow> ('a) fdstate_scheme option" where
  "fd_destroy e aux s = fd_free (inode_ptr e) s"

text \<open>The table itself, its bitmap and its lock stay allocated.\<close>

definition fdtable_destroy :: "u64 \<Rightarrow> ('a) fdstate_scheme \<Rightarrow> ('a) fdstate_scheme option" where
  "fdtable_destroy t s =
     hashtable_destroy fd_lists (\<lambda>con s. do { v \<leftarrow> disk_free (con 0) (files s); Some (set_files v s) })
       (fd_table s t) fd_destroy None s"

definition fdtable_size :: "u64 \<Rightarrow> ('a) fdstate_scheme \<Rightarrow> size_t" where
  "fdtable_size t s = bitmap_size (freefdmap (fdtables s t))"

text \<open>The descriptor enters the table before its number is set.\<close>

definition fdtable_open :: "u64 \<Rightarrow> u64 \<Rightarrow> ('a) fdstate_scheme \<Rightarrow> (u64 \<times> ('a) fdstate_scheme) option" where
  "fdtable_open t pth s = do {
     (fd, v) \<leftarrow> disk_alloc (unset (files s)) 1 FD_SIZE (files s);
     if fd = 0 then None
     else do {
       v \<leftarrow> acquire (fdtable_lock t) v;
       let s = set_files v s;
       (tab, h) \<leftarrow> hashtable_insert (fd_table s t) (fd_lists s) (Elem fd);
       let s = upd_fdtable t (\<lambda>d. d\<lparr>fdmap := tab\<rparr>) (s\<lparr>fd_lists := h\<rparr>);
       (f, v) \<leftarrow> open_file (cwd (fdtables s t)) pth (files s);
       let v = put64 (fd + 24) f v;
       let v = disk_lock_init (fd_lock fd) v;
       let v = put64 (fd + 32) (file_read_ptr s) v;
       let v = put64 (fd + 40) (file_write_ptr s) v;
       (n, bm) \<leftarrow> bitmap_scan_and_flip (freefdmap (fdtables s t)) 0 1 True;
       let v = put32 fd (ucast n) v;
       let s = upd_fdtable t (\<lambda>d. d\<lparr>freefdmap := bm\<rparr>) s;
       Some (fd, set_files (release (fdtable_lock t) v) s) } }"

definition fdtable_lookupfd :: "u64 \<Rightarrow> u32 \<Rightarrow> ('a) fdstate_scheme \<Rightarrow> (u64 \<times> ('a) fdstate_scheme) option" where
  "fdtable_lookupfd t n s = do {
     let s = set_files (put32 (fd_key s) n (files s)) s;
     el \<leftarrow> hashtable_find (fd_table s t) (fd_lists s) (Elem (fd_key s));
     Some (if el \<noteq> NULL then inode_ptr el else 0, s) }"

text \<open>A freed descriptor stays in the table, and its number stays taken.\<close>

definition fdtable_free :: "u64 \<Rightarrow> u32 \<Rightarrow> ('a) fdstate_scheme \<Rightarrow> ('a) fdstate_scheme option" where
  "fdtable_free t n s = do { (fd, s) \<leftarrow> fdtable_lookupfd t n s; fd_free fd s }"

subsection \<open>Transfers\<close>

text \<open>A call through the pointer \<open>fp\<close>.\<close>

definition call_io :: "u64 \<Rightarrow> u64 \<Rightarrow> u64 \<Rightarrow> size_t \<Rightarrow> ('a) fdstate_scheme \<Rightarrow> (u64 \<times> ('a) fdstate_scheme) option" where
  "call_io fp object buf count s = do {
     (n, v) \<leftarrow> (if fp = file_read_ptr s then file_read object buf count (files s)
        else if fp = file_write_ptr s then file_write object buf count (files s)
        else None);
     Some (n, set_files v s) }"

definition fd_acquire :: "u64 \<Rightarrow> ('a) fdstate_scheme \<Rightarrow> ('a) fdstate_scheme option" where
  "fd_acquire fd s = (if fd = 0 then None else do { v \<leftarrow> acquire (fd_lock fd) (files s); Some (set_files v s) })"

definition fd_release :: "u64 \<Rightarrow> ('a) fdstate_scheme \<Rightarrow> ('a) fdstate_scheme" where
  "fd_release fd s = set_files (release (fd_lock fd) (files s)) s"

definition fd_write :: "u64 \<Rightarrow> u64 \<Rightarrow> size_t \<Rightarrow> ('a) fdstate_scheme \<Rightarrow> (u64 \<times> ('a) fdstate_scheme) option" where
  "fd_write fd src count s = do {
     s \<leftarrow> fd_acquire fd s;
     (n, s) \<leftarrow> call_io (writefunc (mem (files s)) fd) (io_object (mem (files s)) fd) src count s;
     Some (n, fd_release fd s) }"

definition fd_read :: "u64 \<Rightarrow> u64 \<Rightarrow> size_t \<Rightarrow> ('a) fdstate_scheme \<Rightarrow> (u64 \<times> ('a) fdstate_scheme) option" where
  "fd_read fd dest count s = do {
     s \<leftarrow> fd_acquire fd s;
     (n, s) \<leftarrow> call_io (readfunc (mem (files s)) fd) (io_object (mem (files s)) fd) dest count s;
     Some (n, fd_release fd s) }"

definition fd_chmod :: "u64 \<Rightarrow> u32 \<Rightarrow> ('a) fdstate_scheme \<Rightarrow> (bool \<times> ('a) fdstate_scheme) option" where
  "fd_chmod fd mode s =
     (if fd = 0 then None
      else if fd_type (mem (files s)) fd = FDTYPE_FILE
      then do { v \<leftarrow> file_set_mode (io_object (mem (files s)) fd) mode (files s); Some (True, set_files v s) }
      else Some (False, s))"

definition fd_eof :: "u64 \<Rightarrow> ('a) fdstate_scheme \<Rightarrow> (bool \<times> ('a) fdstate_scheme) option" where
  "fd_eof fd s = do {
     s \<leftarrow> fd_acquire fd s;
     (eof, v) \<leftarrow> (if fd_type (mem (files s)) fd = FDTYPE_FILE then file_eof (io_object (mem (files s)) fd) (files s)
        else Some (False, files s));
     Some (eof, fd_release fd (set_files v s)) }"

definition fd_get :: "u64 \<Rightarrow> ('a) fdstate_scheme \<Rightarrow> u32 option" where
  "fd_get fd s = (if fd = 0 then None else Some (fd_number (mem (files s)) fd))"

subsection \<open>Numbers\<close>

text \<open>What an open does to its table, from the descriptor it answers on.\<close>

lemma fdtable_openD:
  assumes "fdtable_open t pth s = Some (fd, s')"
  obtains v1 s1 tab h v n bm where
    "disk_alloc (unset (files s)) 1 FD_SIZE (files s) = Some (fd, v1)" "fd \<noteq> 0"
    "s1 = set_files (v1\<lparr>lock_value := (lock_value v1)(fdtable_lock t := lock_value v1 (fdtable_lock t) - 1)\<rparr>) s"
    "hashtable_insert (fd_table s1 t) (fd_lists s) (Elem fd) = Some (tab, h)"
    "bitmap_scan_and_flip (freefdmap (fdtables s t)) 0 1 True = Some (n, bm)"
    "fdtables s' = (fdtables s)(t := (fdtables s t)\<lparr>fdmap := tab, freefdmap := bm\<rparr>)"
    "fd_lists s' = h" "fd_key s' = fd_key s" "mem (files s') = store32 v fd (ucast n)"
proof -
  obtain v1 where a: "disk_alloc (unset (files s)) 1 FD_SIZE (files s) = Some (fd, v1)" "fd \<noteq> 0"
    using assms by (auto simp: fdtable_open_def Let_def split: bind_splits if_splits prod.splits)
  let ?v = "v1\<lparr>lock_value := (lock_value v1)(fdtable_lock t := lock_value v1 (fdtable_lock t) - 1)\<rparr>"
  obtain tab h f v2 n bm where
    "hashtable_insert (fd_table (set_files ?v s) t) (fd_lists s) (Elem fd) = Some (tab, h)"
    "bitmap_scan_and_flip (freefdmap (fdtables s t)) 0 1 True = Some (n, bm)"
    "s' = upd_fdtable t (\<lambda>d. d\<lparr>freefdmap := bm\<rparr>) (upd_fdtable t (\<lambda>d. d\<lparr>fdmap := tab\<rparr>) (s\<lparr>fd_lists := h\<rparr>))
      \<lparr>files := release (fdtable_lock t) (put32 fd (ucast n) (put64 (fd + 40) (file_write_ptr s)
        (put64 (fd + 32) (file_read_ptr s) (disk_lock_init (fd_lock fd) (put64 (fd + 24) f v2)))))\<rparr>"
    using assms a
    by (auto simp: fdtable_open_def Let_def acquire_def set_files_def upd_fdtable_def split: bind_splits if_splits prod.splits)
  then show ?thesis
    by (intro that [OF a refl, of tab h n bm "mem (put64 (fd + 40) (file_write_ptr s)
        (put64 (fd + 32) (file_read_ptr s) (disk_lock_init (fd_lock fd) (put64 (fd + 24) f v2))))"])
      (simp_all add: upd_fdtable_def release_def put32_def)
qed

lemma fdtable_open_number:
  assumes "fdtable_open t pth s = Some (fd, s')" "bm_ok (freefdmap (fdtables s t))" "B = set_bits (freefdmap (fdtables s t))"
  shows "fd_get fd s' = Some (if B = {} then - 1 else of_nat (Min B))"
    "bm_ok (freefdmap (fdtables s' t))" "set_bits (freefdmap (fdtables s' t)) = B - {Min B}"
proof -
  obtain v n bm tab where o: "fd \<noteq> 0" "bitmap_scan_and_flip (freefdmap (fdtables s t)) 0 1 True = Some (n, bm)"
    "fdtables s' = (fdtables s)(t := (fdtables s t)\<lparr>fdmap := tab, freefdmap := bm\<rparr>)" "mem (files s') = store32 v fd (ucast n)"
    by (rule fdtable_openD [OF assms(1)])
  have f: "fd_get fd s' = Some (ucast n)" using o(1,4) by (simp add: fd_get_def fd_number_def load32_store32)
  obtain k bm' where k: "bitmap_scan_and_flip (freefdmap (fdtables s t)) 0 1 True = Some (k, bm')" "bm_ok bm'"
    "if B = {} then k = BITMAP_NPOS \<and> bm' = freefdmap (fdtables s t) else k = of_nat (Min B) \<and> set_bits bm' = B - {Min B}"
    unfolding assms(3) using take_set_bit [OF assms(2)] by blast
  have u: "(ucast (of_nat m :: size_t) :: u32) = of_nat m" for m
    unfolding word_unat_eq_iff unsigned_ucast_eq by (simp add: take_bit_eq_mod unat_of_nat unat_mod mod_mod_cancel)
  have m1: "ucast (- 1 :: size_t) = (- 1 :: u32)" by (rule bit_word_eqI) (simp add: bit_simps)
  show "fd_get fd s' = Some (if B = {} then - 1 else of_nat (Min B))"
    using f k(1,3) o(2) u m1 by (auto simp: BITMAP_NPOS_def split: if_splits)
  show "bm_ok (freefdmap (fdtables s' t))" "set_bits (freefdmap (fdtables s' t)) = B - {Min B}"
    using o(2,3) k assms(3) by (auto split: if_splits)
qed

text \<open>Opening one path after the other, with the numbers the callers get.\<close>

primrec open_all :: "u64 \<Rightarrow> u64 list \<Rightarrow> ('a) fdstate_scheme \<Rightarrow> (u32 list \<times> ('a) fdstate_scheme) option" where
  "open_all t [] s = Some ([], s)"
| "open_all t (p # ps) s = do {
     (fd, s) \<leftarrow> fdtable_open t p s;
     n \<leftarrow> fd_get fd s;
     (ns, s) \<leftarrow> open_all t ps s;
     Some (n # ns, s) }"

lemma open_all_numbers:
  assumes "open_all t ps s = Some (ns, s')" "bm_ok (freefdmap (fdtables s t))"
    "set_bits (freefdmap (fdtables s t)) = {3 - k..<3}" "k \<le> 3"
  shows "ns = take (length ps) (map of_nat [3 - k..<3] @ replicate (length ps) (- 1))"
  using assms
proof (induction ps arbitrary: s ns k)
  case (Cons p ps)
  let ?B = "{3 - k..<3 :: nat}"
  obtain fd s1 ms n0 where o: "fdtable_open t p s = Some (fd, s1)" "open_all t ps s1 = Some (ms, s')"
    "fd_get fd s1 = Some n0" "ns = n0 # ms"
    using Cons.prems(1) by (auto split: bind_splits)
  note n = fdtable_open_number [OF o(1) Cons.prems(2) Cons.prems(3) [symmetric]]
  show ?case
  proof (cases k)
    case 0
    have "ms = take (length ps) (map of_nat [3..<3] @ replicate (length ps) (- 1))"
      using Cons.IH [of s1 ms 0] o(2) n(2,3) 0 by simp
    then show ?thesis using n(1) o(3,4) 0 by simp
  next
    case (Suc j)
    have m: "Min ?B = 3 - k" "?B - {3 - k} = {3 - j..<3}" "[3 - k..<3] = (3 - k) # [3 - j..<3]"
      using Suc Cons.prems(4) by (auto intro: Min_eqI simp: upt_rec)
    have "ms = take (length ps) (map of_nat [3 - j..<3] @ replicate (length ps) (- 1))"
      using Cons.IH [of s1 ms j] o(2) n(2,3) m(1,2) Suc Cons.prems(4) by simp
    moreover have "n0 = of_nat (3 - k)"
    proof -
      have "?B \<noteq> {}" using Suc by auto
      then show ?thesis using n(1) o(3) unfolding m(1) by (simp only: if_False option.inject)
    qed
    moreover have "take i (xs @ replicate (Suc i) x) = take i (xs @ replicate i x)" for i and xs :: "u32 list" and x
      by (cases "i \<le> length xs") (simp_all add: min_def flip: replicate_Suc)
    ultimately show ?thesis unfolding m(3) o(4) by (simp only: list.size take_Suc_Cons list.map append_Cons add_Suc_right add_0_right)
  qed
qed simp

lemma new_table_bits:
  assumes "3 \<le> cnt" "cnt < 2 ^ 60"
  shows "\<exists>bm. bitmap_set (bitmap_create cnt) 0 3 True = Some bm \<and> bm_ok bm \<and> set_bits bm = {0, 1, 2}"
proof -
  have c: "unat cnt + 64 \<le> 18446744073709551616" "3 \<le> unat cnt"
    using assms by (simp_all add: word_less_nat_alt word_le_nat_alt)
  note ok = bitmap_create_ok [OF c(1)]
  obtain bm where b: "bitmap_set (bitmap_create cnt) 0 3 True = Some bm" "bm_ok bm" "bitcount bm = bitcount (bitmap_create cnt)"
    "\<forall>i < nbits_of (bitmap_create cnt). bit_at bm i \<longleftrightarrow> (if unat (0 :: size_t) \<le> i \<and> i < unat (0 :: size_t) + unat (3 :: size_t) then True else bit_at (bitmap_create cnt) i)"
    using bitmap_set_bits [OF ok(1), of 0 3 True] by blast
  have "bit_at bm i \<longleftrightarrow> i < 3" if "i < unat cnt" for i
    using b(4) ok(2,3) that by simp
  moreover have "nbits_of bm = unat cnt" using b(3) ok(2) by simp
  ultimately have "set_bits bm = {i. i < 3}" using c(2) by (auto simp: set_bits_def)
  moreover have "{i. i < 3} = {0, 1, 2 :: nat}" by auto
  ultimately show ?thesis using b(1,2) by simp
qed


text \<open>C33: in a table as \<^verbatim>\<open>create_fdtable\<close> makes it, where the bits of the three standard streams are
  set, opening one path after the other gives 0, 1 and 2, the numbers of the standard streams, and then
  -1 for ever: the map is searched for a set bit.\<close>

theorem opens_give_standard_streams:
  assumes "open_all t ps s = Some (ns, s')" "3 \<le> cnt" "cnt < 2 ^ 60"
    and "bitmap_set (bitmap_create cnt) 0 3 True = Some (freefdmap (fdtables s t))"
  shows "ns = take (length ps) ([0, 1, 2] @ replicate (length ps) (- 1))"
proof -
  have e: "{0, 1, 2 :: nat} = {3 - 3..<3}" "map of_nat [3 - 3..<3] = [0, 1, 2 :: u32]" by (auto simp: upt_rec)
  have "bm_ok (freefdmap (fdtables s t))" "set_bits (freefdmap (fdtables s t)) = {3 - 3..<3}"
    using new_table_bits [OF assms(2,3)] assms(4) unfolding e(1) by auto
  from open_all_numbers [OF assms(1) this] show ?thesis unfolding e(2) by simp
qed

subsection \<open>Lookup\<close>

text \<open>After an open whose number hashes to another bucket than 0 does, the number is not found
  in the table, and a call with it meets the null pointer: the descriptor was put in the bucket of
  0, the number that a clear block holds.\<close>

theorem opened_number_lost:
  assumes "fdtable_open t pth s = Some (fd, s1)" "heap_inv U (heap.truncate (vm.truncate (files s))) f"
    and "lists_rep (fd_lists s) (\<lambda>l. if l \<in> bucket_con (fdmap (fdtables s t)) ` {..<10} then Some [] else None)"
    and "inj_on (bucket_con (fdmap (fdtables s t))) {..<buckets (fdmap (fdtables s t))}"
    and "buckets (fdmap (fdtables s t)) = 10" "hash_uint64 (scast n) mod 10 \<noteq> hash_uint64 0 mod 10"
  shows "(\<exists>s2. fdtable_lookupfd t n s1 = Some (0, s2)) \<and> fdtable_free t n s1 = None"
proof -
  let ?con = "bucket_con (fdmap (fdtables s t))"
  obtain v1 s0 tab h m bm v where o: "disk_alloc (unset (files s)) 1 FD_SIZE (files s) = Some (fd, v1)"
    "s0 = set_files (v1\<lparr>lock_value := (lock_value v1)(fdtable_lock t := lock_value v1 (fdtable_lock t) - 1)\<rparr>) s"
    "hashtable_insert (fd_table s0 t) (fd_lists s) (Elem fd) = Some (tab, h)"
    "fdtables s1 = (fdtables s)(t := (fdtables s t)\<lparr>fdmap := tab, freefdmap := bm\<rparr>)"
    "fd_lists s1 = h" "fd_key s1 = fd_key s"
    by (rule fdtable_openD [OF assms(1)])
  have "fd_number (mem v1) fd = 0"
    unfolding fd_number_def
  proof (rule load32_zero)
    fix w :: u64 assume "w < 4"
    then have "in_region (fd + w) fd (unat (1 * FD_SIZE))" by (simp add: in_region_def FD_SIZE_def word_less_nat_alt)
    then show "mem v1 (fd + w) = 0"
      using disk_alloc_clear [OF assms(2) _ _ o(1)] by (simp add: FD_SIZE_def)
  qed
  then have fn: "fn (fd_table s0 t) (Elem fd) = hash_uint64 0" by (simp add: fd_table_def hash_fd_def o(2) set_files_def)
  define b where "b = hash_uint64 0 mod 10"
  have bk: "bucket_of (fd_table s0 t) (Elem fd) = Some (?con b)"
    using fn assms(5) by (simp add: bucket_of_def b_def) (simp add: fd_table_def o(2) set_files_def)
  have tb: "buckets (fd_table s0 t) = 10" "bucket_con (fd_table s0 t) = ?con"
    using assms(5) by (simp_all add: fd_table_def o(2) set_files_def)
  let ?f = "\<lambda>l. if l \<in> ?con ` {..<10} then Some [] else None"
  have b: "b < 10" by (simp add: b_def word_less_nat_alt unat_mod)
  then have rep0: "?f (?con b) = Some []" by simp
  have beg: "list_begin h (?con c) = Tail (?con c)" if "lists_rep h g" "g (?con c) = Some []" for h g c
    using list_rep_begin [of h "?con c" "[]"] that by (auto simp: lists_rep_def)
  have ins: "list_push_back (fd_lists s) (?con b) (Elem fd) = Some h" "tab = (fd_table s0 t)\<lparr>entries := entries (fd_table s0 t) + 1\<rparr>"
    using o(3) bk by (auto simp: hashtable_insert_def beg [OF assms(3) rep0] find_loop.simps list_end_def split: bind_splits)
  define c where "c = hash_uint64 (scast n) mod 10"
  have c: "c < 10" by (simp add: c_def word_less_nat_alt unat_mod)
  have ne: "?con c \<noteq> ?con b"
  proof
    assume eq: "?con c = ?con b"
    have "c = b" using assms(4,5) eq b c by (auto dest: inj_onD)
    then show False using assms(6) by (simp add: c_def b_def)
  qed
  obtain h' where h': "list_push_back (fd_lists s) (?con b) (Elem fd) = Some h'" "lists_rep h' (?f(?con b \<mapsto> [] @ [fd]))"
    using lists_push_back [OF assms(3) rep0, of fd] by (auto simp: linked_all_empty)
  have "(?f(?con b \<mapsto> [] @ [fd])) (?con c) = Some []" using ne c by simp
  note bc = beg [OF h'(2) this]
  define s2 where "s2 = set_files (put32 (fd_key s1) n (files s1)) s1"
  have "bucket_of (fd_table s2 t) (Elem (fd_key s1)) = Some (?con c)"
    using tb ins(2) o(4)
    by (simp add: bucket_of_def s2_def fd_table_def set_files_def hash_fd_def fd_number_def put32_def load32_store32 c_def)
  then have "hashtable_find (fd_table s2 t) (fd_lists s2) (Elem (fd_key s1)) = Some NULL"
    using bc ins(1) h'(1) o(5)
    by (simp add: hashtable_find_def s2_def set_files_def find_loop.simps list_end_def)
  then have "fdtable_lookupfd t n s1 = Some (0, s2)"
    by (simp add: fdtable_lookupfd_def Let_def s2_def set_files_def)
  then show ?thesis by (simp add: fdtable_free_def fd_free_def)
qed


subsection \<open>A concrete open\<close>

definition demo_fds :: fdstate where
  "demo_fds = \<lparr>files = disk.extend
     (vm.extend (heap.extend ((init_heap demo_heap)\<lparr>mem := (\<lambda>_. 0)\<rparr>) (vm.fields 0x400000 0x1000 0x1000))
       (disk.fields (\<lambda>_. \<lparr>block_name = 0, start_sector = 0, sector_count = 0\<rparr>) 0x8000 (\<lambda>_. 1)))
     (fs.fields 0x8000 0 (bitmap_create 70) 0xFFFF800000500018 0 [] (\<lambda>_. None)
        (fst (hashtable_init \<lparr>prev = (\<lambda>_. NULL), nxt = (\<lambda>_. NULL), lsize = (\<lambda>_. 0)\<rparr> (\<lambda>i. 0) (\<lambda>_. 0) (\<lambda>_ _. True)))
        \<lparr>prev = (\<lambda>_. NULL), nxt = (\<lambda>_. NULL), lsize = (\<lambda>_. 0)\<rparr> 0x10 0x20 5 (0, 0) 0x50 0x60 0xA0 0xC0 0xD0 0xE0),
   fdtables = (\<lambda>_. \<lparr>fdmap = \<lparr>buckets = 10, entries = 0, bucket_con = (\<lambda>i. i), fn = (\<lambda>_. 0), eq = (\<lambda>_ _. True)\<rparr>,
     freefdmap = the (bitmap_set (bitmap_create 128) 0 3 True), cwd = 0\<rparr>),
   fd_lists = init_loop 0 (\<lambda>i. i) \<lparr>prev = (\<lambda>_. NULL), nxt = (\<lambda>_. NULL), lsize = (\<lambda>_. 0)\<rparr>,
   fd_key = 0x200, file_read_ptr = 0x300, file_write_ptr = 0x400\<rparr>"

lemma demo_fds_heap: "heap.truncate (vm.truncate (files demo_fds)) = (init_heap demo_heap)\<lparr>mem := (\<lambda>_. 0)\<rparr>"
  by (simp add: demo_fds_def disk.defs vm.defs heap.defs init_heap_def demo_heap_def)

lemma demo_fds_fields: "bm_ok (freefdmap (fdtables demo_fds t))" "buckets (fdmap (fdtables demo_fds t)) = 10"
  "bucket_con (fdmap (fdtables demo_fds t)) = (\<lambda>i. i)"
  "bitmap_set (bitmap_create 128) 0 3 True = Some (freefdmap (fdtables demo_fds t))"
  "lock_value (files demo_fds) = (\<lambda>_. 1)" "resolved (files demo_fds) = (0, 0)" "cwd (fdtables demo_fds t) = 0"
  "lists_rep (fd_lists demo_fds) (\<lambda>l. if l \<in> (\<lambda>i. i) ` {..<10} then Some [] else None)"
proof -
  obtain bm where "bitmap_set (bitmap_create 128) 0 3 True = Some bm" "bm_ok bm" using new_table_bits [of 128] by auto
  then show "bm_ok (freefdmap (fdtables demo_fds t))" "bitmap_set (bitmap_create 128) 0 3 True = Some (freefdmap (fdtables demo_fds t))"
    by (simp_all add: demo_fds_def)
  show "lists_rep (fd_lists demo_fds) (\<lambda>l. if l \<in> (\<lambda>i. i) ` {..<10} then Some [] else None)"
    using init_loop_rep [of 0 "\<lambda>i. i" "\<lparr>prev = (\<lambda>_. NULL), nxt = (\<lambda>_. NULL), lsize = (\<lambda>_. 0)\<rparr>"]
    by (simp add: demo_fds_def INIT_BUCKETS_def lists_rep_def)
qed (simp_all add: demo_fds_def disk.defs vm.defs heap.defs fs.defs)

lemma demo_alloc:
  "\<exists>b v. disk_alloc junk 1 FD_SIZE (files demo_fds) = Some (b, v) \<and> b \<noteq> 0 \<and> mem v b = 0 \<and>
     lock_value v = (\<lambda>_. 1) \<and> resolved v = (0, 0)"
proof -
  let ?h = "(init_heap demo_heap)\<lparr>mem := (\<lambda>_. 0)\<rparr>"
  have inv: "heap_inv {} ?h no_blocks" using demo_heap_inv by (simp add: heap_inv_mem)
  have "page_allocate ?h PAL_ZERO \<noteq> Some (0, ?h)"
    by (rule demo_heap_page) (simp add: init_heap_def demo_heap_def)
  then obtain b h' d where h': "kmalloc junk 104 ?h = Some (b, h')" "b \<noteq> 0" "\<forall>x. in_region x b (2 ^ (d + 3)) \<longrightarrow> mem h' x = 0"
    using kmalloc_fresh [OF inv, of 104 junk] by auto
  define v where "v = vm.extend (heap.extend h' (heap.more (vm.truncate (files demo_fds)))) (vm.more (files demo_fds))"
  have "disk_alloc junk 1 FD_SIZE (files demo_fds) = Some (b, v)"
    using h'(1) by (simp add: disk_alloc_def vm_alloc_def kcalloc_def demo_fds_heap FD_SIZE_def v_def)
  moreover have "mem v b = 0" using h'(3) by (simp add: v_def vm.defs heap.defs in_region_def)
  moreover have "lock_value v = (\<lambda>_. 1)" "resolved v = (0, 0)"
    by (simp_all add: v_def demo_fds_def disk.defs vm.defs heap.defs fs.defs)
  ultimately show ?thesis using h'(2) by blast
qed

lemma demo_open: "\<exists>p fd s'. fdtable_open t p demo_fds = Some (fd, s')"
proof -
  obtain b v where a: "disk_alloc (unset (files demo_fds)) 1 FD_SIZE (files demo_fds) = Some (b, v)" "b \<noteq> 0" "mem v b = 0"
     "lock_value v = (\<lambda>_. 1)" "resolved v = (0, 0)" using demo_alloc by blast
  define w where "w = v\<lparr>lock_value := (lock_value v)(fdtable_lock t := 0)\<rparr>"
  have w: "acquire (fdtable_lock t) v = Some w" by (simp add: acquire_def a(4) w_def)
  have "strlen (mem w) b = Some 0" using a(3) by (simp add: strlen_def strlen_loop.simps w_def)
  then have o: "open_file c b w = Some (0, w)" for c
    using a(5) by (simp add: open_file_def resolve_path_def w_def dir_close_def file_close_def)
  let ?s = "set_files w demo_fds"
  let ?l = "fn (fd_table ?s t) (Elem b) mod 10"
  let ?f = "\<lambda>l. if l \<in> (\<lambda>i. i) ` {..<10} then Some [] else None"
  have l: "?l < 10" by (simp add: word_less_nat_alt unat_mod)
  then have rep: "?f ?l = Some []" by simp
  have beg: "list_begin (fd_lists demo_fds) ?l = Tail ?l"
    using list_rep_begin [of "fd_lists demo_fds" ?l "[]"] demo_fds_fields(8) rep by (auto simp: lists_rep_def)
  obtain h where "list_push_back (fd_lists demo_fds) ?l (Elem b) = Some h"
    using lists_push_back [OF demo_fds_fields(8) rep, unfolded linked_all_empty, of b] by auto
  then have "\<exists>tab. hashtable_insert (fd_table ?s t) (fd_lists demo_fds) (Elem b) = Some (tab, h)"
    using beg by (simp add: hashtable_insert_def bucket_of_def find_loop.simps list_end_def)
      (simp add: fd_table_def set_files_def demo_fds_fields)
  then obtain tab where ins: "hashtable_insert (fd_table ?s t) (fd_lists demo_fds) (Elem b) = Some (tab, h)" ..
  obtain n bm where "bitmap_scan_and_flip (freefdmap (fdtables demo_fds t)) 0 1 True = Some (n, bm)"
    using take_set_bit [OF demo_fds_fields(1)] by blast
  then have "\<exists>s'. fdtable_open t b demo_fds = Some (b, s')"
    using ins a(1,2) w o by (simp add: fdtable_open_def Let_def set_files_def upd_fdtable_def)
  then show ?thesis by blast
qed

theorem opens_give_standard_streams_witness:
  "\<exists>p s'. open_all 0x500 [p] demo_fds = Some ([0], s')"
proof -
  obtain p fd s where o: "fdtable_open 0x500 p demo_fds = Some (fd, s)" using demo_open by blast
  then have "fd \<noteq> 0" by (rule fdtable_openD)
  then have "open_all 0x500 [p] demo_fds = Some ([fd_number (mem (files s)) fd], s)" using o by (simp add: fd_get_def)
  moreover from opens_give_standard_streams [OF this, of 128] demo_fds_fields(4)
  have "[fd_number (mem (files s)) fd] = [0]" by (simp add: word_le_nat_alt word_less_nat_alt)
  ultimately show ?thesis by auto
qed

theorem opened_number_lost_witness:
  "\<exists>p fd s s'. fdtable_open 0x500 p demo_fds = Some (fd, s) \<and> fdtable_lookupfd 0x500 1 s = Some (0, s')"
proof -
  obtain p fd s where o: "fdtable_open 0x500 p demo_fds = Some (fd, s)" using demo_open by blast
  have inv: "heap_inv {} (heap.truncate (vm.truncate (files demo_fds))) no_blocks"
    using demo_heap_inv by (simp add: heap_inv_mem demo_fds_heap)
  have "hash_uint64 (scast (1 :: u32)) mod 10 \<noteq> hash_uint64 0 mod 10"
    by (simp add: hash_uint64_def)
  moreover have "lists_rep (fd_lists demo_fds)
      (\<lambda>l. if l \<in> bucket_con (fdmap (fdtables demo_fds 0x500)) ` {..<10} then Some [] else None)"
    unfolding demo_fds_fields(3) by (rule demo_fds_fields(8))
  ultimately have "\<exists>s'. fdtable_lookupfd 0x500 1 s = Some (0, s')"
    using opened_number_lost [OF o inv, of 1] by (simp add: demo_fds_fields)
  then show ?thesis using o by blast
qed

end
