(* ===== verification/Addrspace.thy ===== *)
theory Addrspace
  imports Fdtable Timer
begin

unbundle bit_operations_syntax

section \<open>Processes, frames and address spaces (mem/frame.c, mem/spt.c, process.h)\<close>

text \<open>
  Model of \<^verbatim>\<open>kern/lib/mem/frame.c\<close>, \<^verbatim>\<open>mem/spt.c\<close> and of the structures of \<^verbatim>\<open>process.h\<close> and
  \<^verbatim>\<open>vmmgmt.h\<close>.  A process is the address of its \<^verbatim>\<open>struct process\<close>, which starts with its thread;
  the fields that are no list, semaphore or lock are typed.  A page is the address of its
  \<^verbatim>\<open>struct page\<close> in the byte memory, and names its element in a page table and its element among
  the aliases of a frame; the aliases of a frame are named by the frame's address.  The children
  of a process are a list named by the process.

  \<^verbatim>\<open>allocate_frame\<close> and \<^verbatim>\<open>evict_frame\<close> have empty bodies: their callers find the value \<open>unset\<close>.
  For a page that is not in the table \<^verbatim>\<open>page_load\<close> passes the address of its local variable \<^verbatim>\<open>pg\<close>
  to \<^verbatim>\<open>hashtable_insert\<close>, which writes the links of a list element over the variable; what
  follows depends on the layout of the stack and is not described (\<open>None\<close>).
\<close>

subsection \<open>State\<close>

record page_table =
  pt_con :: "(u64, u64) hashtable"
  pt_pml4 :: u64

record process =
  exit_code :: u32
  executable :: u64
  proc_cwd :: u64
  spt :: u64
  proc_fdtable :: u64
  semtable :: u64
  semtable_map :: bitmap
  code_segment_begin :: u64
  code_segment_end :: u64
  data_segment_begin :: u64
  data_segment_end :: u64
  heap_begin :: u64
  heap_end :: u64

record thread_context =
  registers :: "u64 list"
  ctx_rflags :: u64
  ctx_sp :: u64
  ctx_ip :: u64

record sys =
  kern :: timer
  fds :: fdstate
  procs :: "u64 \<Rightarrow> process"
  parent :: "thr \<Rightarrow> u64"
  thread_ctx :: "thr \<Rightarrow> thread_context"
  children :: "(u64, u64) lheap"
  page_tables :: "u64 \<Rightarrow> page_table"
  pt_lists :: "(u64, u64) lheap"
  aliases :: "(u64, u64) lheap"
  frame_table :: u64
  pinned :: "u64 \<Rightarrow> bool"
  reserved_end :: u64
  page_key :: u64
  header_var :: u64

definition PROCESS_MAGIK :: u64 where "PROCESS_MAGIK = NOT KTHREAD_MAGIK"
definition PROCESS_SIZE :: size_t where "PROCESS_SIZE = 608"
definition SEMAPHORE_SIZE :: size_t where "SEMAPHORE_SIZE = 48"
definition STRUCT_PAGE_SIZE :: size_t where "STRUCT_PAGE_SIZE = 72"
definition PAGE_TABLE_SIZE :: size_t where "PAGE_TABLE_SIZE = 48"
definition FRAME_SIZE :: size_t where "FRAME_SIZE = 48"

definition wait_sema :: "u64 \<Rightarrow> sema_id" where "wait_sema p = SemaObj (p + 320)"
definition reap_sema :: "u64 \<Rightarrow> sema_id" where "reap_sema p = SemaObj (p + 368)"
definition semtable_lock :: "u64 \<Rightarrow> u64" where "semtable_lock p = p + 504"

definition page_phys :: "bytes \<Rightarrow> u64 \<Rightarrow> u64" where "page_phys m pg = load64 m pg"
definition page_useraddr :: "bytes \<Rightarrow> u64 \<Rightarrow> u64" where "page_useraddr m pg = load64 m (pg + 8)"
definition page_ondisk :: "u64 \<Rightarrow> u64" where "page_ondisk pg = pg + 48"
definition page_readonly :: "u64 \<Rightarrow> u64" where "page_readonly pg = pg + 49"
definition page_rovp :: "u64 \<Rightarrow> u64" where "page_rovp pg = pg + 52"
definition ROVP_EXCEPT :: u32 where "ROVP_EXCEPT = 0"
definition ROVP_COPY :: u32 where "ROVP_COPY = 1"

text \<open>The file system state, and operations on it and on the paging state below it.\<close>

definition fs_of :: "('a) sys_scheme \<Rightarrow> fs" where
  "fs_of s = files (fds s)"

definition set_fs :: "fs \<Rightarrow> ('a) sys_scheme \<Rightarrow> ('a) sys_scheme" where
  "set_fs v s = s\<lparr>fds := set_files v (fds s)\<rparr>"

definition on_fs :: "(fs \<Rightarrow> ('r \<times> fs) option) \<Rightarrow> ('a) sys_scheme \<Rightarrow> ('r \<times> ('a) sys_scheme) option" where
  "on_fs g s = do { (r, v) \<leftarrow> g (fs_of s); Some (r, set_fs v s) }"

definition on_fds :: "(fdstate \<Rightarrow> ('r \<times> fdstate) option) \<Rightarrow> ('a) sys_scheme \<Rightarrow> ('r \<times> ('a) sys_scheme) option" where
  "on_fds g s = do { (r, v) \<leftarrow> g (fds s); Some (r, s\<lparr>fds := v\<rparr>) }"

definition on_vm :: "(vm \<Rightarrow> vm option) \<Rightarrow> ('a) sys_scheme \<Rightarrow> ('a) sys_scheme option" where
  "on_vm g s = do { v \<leftarrow> g (vm.truncate (fs_of s)); Some (set_fs (vm.extend v (vm.more (fs_of s))) s) }"

definition on_kern :: "(timer \<Rightarrow> timer option) \<Rightarrow> ('a) sys_scheme \<Rightarrow> ('a) sys_scheme option" where
  "on_kern g s = do { k \<leftarrow> g (kern s); Some (s\<lparr>kern := k\<rparr>) }"

definition sys_alloc :: "size_t \<Rightarrow> size_t \<Rightarrow> ('a) sys_scheme \<Rightarrow> (u64 \<times> ('a) sys_scheme) option" where
  "sys_alloc n sz s = on_fs (disk_alloc (unset (fs_of s)) n sz) s"

definition sys_free :: "u64 \<Rightarrow> ('a) sys_scheme \<Rightarrow> ('a) sys_scheme option" where
  "sys_free p s = do { v \<leftarrow> disk_free p (fs_of s); Some (set_fs v s) }"

definition sys_mem :: "('a) sys_scheme \<Rightarrow> bytes" where
  "sys_mem s = mem (fs_of s)"

definition set_mem :: "bytes \<Rightarrow> ('a) sys_scheme \<Rightarrow> ('a) sys_scheme" where
  "set_mem m s = set_fs ((fs_of s)\<lparr>mem := m\<rparr>) s"

definition upd_proc :: "u64 \<Rightarrow> (process \<Rightarrow> process) \<Rightarrow> ('a) sys_scheme \<Rightarrow> ('a) sys_scheme" where
  "upd_proc p g s = s\<lparr>procs := (procs s)(p := g (procs s p))\<rparr>"

subsection \<open>The current process\<close>

definition is_process :: "thr \<Rightarrow> ('a) sys_scheme \<Rightarrow> bool" where
  "is_process t s \<longleftrightarrow> magic (threads (kern s) t) = PROCESS_MAGIK"

definition process_get_base :: "u64 \<Rightarrow> thr" where
  "process_get_base p = p"

definition process_get_parent :: "u64 \<Rightarrow> ('a) sys_scheme \<Rightarrow> u64" where
  "process_get_parent p s = parent s (process_get_base p)"

definition current_process :: "('a) sys_scheme \<Rightarrow> u64" where
  "current_process s = (let cur = get_current_thread (kern s) in if is_process cur s then cur else parent s cur)"

subsection \<open>Frames\<close>

definition frame_pin :: "u64 \<Rightarrow> ('a) sys_scheme \<Rightarrow> ('a) sys_scheme" where
  "frame_pin f s = s\<lparr>pinned := (pinned s)(f := True)\<rparr>"

definition frame_unpin :: "u64 \<Rightarrow> ('a) sys_scheme \<Rightarrow> ('a) sys_scheme" where
  "frame_unpin f s = s\<lparr>pinned := (pinned s)(f := False)\<rparr>"

definition frame_pinned :: "u64 \<Rightarrow> ('a) sys_scheme \<Rightarrow> bool" where
  "frame_pinned f s = pinned s f"

text \<open>The loop ends when it meets the address behind the last frame.\<close>

partial_function (option) frame_loop :: "u64 \<Rightarrow> u64 \<Rightarrow> ('a) sys_scheme \<Rightarrow> ('a) sys_scheme option" where
  "frame_loop f lim s =
     (if f \<noteq> lim then frame_loop (f + FRAME_SIZE) lim (s\<lparr>aliases := list_init (aliases s) f\<rparr>) else Some s)"

definition init_frame_table :: "('a) sys_scheme \<Rightarrow> ('a) sys_scheme option" where
  "init_frame_table s = do {
     let user_pages = get_user_pages (fs_of s);
     (t, s) \<leftarrow> sys_alloc user_pages FRAME_SIZE s;
     let s = s\<lparr>frame_table := t\<rparr>;
     frame_loop t (t + user_pages * FRAME_SIZE) s }"

definition allocate_frame :: "('a) sys_scheme \<Rightarrow> u64" where
  "allocate_frame s = unset (fs_of s)"

definition evict_frame :: "('a) sys_scheme \<Rightarrow> u64" where
  "evict_frame s = unset (fs_of s)"

definition frame_to_kernaddr :: "('a) sys_scheme \<Rightarrow> u64 \<Rightarrow> u64" where
  "frame_to_kernaddr s f =
     (let upage_number = (f - frame_table s) div FRAME_SIZE
      in get_user_base (fs_of s) + upage_number * PAGESIZE)"

subsection \<open>Supplemental page tables\<close>

text \<open>The element of a page in its table is sixteen bytes behind the start of the page.\<close>

fun page_ptr :: "(u64, u64) ptr \<Rightarrow> u64" where
  "page_ptr (Elem p) = p"
| "page_ptr _ = - 16"

definition page_equal :: "bytes \<Rightarrow> (u64, u64) ptr \<Rightarrow> (u64, u64) ptr \<Rightarrow> bool" where
  "page_equal m l r \<longleftrightarrow> page_useraddr m (page_ptr l) = page_useraddr m (page_ptr r)"

definition page_hash :: "bytes \<Rightarrow> (u64, u64) ptr \<Rightarrow> size_t" where
  "page_hash m e = hash_uint64 (page_useraddr m (page_ptr e))"

definition page_con :: "('a) sys_scheme \<Rightarrow> u64 \<Rightarrow> (u64, u64) hashtable" where
  "page_con s t = (pt_con (page_tables s t))\<lparr>fn := page_hash (sys_mem s), eq := page_equal (sys_mem s)\<rparr>"

definition set_con :: "u64 \<Rightarrow> (u64, u64) hashtable \<Rightarrow> ('a) sys_scheme \<Rightarrow> ('a) sys_scheme" where
  "set_con t c s = s\<lparr>page_tables := (page_tables s)(t := (page_tables s t)\<lparr>pt_con := c\<rparr>)\<rparr>"

definition page_table_create :: "('a) sys_scheme \<Rightarrow> (u64 \<times> ('a) sys_scheme) option" where
  "page_table_create s = do {
     (pt, s) \<leftarrow> sys_alloc 1 PAGE_TABLE_SIZE s;
     if pt = 0 then None
     else do {
       (con, s) \<leftarrow> sys_alloc INIT_BUCKETS 40 s;
       let (t, h) = hashtable_init (pt_lists s) (\<lambda>i. con + 40 * i) (page_hash (sys_mem s)) (page_equal (sys_mem s));
       let s = s\<lparr>pt_lists := h\<rparr>;
       (p, v) \<leftarrow> pml4_alloc (unset (fs_of s)) (vm.truncate (fs_of s));
       let s = set_fs (vm.extend v (vm.more (fs_of s))) s;
       Some (pt, s\<lparr>page_tables := (page_tables s)(pt := \<lparr>pt_con = t, pt_pml4 = p\<rparr>)\<rparr>) } }"

definition page_copy :: "u64 \<Rightarrow> (u64, u64) ptr \<Rightarrow> ('a) sys_scheme \<Rightarrow> ('a) sys_scheme option" where
  "page_copy dest_pt src_e s = do {
     let src_pg = page_ptr src_e;
     (pg, s) \<leftarrow> sys_alloc 1 STRUCT_PAGE_SIZE s;
     if pg = 0 then None
     else do {
       let s = set_mem (fst (memcpy (sys_mem s) pg src_pg STRUCT_PAGE_SIZE)) s;
       let s = (if load32 (sys_mem s) (page_rovp src_pg) \<noteq> ROVP_EXCEPT
          then set_mem (store32 (sys_mem s) (page_rovp pg) ROVP_COPY) s else s);
       let s = set_mem ((sys_mem s)(page_readonly pg := 1)) s;
       let f = page_phys (sys_mem s) pg;
       if f = 0 then None
       else do {
         h \<leftarrow> list_push_back (aliases s) f (Elem pg);
         let s = s\<lparr>aliases := h\<rparr>;
         (t, h) \<leftarrow> hashtable_insert (page_con s dest_pt) (pt_lists s) (Elem pg);
         let s = set_con dest_pt t (s\<lparr>pt_lists := h\<rparr>);
         on_vm (pml4_map_address (unset (fs_of s)) (pt_pml4 (page_tables s dest_pt)) (page_useraddr (sys_mem s) pg)
           (frame_to_kernaddr s f)) s } } }"

definition page_table_copy :: "u64 \<Rightarrow> u64 \<Rightarrow> ('a) sys_scheme \<Rightarrow> ('a) sys_scheme option" where
  "page_table_copy dest src s =
     hashtable_foreach pt_lists (page_con s src)
       (\<lambda>e a s. case a of Inr d \<Rightarrow> page_copy d e s | Inl _ \<Rightarrow> None) (Some dest) s"

definition page_destroy :: "(u64, u64) ptr \<Rightarrow> u64 + unit \<Rightarrow> ('a) sys_scheme \<Rightarrow> ('a) sys_scheme option" where
  "page_destroy e a s = do {
     let pg = page_ptr e;
     s \<leftarrow> on_vm (pml4_clear_mapping (pt_pml4 (page_tables s (spt (procs s (current_process s))))) (page_useraddr (sys_mem s) pg)) s;
     sys_free pg s }"

definition page_table_destroy :: "u64 \<Rightarrow> ('a) sys_scheme \<Rightarrow> ('a) sys_scheme option" where
  "page_table_destroy pt s =
     hashtable_destroy pt_lists (\<lambda>con s. sys_free (con 0) s) (page_con s pt) page_destroy None s"

subsection \<open>Addresses of a process\<close>

text \<open>The units of \<^verbatim>\<open>memunit.h\<close> are of type \<^verbatim>\<open>int\<close>: the product \<^verbatim>\<open>GB\<close> of two megabytes does not fit
  and wraps.\<close>

definition KB :: u32 where "KB = 0x400"
definition MB :: u32 where "MB = KB * KB"
definition GB :: u32 where "GB = MB * MB"
definition STACKMAX :: size_t where "STACKMAX = scast (1 * GB)"
definition STACKLIMIT :: u64 where "STACKLIMIT = PHYSBASE - STACKMAX"

definition page_within_segment :: "u64 \<Rightarrow> ('a) sys_scheme \<Rightarrow> bool" where
  "page_within_segment p s \<longleftrightarrow>
     (let cur = procs s (current_process s)
      in (code_segment_begin cur \<le> p \<and> p < code_segment_end cur) \<or>
         (data_segment_begin cur \<le> p \<and> p < data_segment_end cur))"

definition page_valid_stack :: "u64 \<Rightarrow> ('a) sys_scheme \<Rightarrow> bool" where
  "page_valid_stack p s \<longleftrightarrow>
     (let sp = ctx_sp (thread_ctx s (process_get_base (current_process s))) in STACKLIMIT \<le> p \<and> p \<ge> sp - 8)"

definition page_within_heap :: "u64 \<Rightarrow> ('a) sys_scheme \<Rightarrow> bool" where
  "page_within_heap p s \<longleftrightarrow> (let cur = procs s (current_process s) in heap_begin cur \<le> p \<and> p < heap_end cur)"

definition page_is_valid :: "u64 \<Rightarrow> ('a) sys_scheme \<Rightarrow> bool" where
  "page_is_valid p s \<longleftrightarrow> reserved_end s \<le> p \<and> p < PHYSBASE \<and>
     (page_within_segment p s \<or> page_valid_stack p s \<or> page_within_heap p s)"

text \<open>The three functions below have empty bodies.\<close>

definition page_defer_load :: "u64 \<Rightarrow> u64 \<Rightarrow> u64 \<Rightarrow> bool \<Rightarrow> ('a) sys_scheme \<Rightarrow> ('a) sys_scheme" where
  "page_defer_load vaddr file ofs ro s = s"

definition page_read_from_disk :: "u64 \<Rightarrow> ('a) sys_scheme \<Rightarrow> ('a) sys_scheme" where
  "page_read_from_disk pg s = s"

definition page_write_to_disk :: "u64 \<Rightarrow> ('a) sys_scheme \<Rightarrow> ('a) sys_scheme" where
  "page_write_to_disk pg s = s"

definition page_load :: "u64 \<Rightarrow> ('a) sys_scheme \<Rightarrow> ('a) sys_scheme option" where
  "page_load p s = do {
     let s = set_mem (store64 (sys_mem s) (page_key s + 8) p) s;
     let pt = spt (procs s (current_process s));
     pg_el \<leftarrow> hashtable_find (page_con s pt) (pt_lists s) (Elem (page_key s));
     if pg_el = NULL then None
     else do {
       let pg = page_ptr pg_el;
       let f = allocate_frame s;
       if f = 0 then None
       else do {
         let s = set_mem (store64 (sys_mem s) pg f) s;
         h \<leftarrow> list_push_back (aliases s) f (Elem pg);
         let s = s\<lparr>aliases := h\<rparr>;
         s \<leftarrow> on_vm (pml4_map_address (unset (fs_of s)) (pt_pml4 (page_tables s pt)) p
               (kernel_to_phys (frame_to_kernaddr s f))) s;
         Some (if sys_mem s (page_ondisk pg) \<noteq> 0 then page_read_from_disk pg s else s) } } }"

subsection \<open>Frames and pages\<close>

lemma frame_apart:
  assumes "i < 2 ^ 58" "j < 2 ^ 58"
  shows "t + of_nat i * FRAME_SIZE = t + of_nat j * FRAME_SIZE \<longleftrightarrow> i = j"
proof -
  have "unat (of_nat k * FRAME_SIZE :: u64) = k * 48" if "k < 2 ^ 58" for k
    using that by (simp add: FRAME_SIZE_def unat_word_ariths unat_of_nat)
  then show ?thesis using assms by (metis add_left_cancel mult_cancel2 zero_neq_numeral)
qed

lemma frame_loop_inits:
  assumes "n < 2 ^ 58" "i \<le> n"
  shows "\<exists>h. frame_loop (t + of_nat i * FRAME_SIZE) (t + of_nat n * FRAME_SIZE) s = Some (s\<lparr>aliases := h\<rparr>) \<and>
    (\<forall>j < n. i \<le> j \<or> list_rep (aliases s) (t + of_nat j * FRAME_SIZE) [] \<longrightarrow> list_rep h (t + of_nat j * FRAME_SIZE) [])"
  using assms(2)
proof (induction "n - i" arbitrary: i s)
  case 0
  then show ?case by (intro exI [of _ "aliases s"]) (simp add: frame_loop.simps)
next
  case (Suc k)
  let ?f = "t + of_nat i * FRAME_SIZE"
  have i: "i < n" "k = n - Suc i" "Suc i \<le> n" using Suc.hyps(2) by simp_all
  have ne: "?f \<noteq> t + of_nat n * FRAME_SIZE" using frame_apart [of i n t] i(1) assms(1) by simp
  have nxt: "?f + FRAME_SIZE = t + of_nat (Suc i) * FRAME_SIZE" by (simp add: algebra_simps)
  let ?s = "s\<lparr>aliases := list_init (aliases s) ?f\<rparr>"
  obtain h where h: "frame_loop (?f + FRAME_SIZE) (t + of_nat n * FRAME_SIZE) ?s = Some (?s\<lparr>aliases := h\<rparr>)"
    "\<forall>j < n. Suc i \<le> j \<or> list_rep (aliases ?s) (t + of_nat j * FRAME_SIZE) [] \<longrightarrow> list_rep h (t + of_nat j * FRAME_SIZE) []"
    using Suc.hyps(1) [OF i(2,3), of ?s] unfolding nxt by blast
  have "frame_loop ?f (t + of_nat n * FRAME_SIZE) s = Some (s\<lparr>aliases := h\<rparr>)"
    using h(1) ne by (simp add: frame_loop.simps [of ?f])
  moreover have "list_rep h (t + of_nat j * FRAME_SIZE) []"
    if "j < n" "i \<le> j \<or> list_rep (aliases s) (t + of_nat j * FRAME_SIZE) []" for j
  proof (cases "j = i")
    case True
    then show ?thesis using h(2) i(1) by (simp add: list_rep_init)
  next
    case False
    then have "t + of_nat j * FRAME_SIZE \<noteq> ?f" using frame_apart [of j i t] that(1) i(1) assms(1) by simp
    then have "list_rep (aliases s) (t + of_nat j * FRAME_SIZE) [] \<Longrightarrow> list_rep (aliases ?s) (t + of_nat j * FRAME_SIZE) []"
      by (simp add: list_rep_def list_init_def)
    then show ?thesis using h(2) that False by fastforce
  qed
  ultimately show ?case by blast
qed

lemma frame_number:
  assumes "i < 2 ^ 58"
  shows "(of_nat i * FRAME_SIZE) div FRAME_SIZE = of_nat i"
proof -
  have "unat (of_nat i * FRAME_SIZE) = i * 48"
    using assms by (simp add: FRAME_SIZE_def unat_word_ariths unat_of_nat)
  then show ?thesis using assms by (simp add: word_unat_eq_iff unat_div unat_of_nat FRAME_SIZE_def)
qed

text \<open>C35: \<^verbatim>\<open>init_frame_table\<close> makes one frame per page of the user pool, each without aliases, and
  \<^verbatim>\<open>frame_to_kernaddr\<close> numbers them: the i-th frame stands for the i-th page of the pool, so
  that distinct frames stand for distinct pages.\<close>

theorem frames_name_pages:
  assumes "init_frame_table s = Some s'" "unat (get_user_pages (fs_of s)) = n" "n < 2 ^ 40"
  shows "(\<forall>i < n. list_rep (aliases s') (frame_table s' + of_nat i * FRAME_SIZE) [] \<and>
      frame_to_kernaddr s' (frame_table s' + of_nat i * FRAME_SIZE) = get_user_base (fs_of s) + of_nat i * PAGESIZE) \<and>
    inj_on (\<lambda>i. frame_to_kernaddr s' (frame_table s' + of_nat i * FRAME_SIZE)) {..<n}"
proof -
  obtain t s1 where a: "sys_alloc (get_user_pages (fs_of s)) FRAME_SIZE s = Some (t, s1)"
    "frame_loop t (t + of_nat n * FRAME_SIZE) (s1\<lparr>frame_table := t\<rparr>) = Some s'"
    using assms(1,2) by (auto simp: init_frame_table_def Let_def split: bind_splits)
  have "n < 2 ^ 58" using assms(3) by simp
  from frame_loop_inits [OF this, of 0 t "s1\<lparr>frame_table := t\<rparr>"] obtain h where
    h: "s' = s1\<lparr>frame_table := t, aliases := h\<rparr>" "\<forall>i < n. list_rep h (t + of_nat i * FRAME_SIZE) []"
    using a(2) by auto
  obtain v where v: "kmalloc (unset (fs_of s)) (get_user_pages (fs_of s) * FRAME_SIZE) (heap.truncate (vm.truncate (fs_of s))) = Some (t, v)"
    "user_pool (fs_of s1) = user_pool v"
    using a(1) by (auto simp: sys_alloc_def on_fs_def disk_alloc_def vm_alloc_def kcalloc_def fs_of_def set_fs_def set_files_def
        vm.defs heap.defs split: bind_splits)
  have base: "get_user_base (fs_of s') = get_user_base (fs_of s)"
    using kmalloc_only_clears [OF v(1)] v(2) by (simp add: get_user_base_def h(1) fs_of_def vm.defs heap.defs)
  have k: "frame_to_kernaddr s' (frame_table s' + of_nat i * FRAME_SIZE) = get_user_base (fs_of s) + of_nat i * PAGESIZE"
    if "i < n" for i
    using that assms(3) frame_number [of i] by (simp add: frame_to_kernaddr_def base)
  moreover have "inj_on (\<lambda>i. get_user_base (fs_of s) + of_nat i * PAGESIZE) {..<n}"
  proof (rule inj_onI)
    fix i j assume ij: "i \<in> {..<n}" "j \<in> {..<n}" and "get_user_base (fs_of s) + of_nat i * PAGESIZE = get_user_base (fs_of s) + of_nat j * PAGESIZE"
    then have "unat (of_nat i * PAGESIZE :: u64) = unat (of_nat j * PAGESIZE :: u64)" by simp
    then show "i = j" using ij assms(3) by (simp add: PAGESIZE_def unat_word_ariths unat_of_nat)
  qed
  ultimately show ?thesis using h by (auto simp: inj_on_def)
qed

lemma foreach_loop_stuck:
  assumes "\<And>el. action el s = None"
  shows "foreach_loop hp action l el s = foreach_loop hp (\<lambda>_ _. None) l el s"
  using assms by (simp add: foreach_loop.simps)

lemma foreach_bucket_stuck:
  assumes "\<And>el. action el (Inr a) s = None"
  shows "foreach_bucket hp t action (Some a) b s = foreach_bucket hp t (\<lambda>_ _ _. None) (Some a) b s"
  using assms
proof (induction "unat (buckets t) - unat b" arbitrary: b)
  case 0
  then have "\<not> b < buckets t" by (simp add: word_less_nat_alt)
  then show ?case by (simp add: foreach_bucket.simps)
next
  case (Suc n)
  have b: "b < buckets t" using Suc.hyps(2) by (simp add: word_less_nat_alt)
  have "n = unat (buckets t) - unat (b + 1)" using Suc.hyps(2) unat_plus_one [OF b] by simp
  note ih = Suc.hyps(1) [OF this Suc.prems]
  let ?el = "list_begin (hp s) (bucket_con t b)"
  show ?case
    using b ih Suc.prems
    by (cases "?el = list_end (bucket_con t b)") (simp_all add: foreach_bucket.simps [of hp t _ _ b] foreach_loop.simps Let_def)
qed

text \<open>A walk over a table that is not empty faults when the action faults on the state it starts in.\<close>

lemma hashtable_foreach_stuck:
  assumes "table_rep t h f" "hp s = h" "linked f \<noteq> {}" "\<And>el. action el (Inr a) s = None"
  shows "hashtable_foreach hp t action (Some a) s = None"
proof -
  let ?xs = "concat (map (bucket_contents t f) [unat (0 :: size_t)..<unat (buckets t)])"
  have "hashtable_foreach hp t action (Some a) s = ofold (\<lambda>_ _. None) ?xs s"
    unfolding hashtable_foreach_def foreach_bucket_stuck [where action = action, OF assms(4)]
    by (rule foreach_bucket_rep [OF assms(1)]) (use assms(2) in simp_all)
  moreover obtain l xs x where l: "f l = Some xs" "x \<in> set xs" using assms(3) by (auto simp: linked_iff)
  then have "l \<in> bucket_con t ` {..<buckets t}" using assms(1) unfolding table_rep_def by blast
  then obtain b where b: "b < buckets t" "l = bucket_con t b" by auto
  then have "bucket_contents t f (unat b) \<noteq> []" "unat b < unat (buckets t)"
    using l by (auto simp: bucket_contents_def word_less_nat_alt)
  then have "?xs \<noteq> []" by fastforce
  ultimately show ?thesis by (cases ?xs) simp_all
qed

subsection \<open>Copies\<close>

lemma set_mem_simps [simp]:
  "sys_mem (set_mem m s) = m" "set_mem m (set_mem m' s) = set_mem m s" "page_tables (set_mem m s) = page_tables s"
  "pt_lists (set_mem m s) = pt_lists s" "aliases (set_mem m s) = aliases s" "fs_of (set_mem m s) = (fs_of s)\<lparr>mem := m\<rparr>"
  by (simp_all add: sys_mem_def set_mem_def set_fs_def set_files_def fs_of_def)

lemma page_copy_faults:
  assumes "heap_inv U (heap.truncate (vm.truncate (fs_of s))) f" "pt_pml4 (page_tables s d) = t"
    and "heap_block (heap.truncate (vm.truncate (fs_of s))) 9 t" "t \<in> U"
    and "\<forall>x. in_region x t 4096 \<longrightarrow> sys_mem s x = 0"
  shows "page_copy d e s = None"
proof (cases "sys_alloc 1 STRUCT_PAGE_SIZE s")
  case None
  then show ?thesis by (simp add: page_copy_def)
next
  case (Some r)
  obtain pg s1 where r: "r = (pg, s1)" by (cases r)
  let ?v = "vm.truncate (fs_of s)"
  have "unat STRUCT_PAGE_SIZE = 72" by (simp add: STRUCT_PAGE_SIZE_def)
  obtain h where h: "kmalloc (unset (fs_of s)) 72 (heap.truncate ?v) = Some (pg, h)"
    "s1 = set_fs (vm.extend (heap.extend h (heap.more ?v)) (vm.more (fs_of s))) s"
    using Some r by (auto simp: sys_alloc_def on_fs_def disk_alloc_def vm_alloc_def kcalloc_def STRUCT_PAGE_SIZE_def split: bind_splits)
  obtain f' k where k: "heap_inv (insert pg U) h f'" "pg \<notin> U" "heap_block h k pg" "72 \<le> (2 :: nat) ^ (k + 3)"
    "heap_block h 9 t"
    using kmalloc_fresh [OF assms(1), of 72 "unset (fs_of s)"] h(1) assms(3) by auto
  note ok = heap_invD(4) [OF k(1)]
  have apart: "unat pg + 2 ^ (k + 3) \<le> unat t \<or> unat t + 2 ^ (9 + 3) \<le> unat pg"
    using blocks_apart [OF ok k(3,5)] k(2) assms(4) by auto
  have bd: "unat t + 4096 \<le> 2 ^ 64" "unat pg + 2 ^ (k + 3) \<le> 2 ^ 64"
    using block_region_bound [OF ok k(5)] block_region_bound [OF ok k(3)] by simp_all
  have out: "\<not> in_region x pg 72" if "in_region x t 4096" for x
  proof (cases "unat pg + 2 ^ (k + 3) \<le> unat t")
    case True
    then show ?thesis using regions_apart [OF True bd(1) that] k(4) by (simp add: in_region_def)
  next
    case False
    then have "unat t + 4096 \<le> unat pg" using apart by simp
    from regions_apart [OF this bd(2)] that k(4) show ?thesis by (auto simp: in_region_def)
  qed
  have z1: "sys_mem s1 x = 0" if "in_region x t 4096" for x
  proof -
    have "mem h x = mem (heap.truncate ?v) x \<or> mem h x = 0" using kmalloc_only_clears [OF h(1)] by blast
    then show ?thesis using assms(5) that
      by (auto simp: h(2) sys_mem_def fs_of_def set_fs_def set_files_def vm.defs heap.defs)
  qed
  define m1 where "m1 = fst (memcpy (sys_mem s1) pg (page_ptr e) STRUCT_PAGE_SIZE)"
  define m2 where "m2 = (if load32 m1 (page_rovp (page_ptr e)) \<noteq> ROVP_EXCEPT then store32 m1 (page_rovp pg) ROVP_COPY else m1)"
  define m where "m = m2(page_readonly pg := 1)"
  have z: "m x = 0" if x: "in_region x t 4096" for x
  proof -
    note nx = out [OF x, unfolded in_region_def]
    have "m1 x = 0" using memcpy_elsewhere [of x pg STRUCT_PAGE_SIZE] out [OF x] z1 [OF x] by (simp add: m1_def STRUCT_PAGE_SIZE_def)
    moreover have "\<not> x - page_rovp pg < 4"
    proof
      assume lt: "x - page_rovp pg < 4"
      define y where "y = x - page_rovp pg"
      have y: "unat y < 4" "x - pg = y + 52" using lt by (simp_all add: y_def word_less_nat_alt page_rovp_def)
      then have "unat (x - pg) < 72" unfolding y(2) by (simp add: unat_word_ariths)
      then show False using nx by blast
    qed
    moreover have "x \<noteq> page_readonly pg" using nx by (auto simp: page_readonly_def)
    ultimately show ?thesis by (simp add: m_def m2_def store32_at)
  qed
  let ?w = "set_mem m s1"
  have fs1: "fs_of s1 = vm.extend (heap.extend h (heap.more ?v)) (vm.more (fs_of s))" "page_tables s1 = page_tables s"
    unfolding h(2) by (simp_all add: fs_of_def set_fs_def set_files_def)
  have w: "heap.truncate (vm.truncate (fs_of ?w)) = h\<lparr>mem := m\<rparr>" "page_tables s1 = page_tables s"
    by (simp_all add: fs1 vm.defs heap.defs)
  have never: "pml4_map_address junk t a fr (vm.truncate (fs_of ?w)) = None" for junk a fr
  proof (rule conjunct1 [OF clear_table_never_maps])
    show "heap_inv (insert pg U) (heap.truncate (vm.truncate (fs_of ?w))) f'" unfolding w(1) using k(1) by (simp add: heap_inv_mem)
    show "heap_block (heap.truncate (vm.truncate (fs_of ?w))) 9 t" unfolding w(1) using k(5) by (simp add: heap_block_def is_arena_def)
    show "\<forall>x. in_region x t 4096 \<longrightarrow> mem (vm.truncate (fs_of ?w)) x = 0" using z by (simp add: vm.defs)
  qed (use assms(4) in simp)
  have eq: "page_copy d e s = (if pg = 0 then None else
      let s = ?w; f = page_phys m pg in if f = 0 then None else do {
         h \<leftarrow> list_push_back (aliases s) f (Elem pg);
         let s = s\<lparr>aliases := h\<rparr>;
         (t, h) \<leftarrow> hashtable_insert (page_con s d) (pt_lists s) (Elem pg);
         let s = set_con d t (s\<lparr>pt_lists := h\<rparr>);
         on_vm (pml4_map_address (unset (fs_of s)) (pt_pml4 (page_tables s d)) (page_useraddr (sys_mem s) pg)
           (frame_to_kernaddr s f)) s })"
    using Some by (simp add: page_copy_def r Let_def m_def m2_def m1_def if_distrib [of "set_mem _"] cong: if_cong)
  have fsw: "fs_of (set_con d c (?w\<lparr>aliases := a, pt_lists := l\<rparr>)) = fs_of ?w"
    "pt_pml4 (page_tables (set_con d c (?w\<lparr>aliases := a, pt_lists := l\<rparr>)) d) = t" for c a l
    using w(2) assms(2) by (simp_all add: set_con_def fs_of_def)
  show ?thesis
    unfolding eq Let_def by (auto simp: on_vm_def fsw never [simplified] split: bind_split)
qed



subsection \<open>A concrete kernel\<close>

definition nil_lists :: "(u64, u64) lheap" where
  "nil_lists = \<lparr>prev = (\<lambda>_. NULL), nxt = (\<lambda>_. NULL), lsize = (\<lambda>_. 0)\<rparr>"

definition demo_process :: process where
  "demo_process = \<lparr>exit_code = - 1, executable = 0, proc_cwd = 0, spt = 0x100, proc_fdtable = 0x500, semtable = 0x600,
     semtable_map = bitmap_create 128, code_segment_begin = 0, code_segment_end = 0, data_segment_begin = 0,
     data_segment_end = 0, heap_begin = 0, heap_end = 0\<rparr>"

definition demo_sys :: "fs \<Rightarrow> (u64, u64) hashtable \<Rightarrow> (u64, u64) lheap \<Rightarrow> u64 \<Rightarrow> sys" where
  "demo_sys v tab h root = \<lparr>kern = demo_clock, fds = demo_fds\<lparr>files := v\<rparr>, procs = (\<lambda>_. demo_process), parent = (\<lambda>_. 0),
     thread_ctx = (\<lambda>_. \<lparr>registers = [], ctx_rflags = 0, ctx_sp = 0, ctx_ip = 0\<rparr>), children = nil_lists,
     page_tables = (\<lambda>_. \<lparr>pt_con = tab, pt_pml4 = root\<rparr>), pt_lists = h, aliases = nil_lists, frame_table = 0x1000,
     pinned = (\<lambda>_. False), reserved_end = 0x200000, page_key = 0x300, header_var = 0x400\<rparr>"

lemma demo_sys_fs [simp]: "fs_of (demo_sys v tab h root) = v" "sys_mem (demo_sys v tab h root) = mem v"
  by (simp_all add: demo_sys_def fs_of_def sys_mem_def)

lemma hashtable_insert_fns: "hashtable_insert t h e = Some (t', h') \<Longrightarrow> fn t' = fn t \<and> eq t' = eq t"
  by (auto simp: hashtable_insert_def split: bind_splits if_splits)

text \<open>A page table that holds the page at 0x9000.\<close>

lemma demo_page:
  obtains tab h g where "\<And>v root. mem v = m \<Longrightarrow> table_rep (page_con (demo_sys v tab h root) 0x100) (pt_lists (demo_sys v tab h root)) g"
    "linked g \<noteq> {}"
proof -
  obtain t0 h0 where t0: "hashtable_init nil_lists (\<lambda>i. i) (page_hash m) (page_equal m) = (t0, h0)" by fastforce
  then have f0: "fn t0 = page_hash m" "eq t0 = page_equal m" by (auto simp: hashtable_init_def)
  have "same_key t0 x y \<longleftrightarrow> page_useraddr m x = page_useraddr m y" for x y by (simp add: same_key_def f0 page_equal_def)
  then have "good_keys t0"
    by (auto simp: good_keys_def f0 page_hash_def equivp_def fun_eq_iff)
  then have rep: "table_rep t0 h0 (\<lambda>l. if l \<in> (\<lambda>i. i) ` {..<INIT_BUCKETS} then Some [] else None)"
    by (intro hashtable_init_rep [OF _ t0]) simp_all
  have room: "Suc (length xs) < 18446744073709551616"
    if "(if l \<in> (\<lambda>i. i) ` {..<INIT_BUCKETS} then Some [] else None) = Some xs" for l :: u64 and xs :: "u64 list"
    using that by (auto split: if_splits)
  obtain t h g where t: "hashtable_insert t0 h0 (Elem 0x9000) = Some (t, h)" "table_rep t h g" "0x9000 \<in> linked g"
  proof -
    have "\<exists>t' h' f'. hashtable_insert t0 h0 (Elem 0x9000) = Some (t', h') \<and> table_rep t' h' f' \<and>
      linked f' = insert 0x9000 {x \<in> linked (\<lambda>l. if l \<in> (\<lambda>i. i) ` {..<INIT_BUCKETS} then Some [] else None). \<not> same_key t0 0x9000 x} \<and>
      eq t' = eq t0 \<and> entries t' = (if \<exists>x \<in> linked (\<lambda>l. if l \<in> (\<lambda>i. i) ` {..<INIT_BUCKETS} then Some [] else None). same_key t0 0x9000 x
        then entries t0 else entries t0 + 1)"
      by (rule hashtable_insert_spec [OF rep], unfold linked_all_empty, simp, rule room)
    then show thesis using that by blast
  qed
  have "t\<lparr>fn := page_hash m, eq := page_equal m\<rparr> = t" using hashtable_insert_fns [OF t(1)] f0 by simp
  then have "page_con (demo_sys v t h root) 0x100 = t" if "mem v = m" for v root
    using that by (simp add: page_con_def) (simp add: demo_sys_def)
  then show ?thesis using t(2,3) that [of t h g] by (auto simp: demo_sys_def)
qed


theorem frames_name_pages_witness:
  "\<exists>s'. init_frame_table (demo_sys (files demo_fds) (fst (hashtable_init nil_lists (\<lambda>i. i) (\<lambda>_. 0) (\<lambda>_ _. True))) nil_lists 0) = Some s' \<and>
     frame_to_kernaddr s' (frame_table s' + 2 * FRAME_SIZE) = 0xFFFF800000800000"
proof -
  let ?s = "demo_sys (files demo_fds) (fst (hashtable_init nil_lists (\<lambda>i. i) (\<lambda>_. 0) (\<lambda>_ _. True))) nil_lists 0"
  have up: "user_pool (files demo_fds) = demo_pool"
    by (simp add: demo_fds_def disk.defs vm.defs heap.defs init_heap_def demo_heap_def)
  then have n: "get_user_pages (fs_of ?s) = 6" "get_user_base (fs_of ?s) = 0xFFFF800000400000"
    by (simp_all add: get_user_pages_def get_user_base_def demo_pool_def)
  have inv: "heap_inv {} (heap.truncate (vm.truncate (files demo_fds))) no_blocks"
    using demo_heap_inv by (simp add: heap_inv_mem demo_fds_heap)
  have pg: "page_allocate (heap.truncate (vm.truncate (files demo_fds))) PAL_ZERO \<noteq> Some (0, heap.truncate (vm.truncate (files demo_fds)))"
    unfolding demo_fds_heap by (rule demo_heap_page) (simp add: init_heap_def demo_heap_def)
  then obtain t s1 where a: "sys_alloc 6 FRAME_SIZE ?s = Some (t, s1)"
    using kmalloc_fresh [OF inv, of 288 "unset (files demo_fds)"]
    by (auto simp: sys_alloc_def on_fs_def disk_alloc_def vm_alloc_def kcalloc_def FRAME_SIZE_def)
  obtain s' where s': "init_frame_table ?s = Some s'"
    using a frame_loop_inits [of 6 0 t "s1\<lparr>frame_table := t\<rparr>"] by (auto simp: init_frame_table_def n [simplified] Let_def)
  have "unat (get_user_pages (fs_of ?s)) = 6" using n(1) by simp
  from frames_name_pages [OF s' this] have "\<forall>i < 6. frame_to_kernaddr s' (frame_table s' + of_nat i * FRAME_SIZE) = get_user_base (fs_of ?s) + of_nat i * PAGESIZE"
    by simp
  from this [rule_format, of 2] have "frame_to_kernaddr s' (frame_table s' + of_nat 2 * FRAME_SIZE) = 0xFFFF800000400000 + of_nat 2 * PAGESIZE"
    unfolding n(2) by simp
  then show ?thesis using s' by (simp add: PAGESIZE_def)
qed

subsection \<open>Valid addresses\<close>

text \<open>C36: an address that \<^verbatim>\<open>page_is_valid\<close> accepts is above the reserved memory, below the kernel and
  in a segment or in the heap of the process.  No stack address is ever accepted: the bound of the
  stack is computed from a gigabyte that wraps to zero, so it is the start of the kernel.\<close>

theorem no_stack_address_valid:
  "page_is_valid p s \<longleftrightarrow>
     reserved_end s \<le> p \<and> p < PHYSBASE \<and> (page_within_segment p s \<or> page_within_heap p s)"
proof -
  have "STACKLIMIT = PHYSBASE" by (simp add: STACKLIMIT_def STACKMAX_def GB_def MB_def KB_def)
  then have "\<not> (p < PHYSBASE \<and> page_valid_stack p s)" by (auto simp: page_valid_stack_def Let_def)
  then show ?thesis by (auto simp: page_is_valid_def)
qed

end
