(* ===== verification/Process.thy ===== *)
theory Process
  imports Addrspace
begin

unbundle bit_operations_syntax

section \<open>Processes (thr/process.c)\<close>

text \<open>
  Model of \<^verbatim>\<open>kern/lib/thr/process.c\<close>.  The semaphores of a process are semaphores of the thread
  model, its locks those of the block devices.  One thread of control is followed: lowering a
  semaphore whose value is zero is \<open>None\<close>, since the thread never returns from it
  (see \<open>Threads\<close>), as is a call through the null process.  \<open>exec_process\<close>
  reads the headers of the file into local variables at \<open>header_var\<close>.
\<close>

definition FDCOUNT :: size_t where "FDCOUNT = 128"
definition SEMTABLE_SIZE :: size_t where "SEMTABLE_SIZE = 128"

subsection \<open>Creation\<close>

text \<open>What \<^verbatim>\<open>kcalloc\<close> leaves in a new \<^verbatim>\<open>struct process\<close>: every field, list and semaphore is zero.\<close>

definition zero_process :: process where
  "zero_process = \<lparr>exit_code = 0, executable = 0, proc_cwd = 0, spt = 0, proc_fdtable = 0, semtable = 0,
     semtable_map = \<lparr>bitcount = 0, bufsize = 0, bits = []\<rparr>, code_segment_begin = 0, code_segment_end = 0,
     data_segment_begin = 0, data_segment_end = 0, heap_begin = 0, heap_end = 0\<rparr>"

definition zero_list :: "'l \<Rightarrow> ('l, 'e) lheap \<Rightarrow> ('l, 'e) lheap" where
  "zero_list l h = h\<lparr>prev := (prev h)(Head l := NULL, Tail l := NULL), nxt := (nxt h)(Head l := NULL, Tail l := NULL),
     lsize := (lsize h)(l := 0)\<rparr>"

definition zero_sema :: "sema_id \<Rightarrow> ('a) kstate_scheme \<Rightarrow> ('a) kstate_scheme" where
  "zero_sema x k = k\<lparr>sema_value := (sema_value k)(x := 0), lists := zero_list (Waiters x) (lists k)\<rparr>"

definition clear_process :: "u64 \<Rightarrow> ('a) sys_scheme \<Rightarrow> ('a) sys_scheme" where
  "clear_process p s =
     (let k = upd_thread p (\<lambda>_. zero_thread) (kern s);
          k = zero_sema (wait_sema p) (zero_sema (reap_sema p) k)
      in s\<lparr>kern := k, procs := (procs s)(p := zero_process), parent := (parent s)(p := 0),
           thread_ctx := (thread_ctx s)(p := \<lparr>registers = replicate 10 0, ctx_rflags = 0, ctx_sp = 0, ctx_ip = 0\<rparr>),
           children := zero_list p (children s)\<rparr>)"

definition process_init :: "u64 \<Rightarrow> ('a) sys_scheme \<Rightarrow> ('a) sys_scheme option" where
  "process_init pr s = do {
     let s = s\<lparr>kern := upd_thread pr (\<lambda>t. t\<lparr>magic := PROCESS_MAGIK\<rparr>) (thread_init pr (kern s))\<rparr>;
     let s = upd_proc pr (\<lambda>p. p\<lparr>exit_code := - 1\<rparr>) s;
     (pt, s) \<leftarrow> page_table_create s;
     let s = upd_proc pr (\<lambda>p. p\<lparr>spt := pt\<rparr>) s;
     (t, s) \<leftarrow> on_fds (create_fdtable (proc_cwd (procs s pr)) FDCOUNT) s;
     let s = upd_proc pr (\<lambda>p. p\<lparr>proc_fdtable := t\<rparr>) s;
     (tab, s) \<leftarrow> sys_alloc SEMTABLE_SIZE SEMAPHORE_SIZE s;
     let s = upd_proc pr (\<lambda>p. p\<lparr>semtable := tab, semtable_map := bitmap_create SEMTABLE_SIZE\<rparr>) s;
     Some (set_fs (disk_lock_init (semtable_lock pr) (fs_of s)) s) }"

definition fork_process :: "('a) sys_scheme \<Rightarrow> (u64 \<times> ('a) sys_scheme) option" where
  "fork_process s = do {
     let cur = current_process s;
     (pr, s) \<leftarrow> sys_alloc 1 PROCESS_SIZE s;
     if pr = 0 \<or> cur = 0 then None
     else do {
       s \<leftarrow> process_init pr (clear_process pr s);
       let thr = process_get_base pr;
       let s = s\<lparr>thread_ctx := (thread_ctx s)(thr := thread_ctx s cur)\<rparr>;
       let s = s\<lparr>kern := upd_thread thr (\<lambda>t. t\<lparr>entry := entry (threads (kern s) cur), aux := aux (threads (kern s) cur)\<rparr>) (kern s)\<rparr>;
       h \<leftarrow> list_push_back (children s) cur (Elem pr);
       let s = s\<lparr>children := h\<rparr>;
       s \<leftarrow> page_table_copy (spt (procs s pr)) (spt (procs s cur)) s;
       Some (pr, s) } }"

subsection \<open>Execution\<close>

lemma sint_minus_page: "0 < sint (sz :: u64) \<Longrightarrow> sint (sz - 2097152) = sint sz - 2097152"
proof -
  assume p: "0 < sint sz"
  have "sint sz < 2 ^ 63" using sint_lt [of sz] by simp
  then have "signed_take_bit 63 (sint sz - 2097152) = sint sz - 2097152"
    using p by (intro signed_take_bit_int_eq_self) simp_all
  then show ?thesis by (simp add: sint_word_ariths)
qed

text \<open>The size is signed.\<close>

function load_segment :: "u64 \<Rightarrow> u64 \<Rightarrow> u64 \<Rightarrow> u64 \<Rightarrow> bool \<Rightarrow> ('a) sys_scheme \<Rightarrow> ('a) sys_scheme" where
  "load_segment page source ofs sz ro s =
     (if 0 < sint sz
      then load_segment (page + PAGESIZE) source (ofs + PAGESIZE) (sz - PAGESIZE) ro (page_defer_load page source ofs ro s)
      else s)"
  by pat_completeness auto
termination
  by (relation "measure (\<lambda>(_, _, _, sz, _, _). nat (sint sz))") (simp_all add: PAGESIZE_def sint_minus_page)

declare load_segment.simps [simp del]

text \<open>The characters 0x7F, E, L and F, read as a number.\<close>

definition ELF_MAGIK :: u32 where "ELF_MAGIK = 0x464C457F"
definition ELF_HEADER_SIZE :: size_t where "ELF_HEADER_SIZE = 64"
definition PROGRAM_HEADER_SIZE :: size_t where "PROGRAM_HEADER_SIZE = 56"
definition FILEINFO_MODE_R :: u32 where "FILEINFO_MODE_R = 4"

definition elf_progheader :: "bytes \<Rightarrow> u64 \<Rightarrow> u64" where "elf_progheader m h = load64 m (h + 32)"
definition elf_phentsize :: "bytes \<Rightarrow> u64 \<Rightarrow> u16" where "elf_phentsize m h = load16 m (h + 54)"
definition elf_phentcnt :: "bytes \<Rightarrow> u64 \<Rightarrow> u16" where "elf_phentcnt m h = load16 m (h + 56)"

text \<open>One entry of the table of program headers; the product of the two counts is an \<^verbatim>\<open>int\<close>.\<close>

definition load_entry :: "u64 \<Rightarrow> u64 \<Rightarrow> u64 \<Rightarrow> ('a) sys_scheme \<Rightarrow> ('a) sys_scheme" where
  "load_entry pht file i s =
     (let phte = pht + i * PROGRAM_HEADER_SIZE; m = sys_mem s
      in if load32 m phte = 1
         then load_segment (load64 m (phte + 16)) file (load64 m (phte + 8)) (load64 m (phte + 32))
                (load32 m (phte + 4) AND FILEINFO_MODE_R \<noteq> 0) s
         else s)"

definition exec_process :: "u64 \<Rightarrow> u64 \<Rightarrow> ('a) sys_scheme \<Rightarrow> ('a) sys_scheme option" where
  "exec_process file argv s = do {
     let cur = current_process s;
     (f, s) \<leftarrow> on_fs (open_file (proc_cwd (procs s cur)) file) s;
     let s = upd_proc cur (\<lambda>p. p\<lparr>executable := f\<rparr>) s;
     let hdr = header_var s;
     if f = 0 then None
     else do {
       (_, s) \<leftarrow> on_fs (file_read_at f hdr 0 ELF_HEADER_SIZE) s;
       if load32 (sys_mem s) hdr \<noteq> ELF_MAGIK then None
       else if elf_phentcnt (sys_mem s) hdr > 0
       then do {
         (pht, s) \<leftarrow> sys_alloc (ucast (elf_phentcnt (sys_mem s) hdr)) PROGRAM_HEADER_SIZE s;
         (_, s) \<leftarrow> on_fs (file_read_at f pht (elf_progheader (sys_mem s) hdr)
           (scast (ucast (elf_phentcnt (sys_mem s) hdr) * ucast (elf_phentsize (sys_mem s) hdr) :: u32))) s;
         let s = foldl (\<lambda>s i. load_entry pht f (of_nat i) s) s [0..<unat (elf_phentcnt (sys_mem s) hdr)];
         sys_free pht s }
       else Some s } }"

subsection \<open>Semaphores and exit\<close>

definition sys_sema_inc :: "sema_id \<Rightarrow> ('a) sys_scheme \<Rightarrow> ('a) sys_scheme option" where
  "sys_sema_inc x s = on_kern (semaphore_inc x) s"

definition sys_sema_dec :: "sema_id \<Rightarrow> ('a) sys_scheme \<Rightarrow> ('a) sys_scheme option" where
  "sys_sema_dec x s = (if sema_value (kern s) x = 0 then None else on_kern (semaphore_dec x) s)"

partial_function (option) exit_loop :: "u64 \<Rightarrow> (u64, u64) ptr \<Rightarrow> ('a) sys_scheme \<Rightarrow> ('a) sys_scheme option" where
  "exit_loop cur el s =
     (if el \<noteq> list_end cur
      then do {
        chld \<leftarrow> elem_value el;
        s \<leftarrow> (if is_process chld s then sys_sema_inc (reap_sema chld) s else Some s);
        ne \<leftarrow> list_next (children s) el;
        exit_loop cur ne s }
      else Some s)"

definition exit_process :: "u32 \<Rightarrow> ('a) sys_scheme \<Rightarrow> ('a) sys_scheme option" where
  "exit_process st s = do {
     let cur = current_process s;
     let s = upd_proc cur (\<lambda>p. p\<lparr>exit_code := st\<rparr>) s;
     s \<leftarrow> exit_loop cur (list_begin (children s) cur) s;
     s \<leftarrow> page_table_destroy (spt (procs s cur)) s;
     s \<leftarrow> sys_sema_inc (wait_sema cur) s;
     s \<leftarrow> sys_sema_dec (reap_sema cur) s;
     on_kern exit_thread s }"

end
