(* ===== verification/Syscall.thy ===== *)
theory Syscall
  imports Process "HOL-Library.Signed_Division"
begin

unbundle bit_operations_syntax

section \<open>System calls (thr/syscall.c, thr/sysentry.s, system.h)\<close>

text \<open>
  Model of \<^verbatim>\<open>kern/lib/thr/syscall.c\<close> and of the dispatch of \<^verbatim>\<open>sysentry.s\<close>, which calls through the
  table entry of the number in \<^verbatim>\<open>rax\<close>.  The table holds function pointers, here the names of the
  functions; an entry that is not set is the null pointer, a call through it faults, and a number
  behind the table is not checked (\<open>None\<close> as well).  Arguments and results are the 64-bit
  registers; a function without a result leaves the value \<open>unset\<close>.  \<open>fork_return\<close> is the address
  of the label in \<^verbatim>\<open>fork\<close>, \<open>syscall_entry\<close> that of \<^verbatim>\<open>syscall_handler\<close>.  A call that waits for ever
  is \<open>None\<close>.
\<close>

subsection \<open>Numbers and table\<close>

datatype syscall_number =
    SYS_FORK | SYS_GETPID | SYS_EXEC | SYS_EXIT | SYS_WAIT
  | SYS_CREATE | SYS_REMOVE | SYS_OPEN | SYS_CLOSE | SYS_WRITE
  | SYS_READ | SYS_CHMOD | SYS_CHMODFD | SYS_SLEEP | SYS_SLEEPTS
  | SYS_GROWDATA | SYS_SGET | SYS_SUNGET | SYS_SINC | SYS_SDEC

text \<open>The value of an enumerator is its position.\<close>

definition syscall_numbers :: "syscall_number list" where
  "syscall_numbers =
     [SYS_FORK, SYS_GETPID, SYS_EXEC, SYS_EXIT, SYS_WAIT, SYS_CREATE, SYS_REMOVE, SYS_OPEN, SYS_CLOSE, SYS_WRITE,
      SYS_READ, SYS_CHMOD, SYS_CHMODFD, SYS_SLEEP, SYS_SLEEPTS, SYS_GROWDATA, SYS_SGET, SYS_SUNGET, SYS_SINC, SYS_SDEC]"

fun position :: "'a \<Rightarrow> 'a list \<Rightarrow> nat" where
  "position x [] = 0"
| "position x (y # ys) = (if x = y then 0 else Suc (position x ys))"

definition syscall_code :: "syscall_number \<Rightarrow> u64" where
  "syscall_code n = of_nat (position n syscall_numbers)"

definition SYS_COUNT :: u64 where
  "SYS_COUNT = of_nat (length syscall_numbers)"

text \<open>The numbers are ordered as they are declared, so the order of the type is that of the codes.\<close>

lemma position_less: "x \<in> set xs \<Longrightarrow> position x xs < length xs"
  by (induction xs) auto

lemma position_inj: "x \<in> set xs \<Longrightarrow> y \<in> set xs \<Longrightarrow> position x xs = position y xs \<Longrightarrow> x = y"
  by (induction xs) (auto split: if_splits)

lemma every_number: "n \<in> set syscall_numbers"
  by (cases n) (simp_all add: syscall_numbers_def)

instantiation syscall_number :: linorder
begin

definition less_eq_syscall_number :: "syscall_number \<Rightarrow> syscall_number \<Rightarrow> bool" where
  "less_eq_syscall_number n m \<longleftrightarrow> position n syscall_numbers \<le> position m syscall_numbers"

definition less_syscall_number :: "syscall_number \<Rightarrow> syscall_number \<Rightarrow> bool" where
  "less_syscall_number n m \<longleftrightarrow> position n syscall_numbers < position m syscall_numbers"

instance
  by standard (auto simp: less_eq_syscall_number_def less_syscall_number_def dest: position_inj [OF every_number every_number])

end

lemma unat_syscall_code: "unat (syscall_code n) = position n syscall_numbers" "position n syscall_numbers < 20"
  using position_less [OF every_number, of n] by (simp_all add: syscall_code_def syscall_numbers_def unat_of_nat)

lemma syscall_code_order [simp]:
  "syscall_code n \<le> syscall_code m \<longleftrightarrow> n \<le> m" "syscall_code n < SYS_COUNT" "syscall_code n = syscall_code m \<longleftrightarrow> n = m"
  using unat_syscall_code(2) [of n] position_inj [OF every_number every_number, of n m]
  by (auto simp: word_le_nat_alt word_less_nat_alt word_unat_eq_iff unat_syscall_code less_eq_syscall_number_def SYS_COUNT_def
      syscall_numbers_def)

text \<open>The functions that the table points to.\<close>

datatype syscall_function =
    Fork | Getpid | Exec | Exit_call | Wait_call | Create | Remove | Open | Close | Write | Read
  | Chmod | Chmodfd | Sleep | Sleepts | Sget | Sunget | Sinc | Sdec

definition SYSCALL_ADDR :: u32 where "SYSCALL_ADDR = 0xC0000082"

record syscalls =
  syscall_table :: "u64 \<Rightarrow> syscall_function option"
  msr :: "u32 \<Rightarrow> u64"

definition set_entry :: "syscall_number \<Rightarrow> syscall_function \<Rightarrow> syscalls \<Rightarrow> syscalls" where
  "set_entry n h t = t\<lparr>syscall_table := (syscall_table t)(syscall_code n \<mapsto> h)\<rparr>"

definition wrmsr :: "u32 \<Rightarrow> u64 \<Rightarrow> syscalls \<Rightarrow> syscalls" where
  "wrmsr r val t = t\<lparr>msr := (msr t)(r := val)\<rparr>"

definition init_syscalls :: "u64 \<Rightarrow> syscalls \<Rightarrow> syscalls" where
  "init_syscalls syscall_entry t =
     wrmsr SYSCALL_ADDR syscall_entry
      (foldl (\<lambda>t (n, h). set_entry n h t) t
        [(SYS_CLOSE, Close), (SYS_CREATE, Create), (SYS_EXEC, Exec), (SYS_EXIT, Exit_call), (SYS_FORK, Fork),
         (SYS_GETPID, Getpid), (SYS_OPEN, Open), (SYS_READ, Read), (SYS_REMOVE, Remove), (SYS_WAIT, Wait_call),
         (SYS_WRITE, Write), (SYS_SGET, Sget), (SYS_SUNGET, Sunget), (SYS_SINC, Sinc), (SYS_SDEC, Sdec),
         (SYS_CHMOD, Chmod), (SYS_CHMODFD, Chmodfd), (SYS_SLEEP, Sleep), (SYS_SLEEPTS, Sleepts)])"

subsection \<open>Processes\<close>

text \<open>The child that is started is not the one whose number is returned.\<close>

definition fork :: "u64 \<Rightarrow> ('a) sys_scheme \<Rightarrow> (u32 \<times> ('a) sys_scheme) option" where
  "fork fork_return s = do {
     (frk, s) \<leftarrow> fork_process s;
     let s = s\<lparr>thread_ctx := (thread_ctx s)(frk := (thread_ctx s frk)\<lparr>ctx_ip := fork_return\<rparr>)\<rparr>;
     s \<leftarrow> on_kern (thread_unblock (process_get_base frk)) s;
     (frk2, s) \<leftarrow> fork_process s;
     Some (id_of (threads (kern s) frk2), s) }"

definition getpid :: "('a) sys_scheme \<Rightarrow> u32 option" where
  "getpid s = (if current_process s = 0 then None else Some (id_of (threads (kern s) (current_process s))))"

definition exec :: "u64 \<Rightarrow> u64 \<Rightarrow> ('a) sys_scheme \<Rightarrow> (u32 \<times> ('a) sys_scheme) option" where
  "exec file argv s = do { s \<leftarrow> exec_process file argv s; Some (- 1, s) }"

definition exit_call :: "u32 \<Rightarrow> ('a) sys_scheme \<Rightarrow> ('a) sys_scheme option" where
  "exit_call st s = exit_process st s"

text \<open>The loop goes on after it has met the child.\<close>

partial_function (option) wait_loop ::
  "u64 \<Rightarrow> u32 \<Rightarrow> (u64, u64) ptr \<Rightarrow> u32 \<Rightarrow> ('a) sys_scheme \<Rightarrow> (u32 \<times> ('a) sys_scheme) option" where
  "wait_loop cur p e st s =
     (if e \<noteq> list_end cur
      then do {
        t \<leftarrow> elem_value e;
        (st, s) \<leftarrow> (if is_process t s \<and> id_of (threads (kern s) t) = p
           then do {
             s \<leftarrow> sys_sema_dec (wait_sema t) s;
             let st = exit_code (procs s t);
             h \<leftarrow> list_remove (children s) cur e;
             s \<leftarrow> sys_sema_inc (reap_sema t) (s\<lparr>children := h\<rparr>);
             Some (st, s) }
           else Some (st, s));
        ne \<leftarrow> list_next (children s) e;
        wait_loop cur p ne st s }
      else Some (st, s))"

definition wait :: "u32 \<Rightarrow> ('a) sys_scheme \<Rightarrow> (u32 \<times> ('a) sys_scheme) option" where
  "wait p s = (let cur = current_process s in wait_loop cur p (list_begin (children s) cur) (- 1) s)"

subsection \<open>Files\<close>

definition create :: "u64 \<Rightarrow> u32 \<Rightarrow> ('a) sys_scheme \<Rightarrow> (bool \<times> ('a) sys_scheme) option" where
  "create file m s = on_fs (create_file (proc_cwd (procs s (current_process s))) file m) s"

definition remove :: "u64 \<Rightarrow> ('a) sys_scheme \<Rightarrow> (bool \<times> ('a) sys_scheme) option" where
  "remove file s = on_fs (remove_file (proc_cwd (procs s (current_process s))) file) s"

definition chmod :: "u64 \<Rightarrow> u32 \<Rightarrow> ('a) sys_scheme \<Rightarrow> (bool \<times> ('a) sys_scheme) option" where
  "chmod file m s = do {
     (tmpstream, s) \<leftarrow> on_fs (open_file (proc_cwd (procs s (current_process s))) file) s;
     let validchmod = (tmpstream \<noteq> 0);
     v \<leftarrow> (if validchmod then file_set_mode tmpstream m (fs_of s) else Some (fs_of s));
     v \<leftarrow> file_close tmpstream v;
     Some (validchmod, set_fs v s) }"

definition cur_fdtable :: "('a) sys_scheme \<Rightarrow> u64" where
  "cur_fdtable s = proc_fdtable (procs s (current_process s))"

definition open_call :: "u64 \<Rightarrow> u32 \<Rightarrow> ('a) sys_scheme \<Rightarrow> (u32 \<times> ('a) sys_scheme) option" where
  "open_call file flags s = do {
     (fd, s) \<leftarrow> on_fds (fdtable_open (cur_fdtable s) file) s;
     n \<leftarrow> fd_get fd (fds s);
     Some (n, s) }"

definition close :: "u32 \<Rightarrow> ('a) sys_scheme \<Rightarrow> ('a) sys_scheme option" where
  "close fd s = do { v \<leftarrow> fdtable_free (cur_fdtable s) fd (fds s); Some (s\<lparr>fds := v\<rparr>) }"

definition eof :: "u32 \<Rightarrow> ('a) sys_scheme \<Rightarrow> (bool \<times> ('a) sys_scheme) option" where
  "eof fd s = do {
     (f, s) \<leftarrow> on_fds (fdtable_lookupfd (cur_fdtable s) fd) s;
     on_fds (fd_eof f) s }"

definition chmodfd :: "u32 \<Rightarrow> u32 \<Rightarrow> ('a) sys_scheme \<Rightarrow> (bool \<times> ('a) sys_scheme) option" where
  "chmodfd fd m s = do {
     (f, s) \<leftarrow> on_fds (fdtable_lookupfd (cur_fdtable s) fd) s;
     on_fds (fd_chmod f m) s }"

definition write_call :: "u32 \<Rightarrow> u64 \<Rightarrow> size_t \<Rightarrow> ('a) sys_scheme \<Rightarrow> (u64 \<times> ('a) sys_scheme) option" where
  "write_call fd src n s = do {
     (f, s) \<leftarrow> on_fds (fdtable_lookupfd (cur_fdtable s) fd) s;
     on_fds (fd_write f src n) s }"

definition read :: "u32 \<Rightarrow> u64 \<Rightarrow> size_t \<Rightarrow> ('a) sys_scheme \<Rightarrow> (u64 \<times> ('a) sys_scheme) option" where
  "read fd dest n s = do {
     (f, s) \<leftarrow> on_fds (fdtable_lookupfd (cur_fdtable s) fd) s;
     on_fds (fd_read f dest n) s }"

subsection \<open>Sleeping\<close>

definition MS_PER_SEC :: int where "MS_PER_SEC = 1000"

text \<open>Signed 64-bit arithmetic; the product wraps.\<close>

definition sleep_duration :: "u64 \<Rightarrow> timespec" where
  "sleep_duration ms =
     (let nano = (sint (ms * NANO_PER_SEC) sdiv MS_PER_SEC) smod uint NANO_PER_SEC;
          secs = sint ms sdiv MS_PER_SEC
      in \<lparr>seconds = of_int secs, nanoseconds = of_int nano\<rparr>)"

definition sleep :: "u64 \<Rightarrow> ('a) sys_scheme \<Rightarrow> ('a) sys_scheme option" where
  "sleep ms s = on_kern (sleep_timespec (sleep_duration ms)) s"

text \<open>The duration is read through the pointer.\<close>

definition sleepts :: "u64 \<Rightarrow> ('a) sys_scheme \<Rightarrow> ('a) sys_scheme option" where
  "sleepts ts s =
     on_kern (sleep_timespec \<lparr>seconds = load64 (sys_mem s) ts, nanoseconds = load64 (sys_mem s) (ts + 8)\<rparr>) s"

subsection \<open>Semaphores of a process\<close>

definition set_semtable_map :: "u64 \<Rightarrow> bitmap \<Rightarrow> ('a) sys_scheme \<Rightarrow> ('a) sys_scheme" where
  "set_semtable_map p bm s = upd_proc p (\<lambda>q. q\<lparr>semtable_map := bm\<rparr>) s"

text \<open>The initial value is not used.\<close>

definition sget :: "u64 \<Rightarrow> ('a) sys_scheme \<Rightarrow> (u32 \<times> ('a) sys_scheme) option" where
  "sget val s = do {
     let cur = current_process s;
     v \<leftarrow> acquire (semtable_lock cur) (fs_of s);
     let s = set_fs v s;
     (i, bm) \<leftarrow> bitmap_scan_and_flip (semtable_map (procs s cur)) 0 1 True;
     let s = set_semtable_map cur bm s;
     Some (ucast i, set_fs (release (semtable_lock cur) (fs_of s)) s) }"

definition sunget :: "u32 \<Rightarrow> ('a) sys_scheme \<Rightarrow> ('a) sys_scheme option" where
  "sunget sema s = do {
     let cur = current_process s;
     v \<leftarrow> acquire (semtable_lock cur) (fs_of s);
     let s = set_fs v s;
     used \<leftarrow> bitmap_all (semtable_map (procs s cur)) (scast sema) 1 True;
     s \<leftarrow> (if used
        then do { bm \<leftarrow> bitmap_set (semtable_map (procs s cur)) (scast sema) 1 False; Some (set_semtable_map cur bm s) }
        else Some s);
     Some (set_fs (release (semtable_lock cur) (fs_of s)) s) }"

definition sema_at :: "u64 \<Rightarrow> u32 \<Rightarrow> ('a) sys_scheme \<Rightarrow> sema_id" where
  "sema_at cur sema s = SemaObj (semtable (procs s cur) + scast sema * SEMAPHORE_SIZE)"

definition sema_valid :: "u64 \<Rightarrow> u32 \<Rightarrow> ('a) sys_scheme \<Rightarrow> bool" where
  "sema_valid cur sema s \<longleftrightarrow> sint sema > - 1 \<and> scast sema < bitmap_size (semtable_map (procs s cur))"

definition sinc :: "u32 \<Rightarrow> ('a) sys_scheme \<Rightarrow> ('a) sys_scheme option" where
  "sinc sema s = (let cur = current_process s in
     if sema_valid cur sema s then sys_sema_inc (sema_at cur sema s) s else Some s)"

definition sdec :: "u32 \<Rightarrow> ('a) sys_scheme \<Rightarrow> ('a) sys_scheme option" where
  "sdec sema s = (let cur = current_process s in
     if sema_valid cur sema s then sys_sema_dec (sema_at cur sema s) s else Some s)"

subsection \<open>Dispatch\<close>

definition returns :: "(('r :: len) word \<times> ('a) sys_scheme) option \<Rightarrow> (u64 \<times> ('a) sys_scheme) option" where
  "returns r = map_option (\<lambda>(v, s). (ucast v, s)) r"

definition returns_bool :: "(bool \<times> ('a) sys_scheme) option \<Rightarrow> (u64 \<times> ('a) sys_scheme) option" where
  "returns_bool r = map_option (\<lambda>(b, s). (of_bool b, s)) r"

definition returns_none :: "('a) sys_scheme option \<Rightarrow> (u64 \<times> ('a) sys_scheme) option" where
  "returns_none r = map_option (\<lambda>s. (unset (fs_of s), s)) r"

text \<open>A call of the function with the registers of the first three arguments.\<close>

fun run_handler_call :: "u64 \<Rightarrow> syscall_function \<Rightarrow> u64 \<Rightarrow> u64 \<Rightarrow> u64 \<Rightarrow> ('a) sys_scheme \<Rightarrow> (u64 \<times> ('a) sys_scheme) option" where
  "run_handler_call lbl Fork a b c s = returns (fork lbl s)"
| "run_handler_call lbl Getpid a b c s = returns (do { i \<leftarrow> getpid s; Some (i, s) })"
| "run_handler_call lbl Exec a b c s = returns (exec a b s)"
| "run_handler_call lbl Exit_call a b c s = returns_none (exit_call (ucast a) s)"
| "run_handler_call lbl Wait_call a b c s = returns (wait (ucast a) s)"
| "run_handler_call lbl Create a b c s = returns_bool (create a (ucast b) s)"
| "run_handler_call lbl Remove a b c s = returns_bool (remove a s)"
| "run_handler_call lbl Open a b c s = returns (open_call a (ucast b) s)"
| "run_handler_call lbl Close a b c s = returns_none (close (ucast a) s)"
| "run_handler_call lbl Write a b c s = returns (write_call (ucast a) b c s)"
| "run_handler_call lbl Read a b c s = returns (read (ucast a) b c s)"
| "run_handler_call lbl Chmod a b c s = returns_bool (chmod a (ucast b) s)"
| "run_handler_call lbl Chmodfd a b c s = returns_bool (chmodfd (ucast a) (ucast b) s)"
| "run_handler_call lbl Sleep a b c s = returns_none (sleep a s)"
| "run_handler_call lbl Sleepts a b c s = returns_none (sleepts a s)"
| "run_handler_call lbl Sget a b c s = returns (sget a s)"
| "run_handler_call lbl Sunget a b c s = returns_none (sunget (ucast a) s)"
| "run_handler_call lbl Sinc a b c s = returns_none (sinc (ucast a) s)"
| "run_handler_call lbl Sdec a b c s = returns_none (sdec (ucast a) s)"

text \<open>
  The entry calls the function of the table and executes \<^verbatim>\<open>sysret\<close>, which goes on at the address in
  \<^verbatim>\<open>rcx\<close> with the flags in \<^verbatim>\<open>r11\<close>.  The processor has put the caller's there, but the two registers are
  not saved, and a C function may use them: \<open>scratch\<close> is what the compiled function makes of them.  The
  result is the value of \<^verbatim>\<open>rax\<close>, those of the two registers, and the state.
\<close>

definition syscall_handler ::
  "u64 \<Rightarrow> (syscall_function \<Rightarrow> u64 \<times> u64 \<Rightarrow> u64 \<times> u64) \<Rightarrow> syscalls \<Rightarrow> u64 \<Rightarrow> u64 \<times> u64 \<Rightarrow> u64 \<Rightarrow> u64 \<Rightarrow> u64 \<Rightarrow>
   ('a) sys_scheme \<Rightarrow> (u64 \<times> (u64 \<times> u64) \<times> ('a) sys_scheme) option" where
  "syscall_handler lbl scratch t rax regs a b c s = do {
     h \<leftarrow> syscall_table t rax;
     (v, s) \<leftarrow> run_handler_call lbl h a b c s;
     Some (v, scratch h regs, s) }"

subsection \<open>Waiting for a child\<close>

definition has_pid :: "u32 \<Rightarrow> ('a) sys_scheme \<Rightarrow> thr \<Rightarrow> bool" where
  "has_pid p s t \<longleftrightarrow> is_process t s \<and> id_of (threads (kern s) t) = p"

lemma wait_loop_skip:
  assumes "list_rep (children s) cur (us @ ys @ zs)" "\<forall>t\<in>set ys. \<not> has_pid p s t"
  shows "wait_loop cur p (case ys @ zs of [] \<Rightarrow> Tail cur | y # _ \<Rightarrow> Elem y) st s
       = wait_loop cur p (case zs of [] \<Rightarrow> Tail cur | y # _ \<Rightarrow> Elem y) st s"
  using assms
proof (induction ys arbitrary: us)
  case (Cons y ys)
  have n: "list_next (children s) (Elem y) = Some (case ys @ zs of [] \<Rightarrow> Tail cur | y # _ \<Rightarrow> Elem y)"
    using list_rep_next [of _ _ us y "ys @ zs"] Cons.prems(1) by simp
  show ?case
    using Cons.IH [of "us @ [y]"] Cons.prems n
    by (subst wait_loop.simps) (auto simp: list_end_def has_pid_def)
qed simp

lemma wait_loop_ends: "wait_loop cur p (Tail cur) st s = Some (st, s)"
  by (subst wait_loop.simps) (simp add: list_end_def)

text \<open>The state after the exit code of \<open>c\<close> has been read and the parent has let it go.\<close>

text \<open>Raising a semaphore in which the thread \<open>c\<close> waits first.\<close>

lemma semaphore_inc_wakes:
  assumes f: "lists_rep (lists k) f" "f (Waiters x) = Some (StatusElem c # ws)" "f Ready = Some rs"
    and c: "c \<noteq> idle_thread k" "Suc (length rs) < 18446744073709551616"
  shows "\<exists>k'. semaphore_inc x k = Some k' \<and> sema_value k' = (sema_value k)(x := sema_value k x + 1) \<and>
    threads k' = (threads k)(c := (threads k c)\<lparr>status := THRSTAT_READY\<rparr>) \<and>
    lists_rep (lists k') (f(Waiters x \<mapsto> ws, Ready \<mapsto> rs @ [StatusElem c]))"
proof -
  obtain h1 h2 where h: "list_pop_front (lists k) (Waiters x) = Some (Elem (StatusElem c), h1)"
    "list_push_back h1 Ready (Elem (StatusElem c)) = Some h2"
    "lists_rep h2 (f(Waiters x \<mapsto> ws, Ready \<mapsto> rs @ [StatusElem c]))"
    using lists_pop_front [OF f(1,2)] kl.transfer [OF f(1,2,3)] c(2) by (auto simp: pop_elem_def split: bind_splits)
  have "\<not> list_empty (lists k) (Waiters x)" using list_rep_empty [OF lists_repD [OF f(1,2)]] by simp
  then show ?thesis using h c(1)
    by (auto simp: semaphore_inc_def thread_unblock_def push_elem_def disable_interrupts_def set_interrupt_level_def
        upd_thread_def Let_def)
qed

text \<open>The state after the exit code of \<open>c\<close> has been read and the parent has let it go; \<open>k'\<close> is the kernel
  after the semaphore has been raised that the child waits for.\<close>

lemma reap_child:
  assumes rep: "list_rep (children s) cur (ys @ c # zs)"
    and c: "has_pid p s c" "sema_value (kern s) (wait_sema c) \<noteq> 0"
    and zs: "\<forall>t\<in>set zs. \<not> has_pid p s t"
    and inc: "\<And>k :: timer. lists k = lists (kern s) \<Longrightarrow> threads k = threads (kern s) \<Longrightarrow> idle_thread k = idle_thread (kern s) \<Longrightarrow>
      \<exists>k'. semaphore_inc (reap_sema c) k = Some k' \<and> Q (threads k') (lists k') \<and>
        sema_value k' = (sema_value k)(reap_sema c := sema_value k (reap_sema c) + 1)"
    and Q: "\<And>th h t. Q th h \<Longrightarrow> magic (th t) = magic (threads (kern s) t) \<and> id_of (th t) = id_of (threads (kern s) t)"
  shows "\<exists>s'. wait_loop cur p (Elem c) st s = Some (exit_code (procs s c), s') \<and> list_rep (children s') cur (ys @ zs) \<and>
    sema_value (kern s') = (sema_value (kern s))(wait_sema c := sema_value (kern s) (wait_sema c) - 1,
      reap_sema c := sema_value (kern s) (reap_sema c) + 1) \<and> procs s' = procs s \<and> Q (threads (kern s')) (lists (kern s'))"
proof -
  let ?v = "sema_value (kern s)"
  obtain k where k: "semaphore_dec (wait_sema c) (kern s) = Some k" "sema_value k = ?v(wait_sema c := ?v (wait_sema c) - 1)"
    "lists k = lists (kern s)" "threads k = threads (kern s)" "idle_thread k = idle_thread (kern s)"
    using c(2) by (simp add: semaphore_dec_def sema_dec_loop_def disable_interrupts_def set_interrupt_level_def)
  obtain h where h: "list_remove (children s) cur (Elem c) = Some h" "list_rep h cur (ys @ zs)"
    using remove_rep [OF rep] by blast
  have "reap_sema c \<noteq> wait_sema c" by (simp add: reap_sema_def wait_sema_def)
  then obtain k' where k': "semaphore_inc (reap_sema c) k = Some k'" "Q (threads k') (lists k')"
    "sema_value k' = ?v(wait_sema c := ?v (wait_sema c) - 1, reap_sema c := ?v (reap_sema c) + 1)"
    using inc [OF k(3-5)] k(2) by auto
  let ?s = "s\<lparr>children := h, kern := k'\<rparr>"
  have n: "list_next h (Elem c) = Some (case zs of [] \<Rightarrow> Tail cur | y # _ \<Rightarrow> Elem y)"
    using list_rep_next [OF rep] unlinked_next [OF rep h(1)] by (simp add: list_next_def get_nxt_def)
  have "wait_loop cur p (case zs of [] \<Rightarrow> Tail cur | y # _ \<Rightarrow> Elem y) r ?s = Some (r, ?s)" for r
    using wait_loop_skip [of ?s cur ys zs "[]" p r] h(2) zs Q [OF k'(2)] by (simp add: has_pid_def is_process_def wait_loop_ends)
  then have "wait_loop cur p (Elem c) st s = Some (exit_code (procs s c), ?s)"
    using c k k' h n
    by (subst wait_loop.simps) (simp add: list_end_def has_pid_def is_process_def sys_sema_dec_def sys_sema_inc_def on_kern_def)
  then show ?thesis using h(2) k'(2,3) by auto
qed

lemma wait_begins:
  "list_rep (children s) (current_process s) xs \<or> list_empty (children s) (current_process s) \<and> xs = [] \<Longrightarrow>
   wait p s = wait_loop (current_process s) p (case xs of [] \<Rightarrow> Tail (current_process s) | y # _ \<Rightarrow> Elem y) (- 1) s"
  using list_rep_begin [of "children s" "current_process s" xs] by (auto simp: wait_def list_begin_def Let_def)

lemma wait_none:
  assumes "list_rep (children s) (current_process s) xs \<or> list_empty (children s) (current_process s) \<and> xs = []"
    and "\<forall>t\<in>set xs. \<not> has_pid p s t"
  shows "wait p s = Some (- 1, s)"
  using wait_begins [OF assms(1), of p] wait_loop_skip [of s "current_process s" "[]" xs "[]" p "- 1"] assms
  by (auto simp: wait_loop_ends)

lemma wait_finds:
  assumes "list_rep (children s) (current_process s) (ys @ c # zs)" "\<forall>t\<in>set ys. \<not> has_pid p s t"
  shows "wait p s = wait_loop (current_process s) p (Elem c) (- 1) s"
  using wait_begins [of s "ys @ c # zs" p] wait_loop_skip [of s "current_process s" "[]" ys "c # zs" p "- 1"] assms by simp


subsection \<open>Semaphores of a process\<close>

lemma fs_of_set_fs [simp]: "fs_of (set_fs v s) = v" "set_fs w (set_fs v s) = set_fs w s" "set_fs (fs_of s) s = s"
  by (simp_all add: fs_of_def set_fs_def set_files_def)

interpretation sl: mutex "\<lambda>s. lock_value (fs_of s)" "\<lambda>l s. map_option (\<lambda>v. set_fs v s) (acquire l (fs_of s))"
  "\<lambda>l s. set_fs (release l (fs_of s)) s"
  by unfold_locales (auto simp: dl.acq_waits dl.acq_val dl.rel_val dl.rel_acq)

lemma semaphore_calls_without_bits:
  assumes "bm_ok (semtable_map (procs s (current_process s)))" "set_bits (semtable_map (procs s (current_process s))) = {}"
    and "lock_value (fs_of s) (semtable_lock (current_process s)) \<noteq> 0"
  shows "sget val s = Some (- 1, s)" "sunget i s = Some s"
proof -
  let ?c = "current_process s" and ?l = "semtable_lock (current_process s)"
  let ?bm = "semtable_map (procs s ?c)"
  obtain v where v: "acquire ?l (fs_of s) = Some v" and free: "set_fs (release ?l v) s = s"
    using sl.empty_section [OF assms(3)] by auto
  have same: "procs (set_fs v s) = procs s" "current_process (set_fs v s) = ?c"
    by (simp_all add: set_fs_def current_process_def is_process_def Let_def)
  have noset: "set_semtable_map ?c ?bm (set_fs v s) = set_fs v s"
    by (simp add: set_semtable_map_def upd_proc_def same fun_upd_idem)
  obtain n bm where n: "bitmap_scan_and_flip ?bm 0 1 True = Some (n, bm)" "n = BITMAP_NPOS" "bm = ?bm"
    using take_set_bit [OF assms(1)] assms(2) by auto
  have "(ucast (- 1 :: size_t) :: u32) = - 1" by (rule bit_word_eqI) (simp add: bit_simps)
  then show "sget val s = Some (- 1, s)"
    using n free noset by (simp add: sget_def v same BITMAP_NPOS_def)
  show "sunget i s = Some s"
  proof -
    obtain r where r: "bitmap_scan ?bm (scast i) 1 True = Some r"
      "if r = BITMAP_NPOS then True else r < bitcount ?bm \<and> run_at ?bm (unat r) (unat (1 :: size_t)) True"
      using bitmap_scan_spec [OF assms(1), of "scast i" 1 True] by (auto split: if_splits)
    have "r = BITMAP_NPOS"
      using r(2) assms(2) by (auto simp: run_at_def set_bits_def word_less_nat_alt split: if_splits)
    then have "bitmap_all ?bm (scast i) 1 True = Some (BITMAP_NPOS = scast i)" using r(1) by (simp add: bitmap_all_def)
    moreover have "bitmap_set ?bm BITMAP_NPOS 1 False = Some ?bm"
      by (subst bitmap_set.simps) (simp add: BITMAP_NPOS_def)
    ultimately show ?thesis using free noset
      by (cases "BITMAP_NPOS = (scast i :: size_t)") (simp_all add: sunget_def Let_def v same)
  qed
qed

lemma no_semaphore_value [simp]: "sinc (- 1) s = Some s" "sdec (- 1) s = Some s"
  by (simp_all add: sinc_def sdec_def sema_valid_def)

text \<open>C34: in a process whose semaphore map has no bit set, as \<^verbatim>\<open>process_init\<close> leaves it, \<^verbatim>\<open>sget\<close> answers
  -1 and nothing else changes, whatever is returned by \<^verbatim>\<open>sunget\<close>; raising and lowering the semaphore
  -1 does nothing.  So a process never gets a semaphore.\<close>

theorem no_semaphore_for_processes:
  assumes "bm_ok (semtable_map (procs s (current_process s)))" "set_bits (semtable_map (procs s (current_process s))) = {}"
    and "lock_value (fs_of s) (semtable_lock (current_process s)) \<noteq> 0"
  shows "sget val s = Some (- 1, s) \<and> sunget i s = Some s \<and> sinc (- 1) s = Some s \<and> sdec (- 1) s = Some s"
  using semaphore_calls_without_bits [OF assms] by simp

subsection \<open>Sleeping\<close>

lemma signed_division_nonneg:
  fixes a b :: int
  assumes "0 \<le> a" "0 < b"
  shows "a sdiv b = a div b" "a smod b = a mod b"
  using assms by (cases "a = 0"; simp add: signed_divide_int_def signed_modulo_int_def sgn_mult)+

lemma nanos_of_millis:
  fixes m :: int
  assumes "0 \<le> m"
  shows "(m * 1000000000 sdiv 1000) smod 1000000000 = (m mod 1000) * 1000000"
proof -
  have "m * 1000000000 div 1000 = m * 1000000" by simp
  moreover have "m * 1000000 mod (1000 * 1000000) = (m mod 1000) * 1000000" by (rule mod_mult_mult2)
  ultimately show ?thesis using assms by (simp only: signed_division_nonneg) (simp add: signed_division_nonneg)
qed

text \<open>\<^verbatim>\<open>sleep\<close> splits its milliseconds into seconds and nanoseconds exactly as long as the product does
  not overflow; since the durations are multiplied and not added, the caller sleeps for no tick when
  the time is below a second or a whole number of seconds.\<close>

theorem sleep_splits_time:
  assumes "ms < 9223372036"
  shows "sleep_duration ms = \<lparr>seconds = ms div 1000, nanoseconds = (ms mod 1000) * 1000000\<rparr> \<and>
    (ms < 1000 \<or> ms mod 1000 = 0 \<longrightarrow> sleep_timespec_ticks (sleep_duration ms) = Some 0)"
proof -
  let ?m = "uint ms"
  have m: "?m < 9223372036" "0 \<le> ?m" using assms by (simp_all add: word_less_def)
  have s: "sint ms = ?m"
    using m by (simp add: sint_uint signed_take_bit_int_eq_self [of 63 ?m, OF order_trans [OF _ m(2)]])
  have u: "uint (ms * 1000000000) = ?m * 1000000000"
    using m by (simp add: uint_word_ariths)
  then have p: "sint (ms * 1000000000) = ?m * 1000000000"
    using m by (simp add: sint_uint signed_take_bit_int_eq_self [of 63 "?m * 1000000000", OF order_trans [of _ 0]])
  have n: "(sint (ms * NANO_PER_SEC) sdiv MS_PER_SEC) smod uint NANO_PER_SEC = (?m mod 1000) * 1000000"
    using nanos_of_millis [OF m(2)] p by (simp add: NANO_PER_SEC_def MS_PER_SEC_def)
  have w: "?m mod 1000 = uint (ms mod 1000)" by (simp add: uint_mod_distrib)
  have d: "?m div 1000 = uint (ms div 1000)" by (simp add: uint_div_distrib)
  have e: "sleep_duration ms = \<lparr>seconds = ms div 1000, nanoseconds = (ms mod 1000) * 1000000\<rparr>"
    unfolding sleep_duration_def Let_def n s w by (simp add: MS_PER_SEC_def signed_division_nonneg d)
  have "ms < 1000 \<Longrightarrow> ms div 1000 = 0" by (simp add: word_less_def word_uint_eq_iff uint_div_distrib)
  then show ?thesis by (auto simp: e sleep_ticks_of_product sleep_quanta_zero)
qed

text \<open>The table after \<^verbatim>\<open>init_syscalls\<close>: every number but that of \<^verbatim>\<open>growdata\<close> leads to the function of
  its name; a call of that number faults, as does a number behind the table, when the memory
  there is clear.\<close>

theorem syscall_table_entries:
  assumes "\<forall>n. syscall_table t n = None"
  shows "map (\<lambda>n. syscall_table (init_syscalls e t) (syscall_code n)) syscall_numbers =
      map Some [Fork, Getpid, Exec, Exit_call, Wait_call, Create, Remove, Open, Close, Write, Read, Chmod, Chmodfd, Sleep, Sleepts]
      @ [None] @ map Some [Sget, Sunget, Sinc, Sdec] \<and>
    (SYS_COUNT \<le> rax \<longrightarrow> syscall_handler lbl f (init_syscalls e t) rax regs a b c s = None) \<and>
    msr (init_syscalls e t) SYSCALL_ADDR = e"
  using assms
  by (auto simp: init_syscalls_def set_entry_def wrmsr_def syscall_code_def syscall_numbers_def syscall_handler_def
      SYS_COUNT_def word_le_nat_alt)


subsection \<open>A process with a child\<close>

text \<open>Process 0x1000 has the child 0x2000, which has exited with the code -1.\<close>

definition demo_family :: sys where
  "demo_family = (demo_sys (files demo_fds) (fst (hashtable_init nil_lists (\<lambda>i. i) (\<lambda>_. 0) (=))) nil_lists 0)
     \<lparr>kern := demo_clock\<lparr>threads := (\<lambda>_. zero_thread\<lparr>magic := PROCESS_MAGIK\<rparr>), running_thread := 0x1000, sema_value := (\<lambda>_. 1)\<rparr>,
      children := the (list_push_back (list_init nil_lists 0x1000) 0x1000 (Elem 0x2000))\<rparr>"

lemma demo_family_current: "current_process demo_family = 0x1000"
  by (simp add: demo_family_def current_process_def is_process_def get_current_thread_def Let_def)

lemma demo_family_children: "list_rep (children demo_family) 0x1000 [0x2000]"
proof -
  obtain h where "list_push_back (list_init nil_lists 0x1000) 0x1000 (Elem (0x2000 :: u64)) = Some h" "list_rep h (0x1000 :: u64) [0x2000]"
    using push_back_rep [OF list_rep_init [of nil_lists "0x1000"], of "0x2000"] by auto
  then show ?thesis by (simp add: demo_family_def)
qed


lemma create_without_bits: "bm_ok (bitmap_create 128)" "set_bits (bitmap_create 128) = {}"
  using bitmap_create_ok [of 128] by (auto simp: set_bits_def)

theorem no_semaphore_for_processes_witness:
  "sget 1 demo_family = Some (- 1, demo_family)"
proof -
  have "semtable_map (procs demo_family x) = bitmap_create 128" "lock_value (fs_of demo_family) l \<noteq> 0" for x l
    by (simp_all add: demo_family_def demo_sys_def demo_process_def fs_of_def demo_fds_def disk.extend_def disk.fields_def vm.extend_def vm.fields_def heap.extend_def)
  then show ?thesis
    using no_semaphore_for_processes [of demo_family 1 0] create_without_bits by simp
qed

theorem sleep_splits_time_witness:
  "sleep_duration 1500 = \<lparr>seconds = 1, nanoseconds = 500000000\<rparr> \<and> sleep_timespec_ticks (sleep_duration 2000) = Some 0"
  using sleep_splits_time [of 1500] sleep_splits_time [of 2000] by auto

definition no_syscalls :: syscalls where
  "no_syscalls = \<lparr>syscall_table = (\<lambda>_. None), msr = (\<lambda>_. 0)\<rparr>"

theorem syscall_table_entries_witness:
  "syscall_table (init_syscalls 0x100 no_syscalls) 9 = Some Write \<and>
    syscall_handler 0 (\<lambda>_ r. r) (init_syscalls 0x100 no_syscalls) 20 (0, 0) 0 0 0 demo_family = None"
proof -
  have "\<forall>n. syscall_table no_syscalls n = None" by (simp add: no_syscalls_def)
  from syscall_table_entries [OF this, of "0x100" 20 0 "\<lambda>_ r. r" "(0, 0)" 0 0 0 demo_family] show ?thesis
    by (simp add: syscall_numbers_def syscall_code_def SYS_COUNT_def)
qed

end
