(* ===== verification/Boot.thy ===== *)
theory Boot
  imports Interrupt Pci Syscall
begin

unbundle bit_operations_syntax

section \<open>Start of the kernel (bs/main.c, io/ide.c, io/ahci.c)\<close>

text \<open>
  Model of \<^verbatim>\<open>kernel\<close>, which starts the components one after the other, and of the two disk drivers.
  The state puts the states of the components side by side: the machine with its scheduler, the
  console, the memory with the page tables and the bus, and the table of system calls.  What the linker
  and the hardware provide is the record \<open>boot_env\<close>; \<open>msg e i\<close> is the address of the text that the
  comment of the call shows.  An assertion that fails halts (\<open>None\<close>), as does an access
  through a null pointer.
\<close>

subsection \<open>State\<close>

record boot =
  mach :: machine
  cons :: console
  mm :: pci
  calls :: syscalls
  ahci_device :: "(u32, u64) ptr"
  expecting_interrupt :: bool

record boot_env =
  msg :: "nat \<Rightarrow> u64"
  gbuf :: u64
  idt_table :: u64
  tss_object :: u64
  stubs :: "nat \<Rightarrow> u64"
  pool_begin :: u64
  kernel_end :: u64
  kernel_map_words :: "size_t list"
  user_map_words :: "size_t list"
  cpu_features :: u32
  apic_register :: u64
  idle_function :: u64
  entry_point :: u64
  bus_depth :: nat
  bus_env :: pci_env
  rsdp_text :: u64
  name_buffer :: u64
  mcfg_text :: u64
  behind_list :: pci_device
  ahci_sema :: u64
  ahci_lock :: u64
  dma_sema :: u64
  ide_lock :: u64

text \<open>Operations on the parts.\<close>

definition on_sched :: "(timer \<Rightarrow> timer option) \<Rightarrow> boot \<Rightarrow> boot option" where
  "on_sched g s = do { k \<leftarrow> g (machine.kern (mach s)); Some (s\<lparr>mach := (mach s)\<lparr>machine.kern := k\<rparr>\<rparr>) }"

definition on_pages :: "(vm \<Rightarrow> vm option) \<Rightarrow> boot \<Rightarrow> boot option" where
  "on_pages g s = do { v \<leftarrow> g (vm.truncate (mm s)); Some (s\<lparr>mm := vm.extend v (vm.more (mm s))\<rparr>) }"

definition say :: "boot_env \<Rightarrow> nat \<Rightarrow> boot \<Rightarrow> boot option" where
  "say e i s = do { (_, c) \<leftarrow> puts (mem (mm s)) (msg e i) (cons s); Some (s\<lparr>cons := c\<rparr>) }"

definition say_format :: "boot_env \<Rightarrow> nat \<Rightarrow> u64 list \<Rightarrow> boot \<Rightarrow> boot option" where
  "say_format e i args s = do {
     (_, m, c) \<leftarrow> printf (gbuf e) (wjunk (bus_env e)) (farg (bus_env e)) (mem (mm s)) (msg e i) args (cons s);
     Some (s\<lparr>mm := (mm s)\<lparr>mem := m\<rparr>, cons := c\<rparr>) }"

subsection \<open>Paging and timer\<close>

definition init_paging :: "boot_env \<Rightarrow> boot \<Rightarrow> boot option" where
  "init_paging e s = do {
     let total_pages = (PHYSSIZE - kernel_end e) div PAGESIZE;
     let user_pages = total_pages div 2;
     let kernel_pages = total_pages - user_pages;
     let bs = phys_to_kernel (kernel_end e);
     s \<leftarrow> say_format e 4 [bs] s;
     s \<leftarrow> say_format e 5 [bs + kernel_pages * PAGESIZE] s;
     let s = s\<lparr>mach := install_interrupt_handler INTR_TYPE_PGFAULT PageFault (mach s)\<rparr>;
     s \<leftarrow> on_pages (map_pages total_pages bs) s;
     Some (s\<lparr>mm := init_pools (mm s) (kernel_end e) (kernel_map_words e) (user_map_words e)\<rparr>) }"

definition start_timer :: "boot_env \<Rightarrow> boot \<Rightarrow> boot option" where
  "start_timer e s = do {
     s \<leftarrow> on_sched (\<lambda>k. Some (init_timer True k)) s;
     s \<leftarrow> (if cpu_features e AND push_bit 9 1 \<noteq> 0 then say_format e 8 [apic_register e] s else Some s);
     (enabled, p) \<leftarrow> enable_apic (cpu_features e) (apic_register e) (mm s);
     let s = s\<lparr>mm := p\<rparr>;
     if enabled
     then do {
       let s = s\<lparr>mach := install_interrupt_handler INTR_TYPE_TIMER TimerInterrupt (mach s)\<rparr>;
       s \<leftarrow> say e 9 s;
       say e 10 (s\<lparr>mach := enable_apic_timer QUANTUM (mach s)\<rparr>) }
     else Some s }"

subsection \<open>Threads\<close>

definition THREAD_SIZE :: size_t where "THREAD_SIZE = 312"
definition KTHREAD_STACK_SIZE :: size_t where "KTHREAD_STACK_SIZE = 0x1000"

definition thread_stack_top :: "u64 \<Rightarrow> u64" where
  "thread_stack_top t = t + THREAD_SIZE + KTHREAD_STACK_SIZE"

text \<open>The initial thread runs on the stack that the kernel was started on; the idle thread and its stack
  are one block of the heap.\<close>

definition start_scheduler :: "boot_env \<Rightarrow> boot \<Rightarrow> boot option" where
  "start_scheduler e s = do {
     (initial, p) \<leftarrow> pci_alloc (junk (bus_env e)) 1 THREAD_SIZE (mm s);
     (idle, p) \<leftarrow> pci_alloc (junk (bus_env e)) 1 (THREAD_SIZE + KTHREAD_STACK_SIZE) p;
     if initial = 0 \<or> idle = 0 then None
     else on_sched (init_threads initial idle (idle_function e)) (s\<lparr>mm := p\<rparr>) }"

subsection \<open>The disk drivers\<close>

definition INTR_TYPE_DMA :: nat where "INTR_TYPE_DMA = 0x76"

definition init_ide :: "boot_env \<Rightarrow> boot \<Rightarrow> boot" where
  "init_ide e s =
     (let k = lock_init (ide_lock e) (machine.kern (mach s));
          k = semaphore_init (SemaObj (dma_sema e)) 0 k;
          s = s\<lparr>mach := (mach s)\<lparr>machine.kern := k\<rparr>, expecting_interrupt := False\<rparr>
      in s\<lparr>mach := install_interrupt_handler INTR_TYPE_DMA DmaHandler (mach s)\<rparr>)"

definition wait_until_ready :: "boot \<Rightarrow> boot" where
  "wait_until_ready s = s"

definition dma_handler :: "boot \<Rightarrow> interrupt_defer \<times> boot" where
  "dma_handler s = (INTRDEFR_NONE, s)"

definition PCI_DCLASS_MASS :: u32 where "PCI_DCLASS_MASS = 1"
definition SERIAL_ATA :: u32 where "SERIAL_ATA = 6"
definition AHCI :: u32 where "AHCI = 1"

text \<open>The device that an element names; the sentinel names what lies behind the list.\<close>

definition device_at :: "boot_env \<Rightarrow> pci \<Rightarrow> (u32, u64) ptr \<Rightarrow> pci_device" where
  "device_at e p el = (case el of Elem d \<Rightarrow> devices p d | _ \<Rightarrow> behind_list e)"

definition init_ahci :: "boot_env \<Rightarrow> boot \<Rightarrow> boot option" where
  "init_ahci e s = do {
     d \<leftarrow> get_pci_device (dsubclass (behind_list e)) (mm s) PCI_DCLASS_MASS SERIAL_ATA;
     let s = s\<lparr>ahci_device := d\<rparr>;
     if d = NULL \<or> progif (device_at e (mm s) d) \<noteq> AHCI then None
     else do {
       s \<leftarrow> say_format e 15 [devstr (device_at e (mm s) d)] s;
       s \<leftarrow> on_sched (\<lambda>k. Some (semaphore_init (SemaObj (ahci_sema e)) 0 k)) s;
       on_sched (\<lambda>k. Some (lock_init (ahci_lock e) k)) s } }"

text \<open>Both bodies are empty, the result is not set.\<close>

definition ahci_write :: "boot_env \<Rightarrow> u64 \<Rightarrow> size_t \<Rightarrow> size_t \<Rightarrow> size_t \<Rightarrow> boot \<Rightarrow> u64 \<times> boot" where
  "ahci_write e src sector n ofs s = (junk (bus_env e), s)"

definition ahci_read :: "boot_env \<Rightarrow> u64 \<Rightarrow> size_t \<Rightarrow> size_t \<Rightarrow> size_t \<Rightarrow> boot \<Rightarrow> u64 \<times> boot" where
  "ahci_read e dst sector n ofs s = (junk (bus_env e), s)"

subsection \<open>The kernel\<close>

definition start_memory :: "boot_env \<Rightarrow> boot \<Rightarrow> boot option" where
  "start_memory e s = do {
     s \<leftarrow> say e 3 s;
     s \<leftarrow> on_pages (\<lambda>v. Some (init_pml4 (pool_begin e) v)) s;
     s \<leftarrow> init_paging e s;
     s \<leftarrow> on_pages (\<lambda>v. Some (heap.extend (init_heap (heap.truncate v)) (heap.more v))) s;
     say e 6 s }"

definition start_threads :: "boot_env \<Rightarrow> boot \<Rightarrow> boot option" where
  "start_threads e s = do {
     s \<leftarrow> say e 7 s;
     s \<leftarrow> start_timer e s;
     s \<leftarrow> start_scheduler e s;
     say e 11 (s\<lparr>calls := init_syscalls (entry_point e) (calls s)\<rparr>) }"

definition start_bus :: "boot_env \<Rightarrow> boot \<Rightarrow> boot option" where
  "start_bus e s = do {
     s \<leftarrow> say e 12 s;
     p \<leftarrow> init_pci (bus_depth e) (bus_env e) (rsdp_text e) (name_buffer e) (mcfg_text e) (mm s);
     Some (s\<lparr>mm := p\<rparr>) }"

text \<open>The driver, the last message and the end of the initial thread.\<close>

definition finish_start :: "boot_env \<Rightarrow> boot \<Rightarrow> boot option" where
  "finish_start e s = do {
     s \<leftarrow> init_ahci e s;
     s \<leftarrow> say e 16 s;
     on_sched exit_thread s }"

definition kernel :: "boot_env \<Rightarrow> boot \<Rightarrow> boot option" where
  "kernel e s = do {
     let s = s\<lparr>cons := init_console (cons s)\<rparr>;
     s \<leftarrow> say e 1 s;
     s \<leftarrow> say e 2 s;
     let s = s\<lparr>mach := init_interrupts (idt_table e) (tss_object e) (stubs e) (mach s)\<rparr>;
     s \<leftarrow> start_memory e s;
     s \<leftarrow> start_threads e s;
     s \<leftarrow> start_bus e s;
     finish_start e s }"

subsection \<open>The driver needs its controller\<close>

text \<open>C37: when \<^verbatim>\<open>init_ahci\<close> comes to its end, the controller is the first serial ATA device in the list of
  mass storage and has the programming interface AHCI; if the list has devices, but none of these, it is
  the memory behind the list, which then happens to look like one.  In an empty list, also one that was
  never initialised, there is nothing to find, and the kernel stops at the null pointer.\<close>

theorem init_ahci_takes_first_controller:
  assumes "list_rep (device_table (mm s)) PCI_DCLASS_MASS ds \<or> zeroed_list (device_table (mm s)) PCI_DCLASS_MASS \<and> ds = []"
  shows "(init_ahci e s = Some s' \<longrightarrow>
      (case find (\<lambda>d. dsubclass (devices (mm s) d) = SERIAL_ATA) ds of
         Some d \<Rightarrow> ahci_device s' = Elem d \<and> progif (devices (mm s) d) = AHCI
       | None \<Rightarrow> ds \<noteq> [] \<and> dsubclass (behind_list e) = SERIAL_ATA \<and> progif (behind_list e) = AHCI \<and>
           ahci_device s' = Tail PCI_DCLASS_MASS)) \<and>
    (ds = [] \<longrightarrow> init_ahci e s = None)"
proof -
  let ?f = "find (\<lambda>d. dsubclass (devices (mm s) d) = SERIAL_ATA) ds"
  have g: "get_pci_device (dsubclass (behind_list e)) (mm s) PCI_DCLASS_MASS SERIAL_ATA =
    Some (case ?f of Some d \<Rightarrow> Elem d
      | None \<Rightarrow> if ds \<noteq> [] \<and> dsubclass (behind_list e) = SERIAL_ATA then Tail PCI_DCLASS_MASS else NULL)"
    using assms
  proof
    assume "list_rep (device_table (mm s)) PCI_DCLASS_MASS ds"
    from get_pci_device_rep [OF this, of "dsubclass (behind_list e)" SERIAL_ATA] show ?thesis
      by (simp add: PCI_DCLASS_MASS_def SERIAL_ATA_def cong: option.case_cong)
  qed (auto simp: get_pci_device_def zeroed_list_def list_empty_def list_size_def)
  have fin: "ahci_device s2 = ahci_device s1" if "on_sched k s1 = Some s2" for k s1 s2
    using that by (auto simp: on_sched_def split: bind_splits)
  have fmt: "ahci_device s2 = ahci_device s1" if "say_format e i args s1 = Some s2" for i args s1 s2
    using that by (auto simp: say_format_def split: bind_splits)
  show ?thesis
  proof (cases ?f)
    case None
    then show ?thesis using g
      by (auto simp: init_ahci_def device_at_def Let_def split: bind_splits if_splits dest!: fin fmt)
  next
    case (Some d)
    then have "ds \<noteq> []" by auto
    then show ?thesis
      using g Some by (auto simp: init_ahci_def device_at_def Let_def split: bind_splits if_splits dest!: fin fmt)
  qed
qed

subsection \<open>The end of the start\<close>

lemma list_init_other: "l \<noteq> k \<Longrightarrow> list_rep (list_init h k) l xs = list_rep h l xs"
  by (auto simp: list_rep_def list_init_def intro: chain_cong [THEN iffD1] chain_cong [THEN iffD2])

lemma init_threads_shape:
  assumes "init_threads b i fi k = Some k'"
  shows "list_rep (lists k') Ready []" "running_thread k' = b" "idle_thread k' = i"
    "b \<noteq> i \<Longrightarrow> frames k' i = [StartThread]"
  using assms
  by (auto simp: init_threads_def create_thread_def thread_init_def upd_thread_def assign_id_def semaphore_init_def
      thread_unblock_def disable_interrupts_def set_interrupt_level_def Let_def list_init_other list_rep_init)

lemma start_scheduler_shape:
  assumes inv: "heap_inv U (heap.truncate (vm.truncate (mm s))) f" and st: "start_scheduler e s = Some s1"
  obtains b i where "running_thread (machine.kern (mach s1)) = b" "idle_thread (machine.kern (mach s1)) = i" "b \<noteq> i"
    "list_rep (lists (machine.kern (mach s1))) Ready []" "frames (machine.kern (mach s1)) i = [StartThread]"
proof -
  let ?j = "junk (bus_env e)"
  obtain b p i q where a: "pci_alloc ?j 1 THREAD_SIZE (mm s) = Some (b, p)"
      "pci_alloc ?j 1 (THREAD_SIZE + KTHREAD_STACK_SIZE) p = Some (i, q)"
    and k: "on_sched (init_threads b i (idle_function e)) (s\<lparr>mm := q\<rparr>) = Some s1"
    using st by (auto simp: start_scheduler_def split: bind_splits if_splits)
  obtain h where h: "kmalloc ?j 312 (heap.truncate (vm.truncate (mm s))) = Some (b, h)" "heap.truncate (vm.truncate p) = h"
    using a(1) by (auto simp: pci_alloc_def vm_alloc_def kcalloc_def THREAD_SIZE_def vm.defs heap.defs split: bind_splits)
  obtain h' where h': "kmalloc ?j 4408 h = Some (i, h')"
    using a(2) h(2) by (auto simp: pci_alloc_def vm_alloc_def kcalloc_def THREAD_SIZE_def KTHREAD_STACK_SIZE_def split: bind_splits)
  obtain f1 where f1: "heap_inv (insert b U) h f1" using kmalloc_fresh [OF inv, of 312 ?j] h(1) by auto
  have "b \<noteq> i" using kmalloc_fresh [OF f1, of 4408 ?j] h' by auto
  obtain k' where k': "init_threads b i (idle_function e) (machine.kern (mach s)) = Some k'" "machine.kern (mach s1) = k'"
    using k by (auto simp: on_sched_def split: bind_splits)
  show thesis using init_threads_shape [OF k'(1)] \<open>b \<noteq> i\<close> k'(2) that by blast
qed

lemma exit_to_idle:
  assumes "exit_thread k = Some k'" "list_rep (lists k) Ready []" "running_thread k \<noteq> idle_thread k"
  shows "running_thread k' = idle_thread k" "status (threads k' (running_thread k)) = THRSTAT_DEAD" "list_rep (lists k') Ready []"
    "frames k' (idle_thread k) = frames k (idle_thread k)" "idle_thread k' = idle_thread k"
  using assms list_rep_empty [OF assms(2)]
  by (auto simp: exit_thread_def schedule_next_def next_thread_def disable_interrupts_def upd_thread_def push_frame_def
      get_current_thread_def Let_def)

lemma init_ahci_sched:
  assumes "init_ahci e s = Some s'"
  shows "machine.kern (mach s') = lock_init (ahci_lock e) (semaphore_init (SemaObj (ahci_sema e)) 0 (machine.kern (mach s)))"
  using assms by (auto simp: init_ahci_def say_format_def on_sched_def Let_def split: bind_splits if_splits)

text \<open>C30: when the heap is set up, the two threads of the start are different, and after the disk driver
  has started the initial thread is dead, the idle thread runs, with its first activation before it,
  and no thread is ready: whatever the enumeration of the bus and the messages have changed beside
  the scheduler.\<close>

theorem kernel_ends_in_idle_thread:
  assumes "heap_inv U (heap.truncate (vm.truncate (mm s))) f" "start_scheduler e s = Some s1"
    and "finish_start e (s1\<lparr>cons := c, mm := p, calls := t\<rparr>) = Some s'"
  shows "let k1 = machine.kern (mach s1); k = machine.kern (mach s') in
    running_thread k1 \<noteq> idle_thread k1 \<and> running_thread k = idle_thread k1 \<and> idle_thread k = idle_thread k1 \<and>
    frames k (idle_thread k) = [StartThread] \<and> status (threads k (running_thread k1)) = THRSTAT_DEAD \<and>
    list_rep (lists k) Ready [] \<and> calls s' = t"
proof -
  obtain b i where k1: "running_thread (machine.kern (mach s1)) = b" "idle_thread (machine.kern (mach s1)) = i" "b \<noteq> i"
    "list_rep (lists (machine.kern (mach s1))) Ready []" "frames (machine.kern (mach s1)) i = [StartThread]"
    using start_scheduler_shape [OF assms(1,2)] .
  let ?k2 = "lock_init (ahci_lock e) (semaphore_init (SemaObj (ahci_sema e)) 0 (machine.kern (mach s1)))"
  obtain s2 s3 where s: "init_ahci e (s1\<lparr>cons := c, mm := p, calls := t\<rparr>) = Some s2" "say e 16 s2 = Some s3"
    "on_sched exit_thread s3 = Some s'"
    using assms(3) by (auto simp: finish_start_def split: bind_splits)
  have "machine.kern (mach s3) = ?k2"
    using init_ahci_sched [OF s(1)] s(2) by (auto simp: say_def split: bind_splits)
  then have ex: "exit_thread ?k2 = Some (machine.kern (mach s'))"
    using s(3) by (auto simp: on_sched_def split: bind_splits)
  have k2: "list_rep (lists ?k2) Ready []" "running_thread ?k2 = b" "idle_thread ?k2 = i" "frames ?k2 i = [StartThread]"
    using k1 by (simp_all add: lock_init_def semaphore_init_def list_init_other)
  have "calls s' = t"
    using s by (auto simp: init_ahci_def say_format_def say_def on_sched_def Let_def split: bind_splits if_splits)
  then show ?thesis
    using exit_to_idle [OF ex k2(1)] k1 k2(2-4) by (simp add: Let_def)
qed

subsection \<open>A machine with a disk controller\<close>

definition demo_start_env :: boot_env where
  "demo_start_env = \<lparr>msg = (\<lambda>_. 16), gbuf = 0x7000, idt_table = 0x100, tss_object = 0x200, stubs = (\<lambda>_. 0x300),
     pool_begin = 0x10000, kernel_end = 0x400000, kernel_map_words = [0], user_map_words = [0], cpu_features = 0,
     apic_register = 0, idle_function = 7, entry_point = 0x500, bus_depth = 256, bus_env = demo_env (\<lambda>_. 0),
     rsdp_text = 0x600, name_buffer = 0x700, mcfg_text = 0x800, behind_list = zero_device, ahci_sema = 0x900,
     ahci_lock = 0xA00, dma_sema = 0xB00, ide_lock = 0xC00\<rparr>"

text \<open>An IDE controller and a serial ATA controller.\<close>

definition demo_ahci_bus :: pci where
  "demo_ahci_bus = demo_pci\<lparr>devices := (\<lambda>d. zero_device\<lparr>dclass := 1, dsubclass := if d = 0x9000 then 1 else 6, progif := 1\<rparr>),
     device_table := the (do { h \<leftarrow> list_push_back (list_init (device_table demo_pci) 1) 1 (Elem 0x9000); list_push_back h 1 (Elem 0x9100) })\<rparr>"

definition demo_start :: boot where
  "demo_start = \<lparr>mach = demo_machine, cons = demo_console,
     mm = vm.extend (heap.extend ((init_heap demo_heap)\<lparr>mem := (\<lambda>_. 0)\<rparr>) (vm.fields 0x400000 0x1000 0x1000)) (vm.more demo_pci),
     calls = no_syscalls, ahci_device = NULL, expecting_interrupt = False\<rparr>"

lemma demo_ahci_bus_fields: "mem demo_ahci_bus = (\<lambda>_. 0)" "list_rep (device_table demo_ahci_bus) 1 [0x9000, 0x9100]"
  "devices demo_ahci_bus d = zero_device\<lparr>dclass := 1, dsubclass := if d = 0x9000 then 1 else 6, progif := 1\<rparr>"
proof -
  obtain h where h: "list_push_back (list_init (device_table demo_pci) 1) 1 (Elem 0x9000) = Some h" "list_rep h 1 [0x9000]"
    using push_back_rep [OF list_rep_init [of "device_table demo_pci" 1], of "0x9000"] by auto
  obtain h' where "list_push_back h 1 (Elem 0x9100) = Some h'" "list_rep h' 1 [0x9000, 0x9100]"
    using push_back_rep [OF h(2), of "0x9100"] by auto
  then show "list_rep (device_table demo_ahci_bus) 1 [0x9000, 0x9100]" using h(1) by (simp add: demo_ahci_bus_def)
qed (simp_all add: demo_ahci_bus_def demo_pci_fields)

lemma zero_text: "strlen (\<lambda>_. 0) a = Some 0" "(\<lambda>_. 0)(b := 0) = (\<lambda>_. 0 :: u8)"
  by (simp_all add: strlen_def strlen_loop.simps fun_eq_iff)

lemma say_nothing: "mem (mm s) = (\<lambda>_. 0) \<Longrightarrow> \<exists>c. say e i s = Some (s\<lparr>cons := c\<rparr>)"
  by (simp add: say_def puts_def zero_text Let_def split_def) (rule exI, rule refl)

lemma say_format_nothing:
  assumes "mem (mm s) = (\<lambda>_. 0)"
  shows "\<exists>c. say_format e i args s = Some (s\<lparr>cons := c\<rparr>)"
proof -
  have m: "(mm s)\<lparr>mem := \<lambda>_. 0\<rparr> = mm s" using assms by simp
  show ?thesis
    by (simp add: say_format_def printf_def vprintf_def vsprintf_def assms strchr.simps char_int_def format_loop_stop
        zero_text memcpy_def memcpy_loop.simps Let_def split_def m)
      (rule exI, rule refl)
qed

lemma demo_ahci: "mm s = demo_ahci_bus \<Longrightarrow> \<exists>s'. init_ahci demo_start_env s = Some s' \<and> mm s' = demo_ahci_bus"
  using get_pci_device_rep [of demo_ahci_bus 1 "[0x9000, 0x9100]" 0 6] demo_ahci_bus_fields
    say_format_nothing [of "s\<lparr>ahci_device := Elem 0x9100\<rparr>" demo_start_env 15 "[0]"]
  by (auto simp: init_ahci_def PCI_DCLASS_MASS_def SERIAL_ATA_def AHCI_def device_at_def demo_start_env_def zero_device_def
      on_sched_def Let_def)

theorem init_ahci_takes_first_controller_witness:
  "\<exists>s'. init_ahci demo_start_env (demo_start\<lparr>mm := demo_ahci_bus\<rparr>) = Some s' \<and> ahci_device s' = Elem 0x9100"
proof -
  obtain s' where s': "init_ahci demo_start_env (demo_start\<lparr>mm := demo_ahci_bus\<rparr>) = Some s'"
    using demo_ahci [of "demo_start\<lparr>mm := demo_ahci_bus\<rparr>"] by auto
  have "ahci_device s' = Elem 0x9100"
    using init_ahci_takes_first_controller [of "demo_start\<lparr>mm := demo_ahci_bus\<rparr>" "[0x9000, 0x9100]" demo_start_env s'] s'
      demo_ahci_bus_fields(2,3)
    by (simp add: PCI_DCLASS_MASS_def SERIAL_ATA_def)
  then show ?thesis using s' by simp
qed

lemma pci_alloc_kmalloc:
  assumes "kmalloc j (n * sz) (heap.truncate (vm.truncate s)) = Some (b, h)"
  obtains s' where "pci_alloc j n sz s = Some (b, s')" "heap.truncate (vm.truncate s') = h"
  using assms by (simp add: pci_alloc_def vm_alloc_def kcalloc_def vm.defs heap.defs)

lemma demo_scheduler:
  "\<exists>s1. start_scheduler demo_start_env demo_start = Some s1" "heap_inv {} (heap.truncate (vm.truncate (mm demo_start))) no_blocks"
proof -
  let ?h = "(init_heap demo_heap)\<lparr>mem := (\<lambda>_. 0)\<rparr>" and ?j = "0x5000 :: u64"
  have h: "heap.truncate (vm.truncate (mm demo_start)) = ?h"
    by (simp add: demo_start_def vm.defs heap.defs init_heap_def demo_heap_def)
  have pool: "kernel_pool ?h = demo_pool" by (simp add: init_heap_def demo_heap_def)
  have inv: "heap_inv {} ?h no_blocks" using demo_heap_inv by (simp add: heap_inv_mem)
  then show "heap_inv {} (heap.truncate (vm.truncate (mm demo_start))) no_blocks" by (simp add: h)
  obtain b g f where b: "kmalloc ?j 312 ?h = Some (b, g)" "heap_inv {b} g f" "b \<noteq> 0"
    using kmalloc_fresh [OF inv, of 312 ?j] demo_heap_page [OF pool] by auto
  obtain i g' where i: "kmalloc ?j 4408 g = Some (i, g')" "i \<noteq> 0"
    using kmalloc_fresh [OF b(2), of 4408 ?j] second_page [OF pool b(1)] by auto
  obtain p where p: "pci_alloc ?j 1 THREAD_SIZE (mm demo_start) = Some (b, p)" "heap.truncate (vm.truncate p) = g"
    using b(1) h pci_alloc_kmalloc [of ?j 1 THREAD_SIZE "mm demo_start" b g] by (auto simp: THREAD_SIZE_def)
  obtain q where q: "pci_alloc ?j 1 (THREAD_SIZE + KTHREAD_STACK_SIZE) p = Some (i, q)"
    using i(1) p(2) pci_alloc_kmalloc [of ?j 1 "THREAD_SIZE + KTHREAD_STACK_SIZE" p i g']
    by (auto simp: THREAD_SIZE_def KTHREAD_STACK_SIZE_def)
  have "\<exists>k'. init_threads b i fi k = Some k'" for fi k
    by (simp add: init_threads_def create_thread_def thread_init_def upd_thread_def assign_id_def semaphore_init_def
        thread_unblock_def disable_interrupts_def set_interrupt_level_def Let_def)
  then obtain k' where "init_threads b i (idle_function demo_start_env) (machine.kern (mach demo_start)) = Some k'" by blast
  moreover have "junk (bus_env demo_start_env) = ?j" by (simp add: demo_start_env_def demo_env_def)
  ultimately show "\<exists>s1. start_scheduler demo_start_env demo_start = Some s1"
    using p(1) q b(3) i(2) by (simp add: start_scheduler_def on_sched_def)
qed

theorem kernel_ends_in_idle_thread_witness:
  "\<exists>s1 s'. start_scheduler demo_start_env demo_start = Some s1 \<and>
    finish_start demo_start_env (s1\<lparr>cons := demo_console, mm := demo_ahci_bus, calls := no_syscalls\<rparr>) = Some s' \<and>
    running_thread (machine.kern (mach s')) = idle_thread (machine.kern (mach s1)) \<and>
    status (threads (machine.kern (mach s')) (running_thread (machine.kern (mach s1)))) = THRSTAT_DEAD"
proof -
  obtain s1 where s1: "start_scheduler demo_start_env demo_start = Some s1" using demo_scheduler(1) by blast
  let ?s = "s1\<lparr>cons := demo_console, mm := demo_ahci_bus, calls := no_syscalls\<rparr>"
  obtain s2 where s2: "init_ahci demo_start_env ?s = Some s2" "mm s2 = demo_ahci_bus" using demo_ahci [of ?s] by auto
  obtain c where c: "say demo_start_env 16 s2 = Some (s2\<lparr>cons := c\<rparr>)"
    using say_nothing [of s2] s2(2) demo_ahci_bus_fields(1) by auto
  have "list_rep (lists (machine.kern (mach s1))) Ready []"
    using start_scheduler_shape [OF demo_scheduler(2) s1] by blast
  then have "list_rep (lists (machine.kern (mach s2))) Ready []"
    using init_ahci_sched [OF s2(1)] by (simp add: lock_init_def semaphore_init_def list_init_other)
  then have "list_empty (lists (machine.kern (mach s2))) Ready" by (simp add: list_rep_empty)
  then obtain k where "exit_thread (machine.kern (mach s2)) = Some k"
    by (simp add: exit_thread_def schedule_next_def next_thread_def disable_interrupts_def upd_thread_def Let_def)
  then obtain s' where s': "finish_start demo_start_env ?s = Some s'" using s2(1) c by (simp add: finish_start_def on_sched_def)
  show ?thesis using kernel_ends_in_idle_thread [OF demo_scheduler(2) s1 s'] s1 s' by (auto simp: Let_def)
qed

end
