(* ===== verification/Userlib.thy ===== *)
theory Userlib
  imports Syscall
begin

unbundle bit_operations_syntax

section \<open>The user library (usr/)\<close>

text \<open>
  Model of \<^verbatim>\<open>kern/lib/usr\<close>: the system call stubs of \<^verbatim>\<open>syscall.c\<close>, the locks of \<^verbatim>\<open>synch.c\<close>, the heap
  of \<^verbatim>\<open>mem.c\<close>, the streams of \<^verbatim>\<open>fdbuf.c\<close> and \<^verbatim>\<open>stdio.c\<close>, and the start of a program.  The state is
  that of the kernel with the objects of the running program: its locks and streams are typed and
  named by their addresses, its bytes are those of the memory that the kernel sees.  A stub executes
  \<^verbatim>\<open>syscall\<close>, which is \<open>syscall_handler\<close> on the table of the kernel; registers it does not set are
  \<open>unset\<close>.  The processor keeps the address behind the instruction (\<open>resume\<close>) and the flags in \<^verbatim>\<open>rcx\<close>
  and \<^verbatim>\<open>r11\<close>; the call comes back to the stub when the kernel's function has left \<^verbatim>\<open>rcx\<close> as it was, and is
  \<open>None\<close> when it has not.  The mode in which \<^verbatim>\<open>sysret\<close> goes on is not modelled.

  The allocator \<^verbatim>\<open>heap_block_get\<close> has an empty body: its callers find the value \<open>unset\<close>, which is
  also what unset variables hold.  \<^verbatim>\<open>vsnprintf\<close> and the \<^verbatim>\<open>eof\<close> of the user library are declared
  only: they are arguments of the functions that call them.
\<close>

subsection \<open>State\<close>

record user_lock =
  usema :: u32
  uholder :: u32

record fdbuf =
  buf_fd :: u32
  buf_error :: u32
  rd :: bool
  wr :: bool
  rdpos :: u64
  wrpos :: u64
  maxrd :: size_t
  maxwr :: size_t
  rdcache :: u64
  wrcache :: u64

record usys = sys +
  calls :: syscalls
  fork_label :: u64
  scratch :: "syscall_function \<Rightarrow> u64 \<times> u64 \<Rightarrow> u64 \<times> u64"
  resume :: "syscall_number \<Rightarrow> u64"
  user_flags :: u64
  locks :: "u64 \<Rightarrow> user_lock"
  streams :: "u64 \<Rightarrow> fdbuf"
  udescriptors :: "nat \<Rightarrow> heap_desc"
  udesc_base :: u64
  ufree_lists :: "(nat, u64) lheap"
  stdin_obj :: u64
  stdout_obj :: u64
  stderr_obj :: u64
  std_in :: u64
  std_out :: u64
  std_err :: u64
  char_var :: u64

definition nothing :: "usys \<Rightarrow> u64" where
  "nothing s = unset (fs_of s)"

definition upd_stream :: "u64 \<Rightarrow> (fdbuf \<Rightarrow> fdbuf) \<Rightarrow> usys \<Rightarrow> usys" where
  "upd_stream f g s = s\<lparr>streams := (streams s)(f := g (streams s f))\<rparr>"

subsection \<open>System calls (syscall.c)\<close>

definition enter_kernel :: "syscall_number \<Rightarrow> u64 \<Rightarrow> u64 \<Rightarrow> u64 \<Rightarrow> usys \<Rightarrow> (u64 \<times> usys) option" where
  "enter_kernel n a b c s = do {
     (v, (rcx, r11), s') \<leftarrow>
       syscall_handler (fork_label s) (scratch s) (calls s) (syscall_code n) (resume s n, user_flags s) a b c s;
     if rcx = resume s n then Some (v, s'\<lparr>user_flags := r11\<rparr>) else None }"

definition syscall3 :: "syscall_number \<Rightarrow> u64 \<Rightarrow> u64 \<Rightarrow> u64 \<Rightarrow> usys \<Rightarrow> (u64 \<times> usys) option" where
  "syscall3 n a b c s = enter_kernel n a b c s"

definition syscall2 :: "syscall_number \<Rightarrow> u64 \<Rightarrow> u64 \<Rightarrow> usys \<Rightarrow> (u64 \<times> usys) option" where
  "syscall2 n a b s = enter_kernel n a b (nothing s) s"

definition syscall1 :: "syscall_number \<Rightarrow> u64 \<Rightarrow> usys \<Rightarrow> (u64 \<times> usys) option" where
  "syscall1 n a s = enter_kernel n a (nothing s) (nothing s) s"

definition syscall0 :: "syscall_number \<Rightarrow> usys \<Rightarrow> (u64 \<times> usys) option" where
  "syscall0 n s = enter_kernel n (nothing s) (nothing s) (nothing s) s"

text \<open>The result read as an \<^verbatim>\<open>int\<close>, as a \<^verbatim>\<open>bool\<close> or not at all.\<close>

definition as_int :: "(u64 \<times> usys) option \<Rightarrow> (u32 \<times> usys) option" where
  "as_int r = map_option (\<lambda>(v, s). (ucast v, s)) r"

definition as_bool :: "(u64 \<times> usys) option \<Rightarrow> (bool \<times> usys) option" where
  "as_bool r = map_option (\<lambda>(v, s). ((ucast v :: u8) \<noteq> 0, s)) r"

definition as_void :: "(u64 \<times> usys) option \<Rightarrow> usys option" where
  "as_void r = map_option snd r"

definition usr_fork :: "usys \<Rightarrow> (u32 \<times> usys) option" where
  "usr_fork s = as_int (syscall0 SYS_FORK s)"

definition usr_getpid :: "usys \<Rightarrow> (u32 \<times> usys) option" where
  "usr_getpid s = as_int (syscall0 SYS_GETPID s)"

definition usr_exec :: "u64 \<Rightarrow> u64 \<Rightarrow> usys \<Rightarrow> (u32 \<times> usys) option" where
  "usr_exec file argv s = as_int (syscall2 SYS_EXEC file argv s)"

definition usr_exit :: "u32 \<Rightarrow> usys \<Rightarrow> usys option" where
  "usr_exit st s = as_void (syscall1 SYS_EXIT (ucast st) s)"

definition usr_wait :: "u32 \<Rightarrow> usys \<Rightarrow> (u32 \<times> usys) option" where
  "usr_wait p s = as_int (syscall1 SYS_WAIT (ucast p) s)"

definition usr_create :: "u64 \<Rightarrow> u32 \<Rightarrow> usys \<Rightarrow> (bool \<times> usys) option" where
  "usr_create file m s = as_bool (syscall2 SYS_CREATE file (ucast m) s)"

definition usr_remove :: "u64 \<Rightarrow> usys \<Rightarrow> (bool \<times> usys) option" where
  "usr_remove file s = as_bool (syscall1 SYS_REMOVE file s)"

definition usr_chmod :: "u64 \<Rightarrow> u32 \<Rightarrow> usys \<Rightarrow> (bool \<times> usys) option" where
  "usr_chmod file m s = as_bool (syscall2 SYS_CHMOD file (ucast m) s)"

definition usr_open :: "u64 \<Rightarrow> u32 \<Rightarrow> usys \<Rightarrow> (u32 \<times> usys) option" where
  "usr_open file flags s = as_int (syscall2 SYS_OPEN file (ucast flags) s)"

definition usr_close :: "u32 \<Rightarrow> usys \<Rightarrow> usys option" where
  "usr_close fd s = as_void (syscall1 SYS_CLOSE (ucast fd) s)"

definition usr_chmodfd :: "u32 \<Rightarrow> u32 \<Rightarrow> usys \<Rightarrow> (bool \<times> usys) option" where
  "usr_chmodfd fd m s = as_bool (syscall2 SYS_CHMODFD (ucast fd) (ucast m) s)"

text \<open>The stub of \<^verbatim>\<open>write\<close> passes the number of \<^verbatim>\<open>open\<close>.\<close>

definition usr_write :: "u32 \<Rightarrow> u64 \<Rightarrow> size_t \<Rightarrow> usys \<Rightarrow> (u64 \<times> usys) option" where
  "usr_write fd src n s = syscall3 SYS_OPEN (ucast fd) src n s"

definition usr_read :: "u32 \<Rightarrow> u64 \<Rightarrow> size_t \<Rightarrow> usys \<Rightarrow> (u64 \<times> usys) option" where
  "usr_read fd dest n s = syscall3 SYS_READ (ucast fd) dest n s"

definition usr_sleep :: "u64 \<Rightarrow> usys \<Rightarrow> usys option" where
  "usr_sleep ms s = as_void (syscall1 SYS_SLEEP ms s)"

definition usr_sleepts :: "u64 \<Rightarrow> usys \<Rightarrow> usys option" where
  "usr_sleepts ts s = as_void (syscall1 SYS_SLEEPTS ts s)"

definition growdata :: "size_t \<Rightarrow> usys \<Rightarrow> (u64 \<times> usys) option" where
  "growdata newsz s = syscall1 SYS_GROWDATA newsz s"

definition usr_sget :: "u64 \<Rightarrow> usys \<Rightarrow> (u32 \<times> usys) option" where
  "usr_sget val s = as_int (syscall1 SYS_SGET val s)"

definition usr_sunget :: "u32 \<Rightarrow> usys \<Rightarrow> usys option" where
  "usr_sunget sema s = as_void (syscall1 SYS_SUNGET (ucast sema) s)"

definition usr_sinc :: "u32 \<Rightarrow> usys \<Rightarrow> usys option" where
  "usr_sinc sema s = as_void (syscall1 SYS_SINC (ucast sema) s)"

definition usr_sdec :: "u32 \<Rightarrow> usys \<Rightarrow> usys option" where
  "usr_sdec sema s = as_void (syscall1 SYS_SDEC (ucast sema) s)"

subsection \<open>Locks (synch.c)\<close>

definition usr_lock_init :: "u64 \<Rightarrow> usys \<Rightarrow> usys option" where
  "usr_lock_init l s = do {
     let s = s\<lparr>locks := (locks s)(l := (locks s l)\<lparr>uholder := - 1\<rparr>)\<rparr>;
     (i, s) \<leftarrow> usr_sget 1 s;
     Some (s\<lparr>locks := (locks s)(l := (locks s l)\<lparr>usema := i\<rparr>)\<rparr>) }"

definition usr_lock_acquire :: "u64 \<Rightarrow> usys \<Rightarrow> usys option" where
  "usr_lock_acquire l s = do {
     s \<leftarrow> usr_sdec (usema (locks s l)) s;
     (p, s) \<leftarrow> usr_getpid s;
     Some (s\<lparr>locks := (locks s)(l := (locks s l)\<lparr>uholder := p\<rparr>)\<rparr>) }"

definition usr_lock_release :: "u64 \<Rightarrow> usys \<Rightarrow> usys option" where
  "usr_lock_release l s = do {
     let s = s\<lparr>locks := (locks s)(l := (locks s l)\<lparr>uholder := - 1\<rparr>)\<rparr>;
     usr_sinc (usema (locks s l)) s }"

subsection \<open>Heap (mem.c)\<close>

definition MINDESCALLOC :: nat where "MINDESCALLOC = 3"
definition MAXDESCALLOC :: nat where "MAXDESCALLOC = 17"
definition DESCNT :: nat where "DESCNT = MAXDESCALLOC - MINDESCALLOC"
definition WHINER_SIZE :: size_t where "WHINER_SIZE = 32"

definition heap_block_get :: "size_t \<Rightarrow> bool \<Rightarrow> usys \<Rightarrow> u64" where
  "heap_block_get sz zero s = nothing s"

definition heap_block_free :: "u64 \<Rightarrow> usys \<Rightarrow> usys" where
  "heap_block_free p s = s"

definition malloc :: "size_t \<Rightarrow> usys \<Rightarrow> u64" where
  "malloc sz s = heap_block_get sz False s"

definition calloc :: "size_t \<Rightarrow> size_t \<Rightarrow> usys \<Rightarrow> u64" where
  "calloc n sz s = heap_block_get (n * sz) True s"

definition free :: "u64 \<Rightarrow> usys \<Rightarrow> usys" where
  "free p s = heap_block_free p s"

definition user_desc :: "nat \<Rightarrow> heap_desc" where
  "user_desc i =
     (let arenasz = (4 * PAGESIZE) div of_nat DESCNT; bs = push_bit i 8
      in \<lparr>block_size = bs, arena_size = (arenasz - WHINER_SIZE) div bs\<rparr>)"

text \<open>The lock of a descriptor is 56 bytes behind its start.\<close>

definition udesc_lock :: "usys \<Rightarrow> nat \<Rightarrow> u64" where
  "udesc_lock s i = udesc_base s + of_nat i * 64 + 56"

definition init_user_desc :: "nat \<Rightarrow> usys \<Rightarrow> usys option" where
  "init_user_desc i s = do {
     let s = s\<lparr>udescriptors := (udescriptors s)(i := user_desc i)\<rparr>;
     s \<leftarrow> usr_lock_init (udesc_lock s i) s;
     Some (s\<lparr>ufree_lists := list_init (ufree_lists s) i\<rparr>) }"

definition init_userheap :: "usys \<Rightarrow> usys option" where
  "init_userheap s = ofold init_user_desc [0..<DESCNT] s"

subsection \<open>Streams (fdbuf.c)\<close>

definition CACHSZ :: size_t where "CACHSZ = 0x100"
definition FDBUF_SIZE :: size_t where "FDBUF_SIZE = 64"
definition OPEN_RD :: u32 where "OPEN_RD = 1"
definition OPEN_WR :: u32 where "OPEN_WR = 2"
definition OPEN_RW :: u32 where "OPEN_RW = OPEN_RD OR OPEN_WR"
definition EOF_VALUE :: u32 where "EOF_VALUE = - 1"

definition init_stdfile :: "u64 \<Rightarrow> u32 \<Rightarrow> bool \<Rightarrow> bool \<Rightarrow> usys \<Rightarrow> usys" where
  "init_stdfile stream fd w r s =
     (let s = upd_stream stream (\<lambda>f. f\<lparr>buf_fd := fd, wr := w, rd := r\<rparr>) s;
          s = (if r then upd_stream stream (\<lambda>f. f\<lparr>rdcache := calloc CACHSZ 1 s\<rparr>) s else s)
      in if w then upd_stream stream (\<lambda>f. f\<lparr>wrcache := calloc CACHSZ 1 s\<rparr>) s else s)"

definition init_stdio :: "usys \<Rightarrow> usys" where
  "init_stdio s =
     (let s = s\<lparr>std_in := stdin_obj s, std_out := stdout_obj s, std_err := stderr_obj s\<rparr>;
          s = init_stdfile (std_in s) 0 False True s;
          s = init_stdfile (std_out s) 1 True False s
      in init_stdfile (std_err s) 2 True False s)"

text \<open>The characters w, r and a; any other leaves the flags unset.  No descriptor is opened.\<close>

definition fopen_flags :: "u8 \<Rightarrow> u8 \<Rightarrow> usys \<Rightarrow> u32" where
  "fopen_flags c d s =
     (if d \<noteq> 0 then OPEN_RW
      else if c = 119 then OPEN_WR else if c = 114 then OPEN_RD else if c = 97 then OPEN_WR else ucast (nothing s))"

definition fopen :: "u64 \<Rightarrow> u64 \<Rightarrow> usys \<Rightarrow> (u64 \<times> usys) option" where
  "fopen path_ptr modes s =
     (let flags = fopen_flags (sys_mem s modes) (sys_mem s (modes + 1)) s;
          r = (flags AND OPEN_RD \<noteq> 0);
          w = (flags AND OPEN_WR \<noteq> 0);
          allocsz = FDBUF_SIZE + (if r then CACHSZ else 0) + (if w then CACHSZ else 0);
          stream = calloc 1 allocsz s
      in if stream = 0 then None
         else Some (stream, upd_stream stream (\<lambda>f. f\<lparr>rd := r, wr := w, rdpos := 0, wrpos := 0, maxrd := 0, maxwr := 0,
           buf_error := 0, rdcache := (if r then stream + FDBUF_SIZE else 0),
           wrcache := (if w then (if r then stream + FDBUF_SIZE + CACHSZ else stream + FDBUF_SIZE) else 0)\<rparr>) s))"

text \<open>Both bodies are empty.\<close>

definition flockfile :: "u64 \<Rightarrow> usys \<Rightarrow> usys" where "flockfile f s = s"
definition funlockfile :: "u64 \<Rightarrow> usys \<Rightarrow> usys" where "funlockfile f s = s"

definition fflush :: "u64 \<Rightarrow> usys \<Rightarrow> usys option" where
  "fflush f s = do {
     let s = flockfile f s;
     s \<leftarrow> (if sint (wrpos (streams s f)) > 0
        then do {
          (_, s) \<leftarrow> usr_write (buf_fd (streams s f)) (wrcache (streams s f)) (wrpos (streams s f)) s;
          Some (upd_stream f (\<lambda>b. b\<lparr>wrpos := 0\<rparr>) s) }
        else Some s);
     Some (funlockfile f s) }"

definition fclose :: "u64 \<Rightarrow> usys \<Rightarrow> usys option" where
  "fclose f s = do {
     s \<leftarrow> fflush f s;
     s \<leftarrow> usr_close (buf_fd (streams s f)) s;
     let s = free (rdcache (streams s f)) s;
     Some (free f s) }"

definition copy_bytes :: "u64 \<Rightarrow> u64 \<Rightarrow> size_t \<Rightarrow> usys \<Rightarrow> usys" where
  "copy_bytes dest src n s = set_mem (fst (memcpy (sys_mem s) dest src n)) s"

definition fread :: "u64 \<Rightarrow> size_t \<Rightarrow> size_t \<Rightarrow> u64 \<Rightarrow> usys \<Rightarrow> (size_t \<times> usys) option" where
  "fread p sz nmemb f s =
     (if rd (streams s f)
      then do {
        let rdsz = sz * nmemb;
        let s = flockfile f s;
        (n, s) \<leftarrow> (if rdsz < maxrd (streams s f)
           then do {
             s \<leftarrow> (if rdpos (streams s f) + rdsz \<ge> maxrd (streams s f)
                then do {
                  (n, s) \<leftarrow> usr_read (buf_fd (streams s f)) (rdcache (streams s f)) CACHSZ s;
                  Some (upd_stream f (\<lambda>b. b\<lparr>maxrd := n, rdpos := 0\<rparr>) s) }
                else Some s);
             Some (rdsz, copy_bytes p (rdcache (streams s f)) rdsz s) }
           else do {
             let s = copy_bytes p (rdcache (streams s f)) (maxrd (streams s f)) s;
             let nread = maxrd (streams s f);
             let rest = rdsz - maxrd (streams s f);
             (nread, s) \<leftarrow> (if rest > 0
                then do { (k, s) \<leftarrow> usr_read (buf_fd (streams s f)) p rest s; Some (nread + k, s) }
                else Some (nread, s));
             Some (nread, upd_stream f (\<lambda>b. b\<lparr>maxrd := 0, rdpos := 0\<rparr>) s) });
        Some (n, funlockfile f s) }
      else Some (0, s))"

definition fwrite :: "u64 \<Rightarrow> size_t \<Rightarrow> size_t \<Rightarrow> u64 \<Rightarrow> usys \<Rightarrow> (size_t \<times> usys) option" where
  "fwrite p sz nmemb f s =
     (if wr (streams s f)
      then do {
        let wrsz = sz * nmemb;
        let s = flockfile f s;
        (n, s) \<leftarrow> (if wrsz < maxwr (streams s f)
           then do {
             s \<leftarrow> (if wrpos (streams s f) + wrsz \<ge> CACHSZ then fflush f s else Some s);
             let s = copy_bytes (wrcache (streams s f)) p wrsz s;
             Some (0, upd_stream f (\<lambda>b. b\<lparr>wrpos := wrpos b + wrsz\<rparr>) s) }
           else do {
             s \<leftarrow> fflush f s;
             usr_write (buf_fd (streams s f)) p wrsz s });
        Some (n, funlockfile f s) }
      else Some (0, s))"

definition feof :: "(u32 \<Rightarrow> usys \<Rightarrow> (bool \<times> usys) option) \<Rightarrow> u64 \<Rightarrow> usys \<Rightarrow> (u32 \<times> usys) option" where
  "feof eof_fn f s = do {
     let s = flockfile f s;
     (e, s) \<leftarrow> eof_fn (buf_fd (streams s f)) s;
     Some (of_bool e, funlockfile f s) }"

definition ferror :: "u64 \<Rightarrow> usys \<Rightarrow> u32 \<times> usys" where
  "ferror f s = (let s = flockfile f s; e = buf_error (streams s f) in (e, funlockfile f s))"

definition fileno :: "u64 \<Rightarrow> usys \<Rightarrow> u32" where
  "fileno f s = buf_fd (streams s f)"

subsection \<open>Formatted output\<close>

type_synonym vsnprintf_fn = "u64 \<Rightarrow> size_t \<Rightarrow> u64 \<Rightarrow> u64 list \<Rightarrow> usys \<Rightarrow> (u32 \<times> usys) option"

text \<open>The number of arguments, the buffer and the size.\<close>

definition dupformat :: "vsnprintf_fn \<Rightarrow> u64 \<Rightarrow> u64 list \<Rightarrow> usys \<Rightarrow> (u32 \<times> u64 \<times> size_t \<times> usys) option" where
  "dupformat vsn format argv s = do {
     (n, s) \<leftarrow> vsn 0 0 format argv s;
     let allocsz = scast n;
     let bfr = calloc allocsz 1 s;
     (k, s) \<leftarrow> vsn bfr allocsz format argv s;
     Some (k, bfr, allocsz, s) }"

definition vdprintf :: "vsnprintf_fn \<Rightarrow> u32 \<Rightarrow> u64 \<Rightarrow> u64 list \<Rightarrow> usys \<Rightarrow> (u32 \<times> usys) option" where
  "vdprintf vsn fd format argv s = do {
     (argc, bfr, n, s) \<leftarrow> dupformat vsn format argv s;
     (_, s) \<leftarrow> usr_write fd bfr n s;
     Some (argc, free bfr s) }"

definition dprintf :: "vsnprintf_fn \<Rightarrow> u32 \<Rightarrow> u64 \<Rightarrow> u64 list \<Rightarrow> usys \<Rightarrow> (u32 \<times> usys) option" where
  "dprintf vsn fd format argv s = vdprintf vsn fd format argv s"

definition vfprintf :: "vsnprintf_fn \<Rightarrow> u64 \<Rightarrow> u64 \<Rightarrow> u64 list \<Rightarrow> usys \<Rightarrow> (u32 \<times> usys) option" where
  "vfprintf vsn f format argv s =
     (if wr (streams s f)
      then do {
        (argc, bfr, n, s) \<leftarrow> dupformat vsn format argv s;
        (_, s) \<leftarrow> fwrite bfr 1 n f s;
        Some (argc, free bfr s) }
      else Some (0, s))"

definition fprintf :: "vsnprintf_fn \<Rightarrow> u64 \<Rightarrow> u64 \<Rightarrow> u64 list \<Rightarrow> usys \<Rightarrow> (u32 \<times> usys) option" where
  "fprintf vsn f format argv s = vfprintf vsn f format argv s"

definition fputc :: "u32 \<Rightarrow> u64 \<Rightarrow> usys \<Rightarrow> (u32 \<times> usys) option" where
  "fputc c f s = do {
     let s = set_mem ((sys_mem s)(char_var s := ucast c)) s;
     (_, s) \<leftarrow> fwrite (char_var s) 1 1 f s;
     let (e, s) = ferror f s;
     Some (if e \<noteq> 0 then EOF_VALUE else c, s) }"

text \<open>The bodies of the scanners are empty.\<close>

definition vfscanf :: "u64 \<Rightarrow> u64 \<Rightarrow> u64 list \<Rightarrow> usys \<Rightarrow> u32" where
  "vfscanf f format argv s = ucast (nothing s)"

definition fscanf :: "u64 \<Rightarrow> u64 \<Rightarrow> u64 list \<Rightarrow> usys \<Rightarrow> u32" where
  "fscanf f format argv s = ucast (nothing s)"

definition usr_vprintf :: "vsnprintf_fn \<Rightarrow> u64 \<Rightarrow> u64 list \<Rightarrow> usys \<Rightarrow> (u32 \<times> usys) option" where
  "usr_vprintf vsn format argv s = vfprintf vsn (std_out s) format argv s"

definition vscanf :: "u64 \<Rightarrow> u64 list \<Rightarrow> usys \<Rightarrow> u32" where
  "vscanf format argv s = vfscanf (std_in s) format argv s"

definition scanf :: "u64 \<Rightarrow> u64 list \<Rightarrow> usys \<Rightarrow> u32" where
  "scanf format argv s = vscanf format argv s"

subsection \<open>Start of a program (init.c, prog.c)\<close>

definition initusr :: "usys \<Rightarrow> usys option" where
  "initusr s = init_userheap s"

definition start_program ::
  "(u32 \<Rightarrow> u64 \<Rightarrow> usys \<Rightarrow> (u32 \<times> usys) option) \<Rightarrow> u32 \<Rightarrow> u64 \<Rightarrow> usys \<Rightarrow> usys option" where
  "start_program main argc argv s = do {
     s \<leftarrow> initusr s;
     (st, s) \<leftarrow> main argc argv s;
     usr_exit st s }"

subsection \<open>Streams\<close>

lemma memcpy_nothing: "fst (memcpy m d p 0) = m"
  by (simp add: memcpy_def memcpy_loop.simps [of m d p 0])

lemma set_mem_same: "set_mem (sys_mem s) s = s"
  by (simp add: set_mem_def sys_mem_def set_fs_def fs_of_def set_files_def)

text \<open>Reading from a stream that was just set up takes all the bytes from the descriptor, and leaves
  the stream so that the next read does the same: nothing is ever buffered.\<close>

theorem fread_never_buffers:
  assumes "rd (streams s f)" "maxrd (streams s f) = 0" "sz * nmemb \<noteq> 0"
  shows "fread p sz nmemb f s = map_option (\<lambda>(n, s'). (n, upd_stream f (\<lambda>b. b\<lparr>maxrd := 0, rdpos := 0\<rparr>) s'))
    (usr_read (buf_fd (streams s f)) p (sz * nmemb) s)"
proof -
  have c: "copy_bytes p (rdcache (streams s f)) 0 s = s"
    by (simp add: copy_bytes_def memcpy_nothing set_mem_same)
  show ?thesis
    using assms
    by (cases "usr_read (buf_fd (streams s f)) p (sz * nmemb) s")
      (auto simp: fread_def flockfile_def funlockfile_def c word_gt_0)
qed

text \<open>Writing to a stream that was just set up never uses its buffer either.\<close>

theorem fwrite_never_buffers:
  assumes "wr (streams s f)" "maxwr (streams s f) = 0" "wrpos (streams s f) = 0"
  shows "fwrite p sz nmemb f s = usr_write (buf_fd (streams s f)) p (sz * nmemb) s"
  using assms by (simp add: fwrite_def flockfile_def funlockfile_def fflush_def)

subsection \<open>Size classes of the user heap\<close>

text \<open>The blocks of a class are powers of two from eight on, and an arena has as many as fit into its
  share of four pages behind the header.\<close>

theorem user_arenas_filled:
  assumes "i < DESCNT"
  shows "block_size (user_desc i) = 2 ^ (i + 3) \<and> 0 < arena_size (user_desc i) \<and>
    WHINER_SIZE + arena_size (user_desc i) * block_size (user_desc i) \<le> 4 * PAGESIZE div of_nat DESCNT \<and>
    4 * PAGESIZE div of_nat DESCNT < WHINER_SIZE + (arena_size (user_desc i) + 1) * block_size (user_desc i)"
proof -
  have "i \<in> {0, 1, 2, 3, 4, 5, 6, 7, 8, 9, 10, 11, 12, 13}"
    using assms unfolding DESCNT_def MAXDESCALLOC_def MINDESCALLOC_def by simp presburger
  then show ?thesis
    by (auto simp: user_desc_def DESCNT_def MAXDESCALLOC_def MINDESCALLOC_def PAGESIZE_def WHINER_SIZE_def Let_def)
qed

end
