(* ===== verification/Ahci.thy ===== *)
theory Ahci
  imports Prelude
begin

section \<open>Frames of the disk controller (io/ahci.c)\<close>

text \<open>
  The packed structures of \<^verbatim>\<open>kern/lib/io/ahci.c\<close> that describe the frames a controller exchanges with a
  disk.  A layout lists the members in their order with their widths in bits; in a packed structure a
  member, a bit field as well, starts where the one before it ends.  The code that starts the
  driver is in \<^verbatim>\<open>Boot\<close>; the functions that would transfer frames have empty bodies.
\<close>

type_synonym layout = "(string \<times> nat) list"

definition byte_member :: "string \<Rightarrow> string \<times> nat" where
  "byte_member n = (n, 8)"

definition fis_reg_h2d :: layout where
  "fis_reg_h2d =
     [byte_member ''fis_type'', (''pmport'', 4), (''rsv0'', 3), (''c'', 1), byte_member ''command'', byte_member ''featurel'',
      byte_member ''lba0'', byte_member ''lba1'', byte_member ''lba2'', byte_member ''device'',
      byte_member ''lba3'', byte_member ''lba4'', byte_member ''lba5'', byte_member ''featureh'',
      byte_member ''countl'', byte_member ''counth'', byte_member ''icc'', byte_member ''control'',
      (''rsv1'', 4 * 8)]"

definition fis_reg_d2h :: layout where
  "fis_reg_d2h =
     [byte_member ''fis_type'', (''pmport'', 4), (''rsv0'', 2), (''i'', 1), (''rsv1'', 1), byte_member ''status'', byte_member ''error'',
      byte_member ''lba0'', byte_member ''lba1'', byte_member ''lba2'', byte_member ''device'',
      byte_member ''lba3'', byte_member ''lba4'', byte_member ''lba5'', byte_member ''rsv2'',
      byte_member ''countl'', byte_member ''counth'', (''rsv3'', 2 * 8),
      (''rsv4'', 4 * 8)]"

definition fis_data :: layout where
  "fis_data =
     [byte_member ''fis_type'', (''pmport'', 4), (''rsv0'', 4), (''rsv1'', 2 * 8),
      (''data'', 32)]"

definition fis_pio_setup :: layout where
  "fis_pio_setup =
     [byte_member ''fis_type'', (''pmport'', 4), (''rsv0'', 1), (''d'', 1), (''i'', 1), (''rsv1'', 1), byte_member ''status'', byte_member ''error'',
      byte_member ''lba0'', byte_member ''lba1'', byte_member ''lba2'', byte_member ''device'',
      byte_member ''lba3'', byte_member ''lba4'', byte_member ''lba5'', byte_member ''rsv2'',
      byte_member ''countl'', byte_member ''counth'', byte_member ''rsv3'', byte_member ''e_status'',
      (''tc'', 16), (''rsv4'', 2 * 8)]"

definition fis_dma_setup :: layout where
  "fis_dma_setup =
     [byte_member ''fis_type'', (''pmport'', 4), (''rsv0'', 1), (''d'', 1), (''i'', 1), (''a'', 1), (''rsved'', 2 * 8),
      (''dmabufid'', 64),
      (''rsvd'', 32),
      (''dmabufofs'', 32),
      (''transfercount'', 32),
      (''resvd'', 32)]"

subsection \<open>Types of frames\<close>

datatype fis_type = FIS_TYPE_REG_H2D | FIS_TYPE_REG_D2H | FIS_TYPE_DMA_ACT | FIS_TYPE_DMA_SETUP | FIS_TYPE_DATA | FIS_TYPE_BIST | FIS_TYPE_PIO_SETUP | FIS_TYPE_DEV_BITS

fun fis_code :: "fis_type \<Rightarrow> nat" where
  "fis_code FIS_TYPE_REG_H2D = 0x27"
| "fis_code FIS_TYPE_REG_D2H = 0x34"
| "fis_code FIS_TYPE_DMA_ACT = 0x39"
| "fis_code FIS_TYPE_DMA_SETUP = 0x41"
| "fis_code FIS_TYPE_DATA = 0x46"
| "fis_code FIS_TYPE_BIST = 0x58"
| "fis_code FIS_TYPE_PIO_SETUP = 0x5F"
| "fis_code FIS_TYPE_DEV_BITS = 0xA1"

subsection \<open>Places of the members\<close>

fun bit_size :: "layout \<Rightarrow> nat" where
  "bit_size [] = 0"
| "bit_size ((n, w) # ms) = w + bit_size ms"

fun starts_at :: "layout \<Rightarrow> string \<Rightarrow> nat option" where
  "starts_at [] x = None"
| "starts_at ((n, w) # ms) x = (if n = x then Some 0 else map_option ((+) w) (starts_at ms x))"

text \<open>Every member lies within one unit of its access: it does not cross a byte when it is a bit field,
  and it starts at a byte when it is not.\<close>

fun within_bytes :: "nat \<Rightarrow> layout \<Rightarrow> bool" where
  "within_bytes k [] \<longleftrightarrow> True"
| "within_bytes k ((n, w) # ms) \<longleftrightarrow> (if w < 8 then k mod 8 + w \<le> 8 else k mod 8 = 0) \<and> within_bytes (k + w) ms"

definition dword :: "layout \<Rightarrow> string \<Rightarrow> nat option" where
  "dword l x = Option.bind (starts_at l x) (\<lambda>k. if k mod 32 = 0 then Some (k div 32) else None)"

lemmas layouts = fis_reg_h2d_def fis_reg_d2h_def fis_data_def fis_pio_setup_def fis_dma_setup_def byte_member_def

text \<open>The frames have the shape the comments of the structures give: whole numbers of double words, the
  type first, every group of members at the start of the double word that the comment over it names,
  and no member across the bytes it is accessed by.  The types are told apart by their codes.\<close>

lemma frame_layouts:
  "map bit_size [fis_reg_h2d, fis_reg_d2h, fis_data, fis_pio_setup, fis_dma_setup] = map ((*) 32) [5, 5, 2, 5, 7] \<and>
   list_all (within_bytes 0) [fis_reg_h2d, fis_reg_d2h, fis_data, fis_pio_setup, fis_dma_setup] \<and>
   list_all (\<lambda>l. dword l ''fis_type'' = Some 0) [fis_reg_h2d, fis_reg_d2h, fis_data, fis_pio_setup, fis_dma_setup] \<and>
   map (dword fis_reg_h2d) [''lba0'', ''lba3'', ''countl'', ''rsv1''] = map Some [1, 2, 3, 4] \<and>
   map (dword fis_reg_d2h) [''lba0'', ''lba3'', ''countl'', ''rsv4''] = map Some [1, 2, 3, 4] \<and>
   map (dword fis_pio_setup) [''lba0'', ''lba3'', ''countl'', ''tc''] = map Some [1, 2, 3, 4] \<and>
   map (dword fis_dma_setup) [''dmabufid'', ''rsvd'', ''dmabufofs'', ''transfercount'', ''resvd''] = map Some [1, 3, 4, 5, 6] \<and>
   dword fis_data ''data'' = Some 1 \<and> inj fis_code"
proof -
  have "inj fis_code" by (rule injI) (case_tac x; case_tac y; simp)
  then show ?thesis by (simp add: layouts dword_def)
qed

end
