(* ===== verification/Spec2Isabelle.thy ===== *)
theory Spec2Isabelle
  imports Boot Userlib Ahci
begin

text \<open>
  Verification of DunkOS, a small 64-bit kernel written in C (\<^verbatim>\<open>src/kern\<close>).

  \<^bold>\<open>The program and its parts.\<close>  The loader enters \<^verbatim>\<open>kernel\<close> (\<^verbatim>\<open>bs/main.c\<close>), which starts the console, the
  interrupt tables, the page tables with the page pools and the kernel heap, the timer, the threads, the
  system calls and the PCI bus with the disk controller, and then ends its own thread.  From then on
  the idle thread, the interrupts and the system calls of processes drive the kernel.  Paths below are
  relative to \<^verbatim>\<open>src/kern/lib\<close>.  The theories follow the calls of the code, each builds on the ones above it:

  \<^item> \<^verbatim>\<open>Prelude\<close>: the integer types, the option monad of faults, \<open>ofold\<close> for loops that may fault, lemmas on
    words and lists.
  \<^item> \<^verbatim>\<open>Klist\<close> (\<^verbatim>\<open>shared/list.c\<close>, \<^verbatim>\<open>util/list.h\<close>): the intrusive list with its two sentinels; \<open>list_rep\<close> relates
    the links of a list to the sequence it holds, \<open>lists_rep\<close> many disjoint lists of one memory.
  \<^item> \<^verbatim>\<open>Libc\<close> (\<^verbatim>\<open>shared/string.c\<close>, \<^verbatim>\<open>shared/memsum.c\<close>, \<^verbatim>\<open>algo.h\<close>), \<^verbatim>\<open>Xprintf\<close> (\<^verbatim>\<open>shared/xprintf.c\<close>, \<^verbatim>\<open>io/printf.c\<close>),
    \<^verbatim>\<open>Console\<close> (\<^verbatim>\<open>io/console.c\<close>, \<^verbatim>\<open>io/puts.c\<close>): bytes, strings, hashes, formatted output and the screen.
  \<^item> \<^verbatim>\<open>Bitmap\<close> (\<^verbatim>\<open>util/bitmap.c\<close>) and \<^verbatim>\<open>Hashtable\<close> (\<^verbatim>\<open>util/hashtable.c\<close>): the containers.
  \<^item> \<^verbatim>\<open>Memory\<close> (\<^verbatim>\<open>mem/paging.c\<close>, \<^verbatim>\<open>memory.h\<close>), \<^verbatim>\<open>Heap\<close> (\<^verbatim>\<open>mem/heap.c\<close>), \<^verbatim>\<open>Pml4\<close> (\<^verbatim>\<open>mem/pml4.c\<close> and the page fault
    handler): pages, blocks and page tables.  The record \<open>paging\<close> is extended to \<open>heap\<close>, \<open>vm\<close>, and then
    to \<open>pci\<close> and \<open>disk\<close>, so that an operation of a lower part runs on the state of a higher one.
  \<^item> \<^verbatim>\<open>Threads\<close> (\<^verbatim>\<open>thr/thread.c\<close>): scheduler, semaphores, locks, condition variables, as a step relation on
    the calls and the suspended activations of the threads; \<^verbatim>\<open>Timer\<close> (\<^verbatim>\<open>thr/timer.c\<close>) extends its state;
    \<^verbatim>\<open>Interrupt\<close> (\<^verbatim>\<open>intr/\<close>) is the dispatch with the descriptor tables and the local controller.
  \<^item> \<^verbatim>\<open>Pci\<close> (\<^verbatim>\<open>io/pci.c\<close>), \<^verbatim>\<open>Ahci\<close> (\<^verbatim>\<open>io/ahci.c\<close>), \<^verbatim>\<open>Block\<close> (\<^verbatim>\<open>io/block.c\<close>, \<^verbatim>\<open>io/ide.c\<close>), \<^verbatim>\<open>Filesys\<close> (\<^verbatim>\<open>io/filesys.c\<close>):
    devices, sectors, inodes, files and directories.
  \<^item> \<^verbatim>\<open>Fdtable\<close> (\<^verbatim>\<open>thr/fdtable.c\<close>), \<^verbatim>\<open>Addrspace\<close> (\<^verbatim>\<open>mem/frame.c\<close>, \<^verbatim>\<open>mem/spt.c\<close>, \<^verbatim>\<open>process.h\<close>, \<^verbatim>\<open>vmmgmt.h\<close>),
    \<^verbatim>\<open>Process\<close> (\<^verbatim>\<open>thr/process.c\<close>), \<^verbatim>\<open>Syscall\<close> (\<^verbatim>\<open>thr/syscall.c\<close>, \<^verbatim>\<open>thr/sysentry.s\<close>, \<^verbatim>\<open>system.h\<close>): what a process has and
    may ask for.  The record \<open>sys\<close> puts scheduler, descriptors, files and address spaces side by side.
  \<^item> \<^verbatim>\<open>Userlib\<close> (\<^verbatim>\<open>usr/\<close>): the library of programs; its stubs go through the dispatch of \<^verbatim>\<open>Syscall\<close>.
  \<^item> \<^verbatim>\<open>Boot\<close> (\<^verbatim>\<open>bs/main.c\<close>, \<^verbatim>\<open>init_ahci\<close>, \<^verbatim>\<open>init_ide\<close>): the start, which composes the others.

  \<^bold>\<open>Conventions.\<close>  A function of the code is a definition of the same name (\<open>usr_\<close> marks the stub of a system
  call, \<open>_call\<close> a name that the logic uses itself); a loop is a definition with the suffix \<open>_loop\<close>, a
  static variable a field of the state.  Integers have their widths and wrap.  \<open>None\<close> is a run that does not come back: an access
  through the null pointer or outside a typed object, a failed assertion (the build sets \<^verbatim>\<open>_DEBUG\<close>, and
  \<^verbatim>\<open>panic\<close> halts), a loop that does not end, or, where one thread of control is followed (\<^verbatim>\<open>Block\<close> and
  above), a wait for a lock or semaphore that is not free.  A value that the code leaves unset (a function
  without a \<^verbatim>\<open>return\<close>, an uninitialised variable) is an argument or the field \<open>unset\<close>: the theorems hold
  for every such value.  Structures lie either in the byte memory, at the offsets the compiler gives, or
  are typed records beside it, named by their addresses; each theory says which.

  \<^bold>\<open>Interfaces.\<close>  Four contracts are locales, each interpreted on the code's own operations: \<open>list_store\<close>
  (queues of elements, in \<^verbatim>\<open>Klist\<close>), \<open>bit_pool\<close> (units handed out by a map of bits, in \<^verbatim>\<open>Bitmap\<close>), \<open>key_store\<close>
  (lookup after insertion and removal, in \<^verbatim>\<open>Hashtable\<close>) and \<open>mutex\<close> (what a critical section may rely
  on, in \<^verbatim>\<open>Block\<close>, provided again for the state of the system in \<^verbatim>\<open>Syscall\<close>).

  \<^bold>\<open>What is shown.\<close>  The containers refine sequences, sets of bits and maps.  Pages and blocks that are
  handed out overlap nothing in use, and the invariants of pools and heap are kept.  Every state that the
  scheduler reaches from the start by calls that keep its protocol is well formed, no call faults, and the ready list
  is first in, first out.  The start ends with the idle thread running.  Mapping an address makes its
  walk end in the new entry.  The recursion over the buses is no deeper than the number of buses; the
  search for the firmware tables returns just when the signature is there.  A child that has exited is reaped with its exit code.
  Many theorems state, as exactly, behaviour that the code hardly means: a waiting thread is never
  released, a sleeping one is woken on every tick, the products where sums are meant, hash
  functions and searches that do not end, file and process operations that cannot succeed, a heap whose free list
  is ruined by giving a block back, a cursor that leaves the screen.  They hold of the code as it is written.

  \<^bold>\<open>Bounds and fuel.\<close>  Loops over machine words end by a measure.  Loops without a bound in the code are
  partial functions on options, and that they end is a theorem where they do.  The one fuel is the depth
  of \<^verbatim>\<open>check_bus\<close>: a call without fuel does what the field \<open>beyond\<close> of the environment says, so that it is not taken for a fault.
  With bridges that lead to higher buses 256 less the bus is enough: the result does not depend on \<open>beyond\<close>.  With a bridge
  that leads back to its bus no fuel is enough, as the code recurses for ever.

  \<^bold>\<open>Not modelled.\<close>  The assembly of the loader, of \<^verbatim>\<open>switch_to\<close> and of the interrupt stubs, the instructions that load
  tables, and what devices do.  What compiled code leaves in the registers \<^verbatim>\<open>rcx\<close> and
  \<^verbatim>\<open>r11\<close>, which \<^verbatim>\<open>sysret\<close> uses and the system call entry does not save, is a parameter: a stub of the user
  library comes back only where \<^verbatim>\<open>rcx\<close> is kept; the mode in which \<^verbatim>\<open>sysret\<close> goes on is left out.  Of the variables that lie
  behind \<^verbatim>\<open>fs_free_map\<close>, whose address is passed as a bitmap, locks, the sector count and the block pointer are followed; the
  others are plain words.  The layout of frames of the disk controller is checked but no code uses it.  The locks of heap descriptors and page pools (the latter are commented
  out).  Blocks of eight bytes, whose list elements overlap; \<^verbatim>\<open>page_load\<close> for a page that is not in
  the table, which overwrites its own local variable (both \<open>None\<close>).  The text that fault handlers
  print before they halt.  \<^verbatim>\<open>idle_thread_func\<close>, an empty loop, and \<^verbatim>\<open>get_faultaddr\<close>, which is not called.  Functions that are
  declared only (\<^verbatim>\<open>vsnprintf\<close>, the user's \<^verbatim>\<open>eof\<close>, \<^verbatim>\<open>pci_get_bar\<close>) are arguments or absent.
  Interleaving is described for the scheduler (\<^verbatim>\<open>Threads\<close>, \<^verbatim>\<open>Timer\<close>); the components above it follow one
  thread of control.
\<close>

end
